(* ===== verification/Prelude.thy ===== *)
theory Prelude
  imports Main "HOL-Library.Word"
begin

text \<open>
  Shared vocabulary of the development: the machine types of the Rust sources, the standard
  library's saturating arithmetic and byte conversions, runs of a state machine, and the
  interface locales that several components provide: a fixed-width byte codec, a state
  machine with an invariant (and, extending it, one with a monotone observation), and a labelled
  transition relation that a machine simulates.

  The node runs the release profile (\<open>Cargo.toml\<close>, \<open>ecosystem.config.js\<close>), which leaves
  overflow checks off, so the operators \<open>+\<close>, \<open>-\<close> and \<open>*\<close> of the sources wrap, as those of
  \<^typ>\<open>'a word\<close> do. Fixed-size arrays \<open>[u8; n]\<close> are byte lists.
\<close>

section \<open>Machine types\<close>

type_synonym u8 = "8 word"
type_synonym u32 = "32 word"
type_synonym u64 = "64 word"
type_synonym i64 = "64 word"
type_synonym bytes = "u8 list"

abbreviation zeros :: "nat \<Rightarrow> bytes" where
  "zeros n \<equiv> replicate n 0"

named_theorems size_simps \<open>lengths of byte strings\<close>
named_theorems frame_simps \<open>fields that an operation leaves alone\<close>

section \<open>Saturating arithmetic\<close>

definition sat_add :: "'w::len word \<Rightarrow> 'w word \<Rightarrow> 'w word" where
  "sat_add a b = (if unat a + unat b < 2 ^ LENGTH('w) then a + b else - 1)"

definition sat_sub :: "'w::len word \<Rightarrow> 'w word \<Rightarrow> 'w word" where
  "sat_sub a b = (if a < b then 0 else a - b)"

lemma unat_plus_exact:
  "unat a + unat b < 2 ^ LENGTH('w) \<Longrightarrow> unat (a + b) = unat a + unat (b :: 'w::len word)"
  by (simp add: unat_word_ariths)

lemma unat_times_exact:
  "unat a * unat b < 2 ^ LENGTH('w) \<Longrightarrow> unat (a * b) = unat a * unat (b :: 'w::len word)"
  by (simp add: unat_word_ariths)

lemma unat_minus_exact: "b \<le> a \<Longrightarrow> unat (a - b) = unat a - unat (b :: 'w::len word)"
  by (rule unat_sub)

lemma unat_sat_add: "unat (sat_add a b) = min (unat a + unat b) (2 ^ LENGTH('w) - 1)"
  for a b :: "'w::len word"
  by (auto simp: sat_add_def unat_plus_exact unsigned_minus_1_eq_mask mask_eq_exp_minus_1)

lemma unat_sat_sub: "unat (sat_sub a b) = unat a - unat b"
  by (auto simp: sat_sub_def word_less_nat_alt word_le_nat_alt unat_minus_exact)

lemma unat_max: "unat (max a b) = max (unat a) (unat (b :: 'w::len word))"
  by (simp add: max_def word_le_nat_alt)

lemma unat_min: "unat (min a b) = min (unat a) (unat (b :: 'w::len word))"
  by (simp add: min_def word_le_nat_alt)

lemma unat_of_nat_exact: "n < 2 ^ LENGTH('w) \<Longrightarrow> unat (of_nat n :: 'w::len word) = n"
  by (simp add: unat_of_nat)

section \<open>Little and big endian byte strings\<close>

fun le_bytes :: "nat \<Rightarrow> nat \<Rightarrow> bytes" where
  "le_bytes 0 x = []"
| "le_bytes (Suc n) x = of_nat (x mod 256) # le_bytes n (x div 256)"

fun le_value :: "bytes \<Rightarrow> nat" where
  "le_value [] = 0"
| "le_value (b # bs) = unat b + 256 * le_value bs"

lemma length_le_bytes [simp, size_simps]: "length (le_bytes n x) = n"
  by (induction n arbitrary: x) auto

lemma le_value_le_bytes: "le_value (le_bytes n x) = x mod 256 ^ n"
proof (induction n arbitrary: x)
  case (Suc n)
  have "unat (of_nat (x mod 256) :: u8) = x mod 256"
    by (simp add: unat_of_nat_exact)
  with Suc show ?case by (simp add: mod_mult2_eq)
qed simp

lemma le_value_bound: "le_value bs < 256 ^ length bs"
proof (induction bs)
  case (Cons b bs)
  have "unat b < 256" using unsigned_less [of b] by simp
  with Cons show ?case by simp
qed simp

definition u64_to_le :: "u64 \<Rightarrow> bytes" where
  "u64_to_le x = le_bytes 8 (unat x)"

definition u64_from_le :: "bytes \<Rightarrow> u64" where
  "u64_from_le bs = of_nat (le_value bs)"

definition u64_to_be :: "u64 \<Rightarrow> bytes" where
  "u64_to_be x = rev (le_bytes 8 (unat x))"

definition u64_from_be :: "bytes \<Rightarrow> u64" where
  "u64_from_be bs = of_nat (le_value (rev bs))"

definition u32_to_le :: "u32 \<Rightarrow> bytes" where
  "u32_to_le x = le_bytes 4 (unat x)"

definition u32_from_le :: "bytes \<Rightarrow> u32" where
  "u32_from_le bs = of_nat (le_value bs)"

definition u32_to_be :: "u32 \<Rightarrow> bytes" where
  "u32_to_be x = rev (le_bytes 4 (unat x))"

definition u32_from_be :: "bytes \<Rightarrow> u32" where
  "u32_from_be bs = of_nat (le_value (rev bs))"

section \<open>The interface of a fixed-width codec\<close>

locale fixed_codec =
  fixes enc :: "'a \<Rightarrow> bytes" and dec :: "bytes \<Rightarrow> 'a" and width :: nat
  assumes enc_width: "length (enc x) = width"
    and dec_enc: "dec (enc x) = x"
begin

lemma enc_inject: "enc x = enc y \<longleftrightarrow> x = y"
  by (metis dec_enc)

lemma enc_append_inject: "enc x @ r = enc y @ s \<longleftrightarrow> x = y \<and> r = s"
  by (auto simp: enc_width enc_inject)

lemma dec_prefix: "dec (take width (enc x @ r)) = x"
  by (simp add: enc_width dec_enc)

lemma drop_prefix: "drop width (enc x @ r) = r"
  by (simp add: enc_width)

end

interpretation u64_le: fixed_codec u64_to_le u64_from_le 8
proof unfold_locales
  fix x :: u64
  have "unat x < 256 ^ 8" using unsigned_less [of x] by simp
  then show "u64_from_le (u64_to_le x) = x"
    by (simp add: u64_to_le_def u64_from_le_def le_value_le_bytes)
qed (simp add: u64_to_le_def)

interpretation u64_be: fixed_codec u64_to_be u64_from_be 8
proof unfold_locales
  fix x :: u64
  have "unat x < 256 ^ 8" using unsigned_less [of x] by simp
  then show "u64_from_be (u64_to_be x) = x"
    by (simp add: u64_to_be_def u64_from_be_def le_value_le_bytes)
qed (simp add: u64_to_be_def)

interpretation u32_le: fixed_codec u32_to_le u32_from_le 4
proof unfold_locales
  fix x :: u32
  have "unat x < 256 ^ 4" using unsigned_less [of x] by simp
  then show "u32_from_le (u32_to_le x) = x"
    by (simp add: u32_to_le_def u32_from_le_def le_value_le_bytes)
qed (simp add: u32_to_le_def)

interpretation u32_be: fixed_codec u32_to_be u32_from_be 4
proof unfold_locales
  fix x :: u32
  have "unat x < 256 ^ 4" using unsigned_less [of x] by simp
  then show "u32_from_be (u32_to_be x) = x"
    by (simp add: u32_to_be_def u32_from_be_def le_value_le_bytes)
qed (simp add: u32_to_be_def)

lemmas codec_inject =
  u64_le.enc_inject u64_be.enc_inject u32_le.enc_inject u32_be.enc_inject
  u64_le.enc_append_inject u64_be.enc_append_inject
  u32_le.enc_append_inject u32_be.enc_append_inject

lemmas codec_width [simp, size_simps] =
  u64_le.enc_width u64_be.enc_width u32_le.enc_width u32_be.enc_width

section \<open>Runs of a state machine\<close>

fun run :: "('s \<Rightarrow> 'e \<Rightarrow> 's) \<Rightarrow> 's \<Rightarrow> 'e list \<Rightarrow> 's" where
  "run step s [] = s"
| "run step s (e # es) = run step (step s e) es"

fun run_ok :: "('s \<Rightarrow> 'e \<Rightarrow> 's) \<Rightarrow> ('s \<Rightarrow> 'e \<Rightarrow> bool) \<Rightarrow> 's \<Rightarrow> 'e list \<Rightarrow> bool" where
  "run_ok step ok s [] = True"
| "run_ok step ok s (e # es) = (ok s e \<and> run_ok step ok (step s e) es)"

lemma run_append: "run step s (xs @ ys) = run step (run step s xs) ys"
  by (induction xs arbitrary: s) auto

lemma run_ok_trivial [simp]: "run_ok step (\<lambda>_ _. True) s es"
  by (induction es arbitrary: s) auto

text \<open>
  A machine whose steps keep an invariant as long as the environment respects a guard, and
  one whose observation never decreases. Components interpret these on their own operations.
\<close>

locale inv_machine =
  fixes step :: "'s \<Rightarrow> 'e \<Rightarrow> 's" and ok :: "'s \<Rightarrow> 'e \<Rightarrow> bool" and inv :: "'s \<Rightarrow> bool"
  assumes step_inv: "inv s \<Longrightarrow> ok s e \<Longrightarrow> inv (step s e)"
begin

lemma run_inv: "inv s \<Longrightarrow> run_ok step ok s es \<Longrightarrow> inv (run step s es)"
  by (induction es arbitrary: s) (auto intro: step_inv)

end

locale mono_machine = inv_machine step ok inv
  for step :: "'s \<Rightarrow> 'e \<Rightarrow> 's" and ok :: "'s \<Rightarrow> 'e \<Rightarrow> bool" and inv :: "'s \<Rightarrow> bool" +
  fixes obs :: "'s \<Rightarrow> 'o::preorder"
  assumes step_mono: "inv s \<Longrightarrow> ok s e \<Longrightarrow> obs s \<le> obs (step s e)"
begin

lemma run_mono: "inv s \<Longrightarrow> run_ok step ok s es \<Longrightarrow> obs s \<le> obs (run step s es)"
proof (induction es arbitrary: s)
  case (Cons e es)
  then have "obs s \<le> obs (step s e)" "obs (step s e) \<le> obs (run step (step s e) es)"
    by (auto intro: step_mono step_inv)
  then show ?case by (auto intro: order_trans)
qed simp

end

text \<open>
  A path of a transition relation with labels, the labels of its internal transitions being \<^const>\<open>None\<close>;
  the events of a path are the other labels, in their order.
\<close>

inductive labelled_path :: "('c \<Rightarrow> 'e option \<Rightarrow> 'c \<Rightarrow> bool) \<Rightarrow> 'c \<Rightarrow> 'e option list \<Rightarrow> 'c \<Rightarrow> bool" for trans where
  here: "labelled_path trans c [] c"
| go: "trans c lab c' \<Longrightarrow> labelled_path trans c' labs c'' \<Longrightarrow> labelled_path trans c (lab # labs) c''"

fun events :: "'e option list \<Rightarrow> 'e list" where
  "events [] = []"
| "events (None # labs) = events labs"
| "events (Some ev # labs) = ev # events labs"

text \<open>
  A labelled transition relation that a deterministic machine simulates: an internal transition leaves
  the machine where it is, every other one is matched by exactly the event of its label.
\<close>

locale simulation =
  fixes trans :: "'c \<Rightarrow> 'e option \<Rightarrow> 'c \<Rightarrow> bool" and step :: "'s \<Rightarrow> 'e \<Rightarrow> 's" and ok :: "'e \<Rightarrow> bool"
    and sim :: "'c \<Rightarrow> 's \<Rightarrow> bool"
  assumes sim_internal: "trans c None c' \<Longrightarrow> sim c s \<Longrightarrow> sim c' s"
    and sim_event: "trans c (Some ev) c' \<Longrightarrow> sim c s \<Longrightarrow> ok ev \<and> sim c' (step s ev)"
begin

lemma sim_path:
  "labelled_path trans c labs c' \<Longrightarrow> sim c s \<Longrightarrow> (\<forall>ev\<in>set (events labs). ok ev) \<and> sim c' (run step s (events labs))"
proof (induction arbitrary: s rule: labelled_path.induct)
  case (go c lab c' labs c'')
  then show ?case using sim_internal sim_event by (cases lab) fastforce+
qed simp

end

section \<open>Optional results in sequence\<close>

text \<open>The standard library's collection of an iterator of options into an optional vector.\<close>

fun sequence :: "'a option list \<Rightarrow> 'a list option" where
  "sequence [] = Some []"
| "sequence (x # xs) =
     (case x of None \<Rightarrow> None
      | Some y \<Rightarrow> (case sequence xs of None \<Rightarrow> None | Some ys \<Rightarrow> Some (y # ys)))"

lemma sequence_map_Some [simp]: "sequence (map Some ys) = Some ys"
  by (induction ys) auto

lemma sequence_Some_iff: "sequence xs = Some ys \<longleftrightarrow> xs = map Some ys"
  by (induction xs arbitrary: ys) (auto simp: Cons_eq_map_conv map_eq_Cons_conv split: option.splits)

lemma sequence_map_comp: "(\<And>x. x \<in> set xs \<Longrightarrow> f x = Some (g x)) \<Longrightarrow> sequence (map f xs) = Some (map g xs)"
  by (induction xs) auto

section \<open>Slices\<close>

text \<open>The subslice \<open>xs[a..b]\<close> of the sources, inside the bounds.\<close>

definition subslice :: "nat \<Rightarrow> nat \<Rightarrow> 'a list \<Rightarrow> 'a list" where
  "subslice a b xs = take (b - a) (drop a xs)"

lemma length_subslice [size_simps]: "b \<le> length xs \<Longrightarrow> length (subslice a b xs) = b - a"
  by (simp add: subslice_def)

lemma subslice_append_left: "b \<le> length xs \<Longrightarrow> subslice a b (xs @ ys) = subslice a b xs"
  by (simp add: subslice_def)

lemma subslice_append_right: "length xs \<le> a \<Longrightarrow> subslice a b (xs @ ys) = subslice (a - length xs) (b - length xs) ys"
  by (simp add: subslice_def)

end
