(* ===== verification/F64.thy ===== *)
theory F64
  imports Prelude Complex_Main
begin

text \<open>
  The non-negative part of IEEE 754 binary64, which the sources use for ratios of counters
  (\<open>ChainParams::adaptive_exit_lock\<close>, \<open>compute_slash\<close>, \<open>SyncState::progress_pct\<close>,
  \<open>FeeMarket::ncip_to_cip\<close>). A finite value is a rational; every operation rounds its exact
  result to nearest, ties to even, with 53 bits of significand and the subnormal grid at the
  bottom. All operands come from unsigned integers, so no negative number and no signed zero
  arises. Rounding is monotone and exact on integers below \<open>2 ^ 53\<close>.
\<close>

datatype f64 = NaN | Inf | Fin rat

section \<open>The binary exponent of a rational\<close>

fun bit_width :: "nat \<Rightarrow> nat" where
  "bit_width n = (if n = 0 then 0 else Suc (bit_width (n div 2)))"

declare bit_width.simps [simp del]

lemma bit_width_pos: "0 < n \<Longrightarrow> 0 < bit_width n"
  by (simp add: bit_width.simps [of n])

lemma bit_width_upper: "n < 2 ^ bit_width n"
proof (induction n rule: bit_width.induct)
  case (1 n)
  then show ?case by (cases "n = 0") (auto simp: bit_width.simps [of n])
qed

lemma bit_width_lower: "0 < n \<Longrightarrow> 2 ^ (bit_width n - 1) \<le> n"
proof (induction n rule: bit_width.induct)
  case (1 n)
  show ?case
  proof (cases "n div 2 = 0")
    case True
    with 1 show ?thesis by (simp add: bit_width.simps [of n] bit_width.simps [of 0])
  next
    case False
    then have "0 < bit_width (n div 2)" by (simp add: bit_width_pos)
    then have "(2::nat) ^ bit_width (n div 2) = 2 * 2 ^ (bit_width (n div 2) - 1)"
      by (cases "bit_width (n div 2)") auto
    with False "1.IH" "1.prems" show ?thesis by (simp add: bit_width.simps [of n])
  qed
qed

definition flog2 :: "rat \<Rightarrow> int" where
  "flog2 x =
     (let (n, d) = quotient_of x; k = int (bit_width (nat n)) - int (bit_width (nat d)) in
      if 2 powi k \<le> x then k else k - 1)"

lemma powi_real_bounds:
  fixes n d :: nat
  assumes "0 < n" "0 < d"
  defines "k \<equiv> int (bit_width n) - int (bit_width d)"
  shows "2 powi (k - 1) \<le> (of_nat n / of_nat d :: rat)"
    and "(of_nat n / of_nat d :: rat) < 2 powi (k + 1)"
proof -
  have d_lo: "(2::rat) powi (int (bit_width d) - 1) \<le> of_nat d"
    using bit_width_lower [OF assms(2)] bit_width_pos [OF assms(2)]
    by (metis (no_types, lifting) of_nat_le_iff of_nat_numeral of_nat_power of_nat_1 of_nat_diff
        Suc_leI One_nat_def power_int_of_nat)
  have n_lo: "(2::rat) powi (int (bit_width n) - 1) \<le> of_nat n"
    using bit_width_lower [OF assms(1)] bit_width_pos [OF assms(1)]
    by (metis (no_types, lifting) of_nat_le_iff of_nat_numeral of_nat_power of_nat_1 of_nat_diff
        Suc_leI One_nat_def power_int_of_nat)
  have d_hi: "(of_nat d :: rat) < 2 powi int (bit_width d)"
    using bit_width_upper [of d] by (metis of_nat_less_iff of_nat_numeral of_nat_power power_int_of_nat)
  have n_hi: "(of_nat n :: rat) < 2 powi int (bit_width n)"
    using bit_width_upper [of n] by (metis of_nat_less_iff of_nat_numeral of_nat_power power_int_of_nat)
  have "(2::rat) powi (k - 1) * of_nat d \<le> 2 powi (k - 1) * 2 powi int (bit_width d)"
    using d_hi by (intro mult_left_mono) auto
  also have "\<dots> = 2 powi (k - 1 + int (bit_width d))"
    by (rule power_int_add [symmetric]) simp
  also have "k - 1 + int (bit_width d) = int (bit_width n) - 1"
    by (simp add: k_def)
  also note n_lo
  finally show "2 powi (k - 1) \<le> (of_nat n / of_nat d :: rat)"
    using assms(2) by (simp add: pos_le_divide_eq)
  note n_hi
  also have "int (bit_width n) = k + 1 + (int (bit_width d) - 1)"
    by (simp add: k_def)
  also have "(2::rat) powi \<dots> = 2 powi (k + 1) * 2 powi (int (bit_width d) - 1)"
    by (rule power_int_add) simp
  also have "\<dots> \<le> 2 powi (k + 1) * of_nat d"
    using d_lo by (intro mult_left_mono) auto
  finally show "(of_nat n / of_nat d :: rat) < 2 powi (k + 1)"
    using assms(2) by (simp add: pos_divide_less_eq)
qed

lemma flog2_bounds:
  assumes "0 < x"
  shows "2 powi flog2 x \<le> x" and "x < 2 powi (flog2 x + 1)"
proof -
  obtain n d where q: "quotient_of x = (n, d)" by fastforce
  have d: "0 < d" using q by (rule quotient_of_denom_pos)
  have x: "x = of_int n / of_int d" using q by (rule quotient_of_div)
  with d assms have n: "0 < n" by (simp add: zero_less_divide_iff)
  have x': "x = of_nat (nat n) / of_nat (nat d)" using n d x by simp
  have nn: "0 < nat n" "0 < nat d" using n d by simp_all
  note b = powi_real_bounds [OF nn, folded x']
  let ?k = "int (bit_width (nat n)) - int (bit_width (nat d))"
  have f: "flog2 x = (if 2 powi ?k \<le> x then ?k else ?k - 1)"
    by (simp add: flog2_def q)
  show "2 powi flog2 x \<le> x" using b(1) by (simp add: f)
  show "x < 2 powi (flog2 x + 1)" using b(2) by (simp add: f)
qed

lemma powi_le_iff: "(2::rat) powi a \<le> 2 powi b \<longleftrightarrow> a \<le> b"
  using power_int_strict_increasing [of b a "2::rat"] power_int_increasing [of a b "2::rat"]
  by (meson linorder_not_less one_le_numeral order_less_le_trans one_less_numeral_iff
      semiring_norm(76) leD)

lemma flog2_mono:
  assumes "0 < x" "x \<le> y"
  shows "flog2 x \<le> flog2 y"
proof -
  have "2 powi flog2 x \<le> x" "y < 2 powi (flog2 y + 1)"
    using assms by (auto intro: flog2_bounds)
  with assms have "(2::rat) powi flog2 x < 2 powi (flog2 y + 1)" by linarith
  then show ?thesis using powi_le_iff [of "flog2 y + 1" "flog2 x"] by auto
qed

section \<open>Rounding to nearest, ties to even\<close>

definition round_even :: "rat \<Rightarrow> int" where
  "round_even r =
     (let f = \<lfloor>r\<rfloor>; d = r - of_int f in
      if d < 1 / 2 then f else if 1 / 2 < d then f + 1 else if even f then f else f + 1)"

lemma round_even_of_int [simp]: "round_even (of_int n) = n"
  by (simp add: round_even_def)

lemma round_even_range: "\<lfloor>r\<rfloor> \<le> round_even r" "round_even r \<le> \<lfloor>r\<rfloor> + 1"
  by (auto simp: round_even_def Let_def)

lemma round_even_mono: "r \<le> s \<Longrightarrow> round_even r \<le> round_even s"
proof -
  assume rs: "r \<le> s"
  then have fl: "\<lfloor>r\<rfloor> \<le> \<lfloor>s\<rfloor>" by (rule floor_mono)
  show ?thesis
  proof (cases "\<lfloor>r\<rfloor> = \<lfloor>s\<rfloor>")
    case True
    with rs show ?thesis by (auto simp: round_even_def Let_def)
  next
    case False
    with fl have "\<lfloor>r\<rfloor> + 1 \<le> \<lfloor>s\<rfloor>" by simp
    with round_even_range [of r] round_even_range [of s] show ?thesis by linarith
  qed
qed

definition grid :: "rat \<Rightarrow> int" where
  "grid x = max (flog2 x - 52) (- 1074)"

definition rnd :: "rat \<Rightarrow> rat" where
  "rnd x = (if x \<le> 0 then 0 else of_int (round_even (x / 2 powi grid x)) * 2 powi grid x)"

lemma rnd_0 [simp]: "rnd 0 = 0"
  by (simp add: rnd_def)

lemma rnd_on_grid:
  assumes "0 < x" "x = of_int m * 2 powi e" "grid x \<le> e"
  shows "rnd x = x"
proof -
  have "(2::rat) powi e = 2 ^ nat (e - grid x) * 2 powi grid x"
    using assms(3) by (simp add: power_int_add [symmetric] flip: power_int_of_nat)
  then have "x / 2 powi grid x = of_int (m * 2 ^ nat (e - grid x))"
    by (subst assms(2)) simp
  then have "round_even (x / 2 powi grid x) = m * 2 ^ nat (e - grid x)"
    and "x = of_int (m * 2 ^ nat (e - grid x)) * 2 powi grid x"
    by (simp_all only: round_even_of_int) (simp add: nonzero_divide_eq_eq)
  then show ?thesis using assms(1) by (simp add: rnd_def)
qed

lemma rnd_nonneg: "0 \<le> rnd x"
proof (cases "0 < x")
  case True
  then have "0 \<le> round_even (x / 2 powi grid x)"
    using round_even_mono [of 0 "x / 2 powi grid x"] round_even_of_int [of 0] by simp
  then show ?thesis by (simp add: rnd_def)
qed (simp add: rnd_def)

lemma rnd_mono:
  assumes "x \<le> y"
  shows "rnd x \<le> rnd y"
proof (cases "0 < x")
  case False
  then show ?thesis using rnd_nonneg [of y] by (simp add: rnd_def)
next
  case x: True
  with assms have y: "0 < y" by simp
  have g: "grid x \<le> grid y"
    using flog2_mono [OF x assms] by (simp add: grid_def)
  show ?thesis
  proof (cases "grid x = grid y")
    case True
    have "x / 2 powi grid y \<le> y / 2 powi grid y"
      using assms by (intro divide_right_mono) auto
    then show ?thesis
      using x y True by (auto simp: rnd_def intro!: mult_right_mono round_even_mono)
  next
    case False
    with g have lt: "grid x < grid y" by simp
    then have gy: "grid y = flog2 y - 52" and fl: "flog2 x < flog2 y"
      using flog2_mono [OF x assms] by (auto simp: grid_def max_def split: if_splits)
    define B :: rat where "B = 2 powi flog2 y"
    have Bpos: "0 < B" by (simp add: B_def)
    have "x < 2 powi (flog2 x + 1)" using x by (rule flog2_bounds)
    also have "\<dots> \<le> B" using fl by (simp add: B_def powi_le_iff)
    finally have xB: "x \<le> B" by simp
    have By: "B \<le> y" using flog2_bounds [OF y] by (simp add: B_def)
    have Bx: "B = of_int (2 ^ nat (flog2 y - grid x)) * 2 powi grid x"
      using gy lt by (simp add: B_def power_int_add [symmetric] flip: power_int_of_nat)
    have Byg: "B = of_int (2 ^ 52) * 2 powi grid y"
    proof -
      have "(2::rat) powi (52 + grid y) = 2 powi 52 * 2 powi grid y"
        by (rule power_int_add) simp
      with gy show ?thesis by (simp add: B_def)
    qed
    have "x / 2 powi grid x \<le> of_int (2 ^ nat (flog2 y - grid x))"
      using xB Bx by (simp add: pos_divide_le_eq)
    then have "round_even (x / 2 powi grid x) \<le> 2 ^ nat (flog2 y - grid x)"
      using round_even_mono round_even_of_int by metis
    then have "rnd x \<le> of_int (2 ^ nat (flog2 y - grid x)) * 2 powi grid x"
      using x by (simp add: rnd_def mult_right_mono del: of_int_power)
    also have "\<dots> = B" using Bx by simp
    finally have 1: "rnd x \<le> B" .
    have "of_int (2 ^ 52) \<le> y / 2 powi grid y"
      using By Byg by (simp add: pos_le_divide_eq)
    then have "2 ^ 52 \<le> round_even (y / 2 powi grid y)"
      using round_even_mono round_even_of_int by metis
    then have "of_int (2 ^ 52) * 2 powi grid y \<le> rnd y"
      using y by (simp add: rnd_def mult_right_mono del: of_int_power)
    with 1 Byg show ?thesis by simp
  qed
qed

lemma rnd_of_nat: "n < 2 ^ 53 \<Longrightarrow> rnd (of_nat n) = of_nat n"
proof (cases "n = 0")
  case False
  assume n: "n < 2 ^ 53"
  have "(2::rat) powi flog2 (of_nat n) \<le> of_nat n"
    using False by (intro flog2_bounds) simp
  also have "of_nat n < (2::rat) ^ 53"
    using n by (metis of_nat_less_iff of_nat_numeral of_nat_power)
  also have "(2::rat) ^ 53 = 2 powi 53" by simp
  finally have "\<not> (2::rat) powi 53 \<le> 2 powi flog2 (of_nat n)" by (simp only: not_le)
  then have "flog2 (of_nat n) < 53" using powi_le_iff [of 53 "flog2 (of_nat n)"] by linarith
  then have "grid (of_nat n) \<le> 0" by (simp add: grid_def)
  with False show ?thesis by (intro rnd_on_grid [where m = "int n" and e = 0]) auto
qed simp

section \<open>The operations the sources use\<close>

definition f64_of :: "rat \<Rightarrow> f64" where
  "f64_of x = (let r = rnd x in if 2 ^ 1024 \<le> r then Inf else Fin r)"

definition u64_as_f64 :: "u64 \<Rightarrow> f64" where
  "u64_as_f64 n = f64_of (of_nat (unat n))"

fun f64_add :: "f64 \<Rightarrow> f64 \<Rightarrow> f64" where
  "f64_add NaN y = NaN"
| "f64_add x NaN = NaN"
| "f64_add Inf y = Inf"
| "f64_add x Inf = Inf"
| "f64_add (Fin x) (Fin y) = f64_of (x + y)"

fun f64_mul :: "f64 \<Rightarrow> f64 \<Rightarrow> f64" where
  "f64_mul NaN y = NaN"
| "f64_mul x NaN = NaN"
| "f64_mul Inf Inf = Inf"
| "f64_mul Inf (Fin y) = (if y = 0 then NaN else Inf)"
| "f64_mul (Fin x) Inf = (if x = 0 then NaN else Inf)"
| "f64_mul (Fin x) (Fin y) = f64_of (x * y)"

fun f64_div :: "f64 \<Rightarrow> f64 \<Rightarrow> f64" where
  "f64_div NaN y = NaN"
| "f64_div x NaN = NaN"
| "f64_div Inf Inf = NaN"
| "f64_div Inf (Fin y) = Inf"
| "f64_div (Fin x) Inf = Fin 0"
| "f64_div (Fin x) (Fin y) = (if y = 0 then if x = 0 then NaN else Inf else f64_of (x / y))"

fun f64_less :: "f64 \<Rightarrow> f64 \<Rightarrow> bool" where
  "f64_less (Fin x) (Fin y) = (x < y)"
| "f64_less (Fin x) Inf = True"
| "f64_less _ _ = False"

text \<open>\<open>f64::min\<close> returns the other operand when one is not a number.\<close>

fun f64_min :: "f64 \<Rightarrow> f64 \<Rightarrow> f64" where
  "f64_min NaN y = y"
| "f64_min x NaN = x"
| "f64_min Inf y = y"
| "f64_min x Inf = x"
| "f64_min (Fin x) (Fin y) = Fin (min x y)"

text \<open>The cast \<open>as u64\<close> truncates, saturates and sends NaN to 0.\<close>

fun f64_as_u64 :: "f64 \<Rightarrow> u64" where
  "f64_as_u64 NaN = 0"
| "f64_as_u64 Inf = - 1"
| "f64_as_u64 (Fin x) = of_int (min \<lfloor>x\<rfloor> (2 ^ 64 - 1))"

lemma rnd_powi:
  assumes "- 1074 \<le> k"
  shows "rnd (2 powi k) = 2 powi k"
proof (rule rnd_on_grid [where m = 1 and e = k])
  have "(2::rat) powi flog2 (2 powi k) \<le> 2 powi k" by (rule flog2_bounds) simp
  then have "flog2 (2 powi k) \<le> k" by (simp only: powi_le_iff)
  with assms show "grid (2 powi k) \<le> k" by (simp add: grid_def)
qed simp_all

lemma rnd_pow2: "rnd (2 ^ k) = 2 ^ k"
  using rnd_powi [of "int k"] by simp

lemma rnd_le_pow2: "x \<le> 2 ^ k \<Longrightarrow> rnd x \<le> 2 ^ k"
  using rnd_mono [of x "2 ^ k"] by (simp add: rnd_pow2)

lemma f64_of_small: "x \<le> 2 ^ 1023 \<Longrightarrow> f64_of x = Fin (rnd x)"
proof -
  assume x: "x \<le> 2 ^ 1023"
  then have "rnd x \<le> 2 ^ 1023" by (rule rnd_le_pow2)
  also have "(2::rat) ^ 1023 < 2 ^ 1024" by simp
  finally show ?thesis by (simp add: f64_of_def)
qed

lemma u64_as_f64_small: "unat n < 2 ^ 53 \<Longrightarrow> u64_as_f64 n = Fin (of_nat (unat n))"
proof -
  assume n: "unat n < 2 ^ 53"
  then have "(of_nat (unat n) :: rat) < 2 ^ 53"
    by (metis of_nat_less_iff of_nat_numeral of_nat_power)
  then have "(of_nat (unat n) :: rat) \<le> 2 ^ 1023"
    by (rule order_trans [OF less_imp_le]) simp
  with n show ?thesis by (simp only: u64_as_f64_def f64_of_small rnd_of_nat)
qed

lemma u64_as_f64_Fin: "u64_as_f64 n = Fin (rnd (of_nat (unat n)))"
proof -
  have "unat n < 2 ^ 64" using unsigned_less [of n] by simp
  then have "(of_nat (unat n) :: rat) < 2 ^ 64"
    by (metis of_nat_less_iff of_nat_numeral of_nat_power)
  then have "(of_nat (unat n) :: rat) \<le> 2 ^ 1023"
    by (rule order_trans [OF less_imp_le]) simp
  then show ?thesis by (simp add: u64_as_f64_def f64_of_small)
qed

lemma rnd_u64: "rnd (of_nat (unat (p :: u64))) \<le> 2 ^ 64"
proof (rule rnd_le_pow2)
  have "unat p < 2 ^ 64" using unsigned_less [of p, where ?'a = nat] by simp
  then show "(of_nat (unat p) :: rat) \<le> 2 ^ 64"
    by (metis less_imp_le of_nat_le_iff of_nat_numeral of_nat_power)
qed

lemma rnd_u64_positive: "t \<noteq> 0 \<Longrightarrow> 1 \<le> rnd (of_nat (unat (t :: u64)))"
  using rnd_mono [of 1 "of_nat (unat t)"] rnd_pow2 [of 0]
  by (simp add: Suc_leI unat_gt_0 del: of_nat_unat)

end
