(* ===== verification/Gas.thy ===== *)
theory Gas
  imports Prelude F64
begin

text \<open>
  \<open>src/src/evm/gas.rs\<close>: the gas price list, the EIP-1559 style fee market, the gas tracker of an
  execution and the fee breakdown. \<open>FeeMarket::update_base_fee\<close> divides by the target, so a
  market with target 0 panics on every non-empty block: that is the result \<^const>\<open>None\<close>. The
  product \<open>base_fee_per_gas * excess\<close> wraps at 64 bits; the bounds below say when it does not.
\<close>

section \<open>Gas constants\<close>

datatype gas_op =
    TX_BASE | TX_DATA_ZERO | TX_DATA_NONZERO
  | SSTORE_SET | SSTORE_RESET | SLOAD
  | CREATE | CODE_DEPOSIT | CALL | CALL_VALUE
  | RING_SIG_VERIFY | ZK_VERIFY | STEALTH_SCAN | ENCRYPT_SLOT | PEDERSEN_COMMIT | BULLETPROOF_VFY
  | MEMORY_WORD | MEMORY_QUAD
  | ADD | MUL | SHA3 | SHA3_WORD | BALANCE | JUMP | JUMPI | LOG0 | LOG_DATA | LOG_TOPIC

fun gas_cost :: "gas_op \<Rightarrow> u64" where
  "gas_cost TX_BASE = 21000"
| "gas_cost TX_DATA_ZERO = 4"
| "gas_cost TX_DATA_NONZERO = 16"
| "gas_cost SSTORE_SET = 20000"
| "gas_cost SSTORE_RESET = 2900"
| "gas_cost SLOAD = 2100"
| "gas_cost CREATE = 53000"
| "gas_cost CODE_DEPOSIT = 200"
| "gas_cost CALL = 100"
| "gas_cost CALL_VALUE = 9000"
| "gas_cost RING_SIG_VERIFY = 50000"
| "gas_cost ZK_VERIFY = 100000"
| "gas_cost STEALTH_SCAN = 5000"
| "gas_cost ENCRYPT_SLOT = 2000"
| "gas_cost PEDERSEN_COMMIT = 3000"
| "gas_cost BULLETPROOF_VFY = 80000"
| "gas_cost MEMORY_WORD = 3"
| "gas_cost MEMORY_QUAD = 512"
| "gas_cost ADD = 3"
| "gas_cost MUL = 5"
| "gas_cost SHA3 = 30"
| "gas_cost SHA3_WORD = 6"
| "gas_cost BALANCE = 100"
| "gas_cost JUMP = 8"
| "gas_cost JUMPI = 10"
| "gas_cost LOG0 = 375"
| "gas_cost LOG_DATA = 8"
| "gas_cost LOG_TOPIC = 375"

section \<open>Fee market\<close>

record fee_market =
  base_fee_per_gas :: u64
  target_gas_per_block :: u64
  max_gas_per_block :: u64
  last_gas_used :: u64

definition fee_market_new :: fee_market where
  "fee_market_new =
     \<lparr> base_fee_per_gas = 1000, target_gas_per_block = 15000000,
       max_gas_per_block = 30000000, last_gas_used = 0 \<rparr>"

definition update_base_fee :: "fee_market \<Rightarrow> u64 \<Rightarrow> fee_market option" where
  "update_base_fee m gas_used =
     (let target = target_gas_per_block m;
          m' = m\<lparr>last_gas_used := gas_used\<rparr> in
      if gas_used = target then Some m'
      else if target = 0 then None
      else
        let delta =
              (if target < gas_used
               then max (base_fee_per_gas m * (gas_used - target) div target div 8) 1
               else max (base_fee_per_gas m * (target - gas_used) div target div 8) 1) in
        if target < gas_used
        then Some (m'\<lparr>base_fee_per_gas := sat_add (base_fee_per_gas m) delta\<rparr>)
        else Some (m'\<lparr>base_fee_per_gas := max (sat_sub (base_fee_per_gas m) delta) 1\<rparr>))"

definition min_fee_ncip :: "fee_market \<Rightarrow> u64 \<Rightarrow> u64" where
  "min_fee_ncip m gas_limit = gas_limit * base_fee_per_gas m"

definition ncip_to_cip :: "u64 \<Rightarrow> f64" where
  "ncip_to_cip ncip = f64_div (u64_as_f64 ncip) (Fin 1000000000)"

subsection \<open>The adjustment as arithmetic on naturals\<close>

text \<open>The intended adjustment: the base fee moves by the eighth of its share of the deviation.\<close>

definition fee_delta :: "nat \<Rightarrow> nat \<Rightarrow> nat \<Rightarrow> nat" where
  "fee_delta base dev target = max (base * dev div target div 8) 1"

lemma fee_delta_bound:
  assumes "dev \<le> target" "0 < target"
  shows "fee_delta base dev target \<le> max (base div 8) 1"
proof -
  have "base * dev div target \<le> base * target div target"
    using assms by (intro div_le_mono mult_left_mono) auto
  then have "base * dev div target \<le> base" using assms by simp
  then have "base * dev div target div 8 \<le> base div 8" by (rule div_le_mono)
  then show ?thesis by (auto simp: fee_delta_def)
qed

lemma fee_down_bound:
  fixes b d e :: nat
  assumes "d \<le> e" "1 \<le> b"
  shows "max (b - d) 1 \<le> b + e \<and> b \<le> max (b - d) 1 + e"
  using assms by (auto simp: max_def)

lemma unat_fee_product:
  assumes "unat b * unat d < 2 ^ 64"
  shows "unat (max (b * d div t div 8) (1 :: u64)) = fee_delta (unat b) (unat d) (unat t)"
proof -
  have "unat (b * d) = unat b * unat d" using assms by (intro unat_times_exact) simp
  then show ?thesis by (simp add: unat_max unat_div_distrib fee_delta_def)
qed

lemma update_base_fee_up:
  assumes "unat (target_gas_per_block m) < unat g" "0 < unat (target_gas_per_block m)"
    and "unat (base_fee_per_gas m) * (unat g - unat (target_gas_per_block m)) < 2 ^ 64"
  shows "\<exists>m'. update_base_fee m g = Some m' \<and>
    unat (base_fee_per_gas m') =
      min (unat (base_fee_per_gas m) +
           fee_delta (unat (base_fee_per_gas m)) (unat g - unat (target_gas_per_block m))
             (unat (target_gas_per_block m))) (2 ^ 64 - 1)"
proof -
  have lt: "target_gas_per_block m < g" using assms(1) by (simp add: word_less_nat_alt)
  have nz: "target_gas_per_block m \<noteq> 0" using assms(2) by auto
  have d: "unat (g - target_gas_per_block m) = unat g - unat (target_gas_per_block m)"
    using lt by (intro unat_minus_exact) simp
  note p = unat_fee_product [of "base_fee_per_gas m" "g - target_gas_per_block m"
      "target_gas_per_block m", unfolded d, OF assms(3)]
  show ?thesis using lt nz p by (auto simp: update_base_fee_def Let_def unat_sat_add)
qed

lemma update_base_fee_down:
  assumes "unat g < unat (target_gas_per_block m)"
    and "unat (base_fee_per_gas m) * (unat (target_gas_per_block m) - unat g) < 2 ^ 64"
  shows "\<exists>m'. update_base_fee m g = Some m' \<and>
    unat (base_fee_per_gas m') =
      max (unat (base_fee_per_gas m) -
           fee_delta (unat (base_fee_per_gas m)) (unat (target_gas_per_block m) - unat g)
             (unat (target_gas_per_block m))) 1"
proof -
  have lt: "g < target_gas_per_block m" using assms(1) by (simp add: word_less_nat_alt)
  then have nz: "target_gas_per_block m \<noteq> 0" "g \<noteq> target_gas_per_block m"
    "\<not> target_gas_per_block m < g" by auto
  have d: "unat (target_gas_per_block m - g) = unat (target_gas_per_block m) - unat g"
    using lt by (intro unat_minus_exact) simp
  note p = unat_fee_product [of "base_fee_per_gas m" "target_gas_per_block m - g"
      "target_gas_per_block m", unfolded d, OF assms(2)]
  show ?thesis
    using lt nz p by (simp add: update_base_fee_def Let_def unat_sat_sub unat_max)
qed

text \<open>
  A block that uses at most twice the target (\<open>max_gas_per_block\<close> is twice the target) moves
  the base fee by at most an eighth, or by one unit when an eighth is less than that, in either
  direction, and the fee never falls below one: the update's documented 12.5% bound. The
  hypothesis on the product is the range in which \<open>base_fee_per_gas * excess\<close> fits 64 bits.
\<close>

theorem base_fee_bounded_change:
  assumes "0 < unat (target_gas_per_block m)" "1 \<le> unat (base_fee_per_gas m)"
    and "unat g \<le> 2 * unat (target_gas_per_block m)"
    and "unat (base_fee_per_gas m) * unat (target_gas_per_block m) < 2 ^ 64"
  shows "\<exists>m'. update_base_fee m g = Some m' \<and> 1 \<le> unat (base_fee_per_gas m')
    \<and> unat (base_fee_per_gas m') \<le> unat (base_fee_per_gas m) + max (unat (base_fee_per_gas m) div 8) 1
    \<and> unat (base_fee_per_gas m) \<le> unat (base_fee_per_gas m') + max (unat (base_fee_per_gas m) div 8) 1"
proof -
  let ?b = "unat (base_fee_per_gas m)" and ?t = "unat (target_gas_per_block m)"
  have prod: "?b * d < 2 ^ 64" if "d \<le> ?t" for d
    using that assms(4) by (meson le_less_trans mult_le_mono2)
  have b64: "?b < 2 ^ 64" using unsigned_less [of "base_fee_per_gas m"] by simp
  consider "g = target_gas_per_block m" | "?t < unat g" | "unat g < ?t"
    by (metis linorder_neqE_nat word_unat_eq_iff)
  then show ?thesis
  proof cases
    case 1
    then show ?thesis using assms(2) by (simp add: update_base_fee_def)
  next
    case 2
    have le: "unat g - ?t \<le> ?t" using assms(3) by simp
    from update_base_fee_up [OF 2 assms(1) prod [OF le]]
    obtain m' where m': "update_base_fee m g = Some m'"
      "unat (base_fee_per_gas m') = min (?b + fee_delta ?b (unat g - ?t) ?t) (2 ^ 64 - 1)"
      by blast
    with fee_delta_bound [OF le assms(1), of ?b] b64 assms(2) show ?thesis
      by (auto simp: min_def max_def split: if_splits)
  next
    case 3
    have le: "?t - unat g \<le> ?t" by simp
    from update_base_fee_down [OF 3 prod [OF le]]
    obtain m' where m': "update_base_fee m g = Some m'"
      "unat (base_fee_per_gas m') = max (?b - fee_delta ?b (?t - unat g) ?t) 1"
      by blast
    with fee_down_bound [OF fee_delta_bound [OF le assms(1), of ?b] assms(2)] show ?thesis by simp
  qed
qed

theorem base_fee_bounded_change_witness:
  "\<exists>m'. update_base_fee fee_market_new 30000000 = Some m' \<and> 1 \<le> unat (base_fee_per_gas m')
    \<and> unat (base_fee_per_gas m') \<le> 1125 \<and> 1000 \<le> unat (base_fee_per_gas m') + 125"
  using base_fee_bounded_change [of fee_market_new 30000000] by (simp add: fee_market_new_def)

section \<open>Gas tracker\<close>

record gas_tracker =
  gas_limit :: u64
  gas_used :: u64

definition gas_new :: "u64 \<Rightarrow> gas_tracker" where
  "gas_new limit = \<lparr> gas_limit = limit, gas_used = 0 \<rparr>"

text \<open>The flag is false for the error "out of gas".\<close>

definition gas_consume :: "gas_tracker \<Rightarrow> u64 \<Rightarrow> bool \<times> gas_tracker" where
  "gas_consume g amount =
     (if gas_limit g < sat_add (gas_used g) amount then (False, g)
      else (True, g\<lparr>gas_used := gas_used g + amount\<rparr>))"

definition gas_remaining :: "gas_tracker \<Rightarrow> u64" where
  "gas_remaining g = sat_sub (gas_limit g) (gas_used g)"

definition gas_refund :: "gas_tracker \<Rightarrow> u64 \<Rightarrow> gas_tracker" where
  "gas_refund g amount =
     (let max_refund = gas_used g div 5 in
      g\<lparr>gas_used := sat_sub (gas_used g) (min amount max_refund)\<rparr>)"

datatype gas_event = Consume u64 | Refund u64

fun gas_step :: "gas_tracker \<Rightarrow> gas_event \<Rightarrow> gas_tracker" where
  "gas_step g (Consume n) = snd (gas_consume g n)"
| "gas_step g (Refund n) = gas_refund g n"

lemma gas_frame [simp, frame_simps]: "gas_limit (gas_step g e) = gas_limit g"
  by (cases e) (auto simp: gas_consume_def gas_refund_def Let_def)

lemma gas_consume_exact:
  assumes "unat (gas_limit g) < 2 ^ 64 - 1"
  shows "gas_consume g n =
    (if unat (gas_used g) + unat n \<le> unat (gas_limit g)
     then (True, g\<lparr>gas_used := gas_used g + n\<rparr>) else (False, g))"
  using assms by (auto simp: gas_consume_def word_less_nat_alt unat_sat_add min_def split: if_splits)

lemma gas_refund_exact:
  "unat (gas_used (gas_refund g n)) =
     unat (gas_used g) - min (unat n) (unat (gas_used g) div 5)"
  by (simp add: gas_refund_def Let_def unat_sat_sub unat_min unat_div_distrib)

lemma gas_step_within: "gas_used g \<le> gas_limit g \<Longrightarrow> gas_used (gas_step g e) \<le> gas_limit g"
proof (cases e)
  case (Consume n)
  assume "gas_used g \<le> gas_limit g"
  then show ?thesis
  proof (cases "unat (gas_limit g) < 2 ^ 64 - 1")
    case True
    with \<open>gas_used g \<le> gas_limit g\<close> show ?thesis
      by (auto simp: Consume gas_consume_exact word_le_nat_alt unat_plus_exact)
  next
    case False
    then have "unat (gas_limit g) = unat (- 1 :: u64)"
      using unsigned_less [of "gas_limit g", where ?'a = nat]
      by (simp add: unsigned_minus_1_eq_mask mask_eq_exp_minus_1)
    then have "gas_limit g = - 1" by (simp only: word_unat_eq_iff)
    then show ?thesis by simp
  qed
next
  case (Refund n)
  assume "gas_used g \<le> gas_limit g"
  then show ?thesis by (simp add: Refund word_le_nat_alt gas_refund_exact)
qed

interpretation tracker: mono_machine
  gas_step "\<lambda>_ _. True" "\<lambda>g. gas_used g \<le> gas_limit g" gas_limit
  by unfold_locales (auto intro: gas_step_within)

text \<open>The amount an event charges (or, negative, returns) in unbounded arithmetic.\<close>

fun gas_charge :: "gas_tracker \<Rightarrow> gas_event \<Rightarrow> int" where
  "gas_charge g (Consume n) = (if fst (gas_consume g n) then uint n else 0)"
| "gas_charge g (Refund n) = - min (uint n) (uint (gas_used g) div 5)"

fun gas_bill :: "gas_tracker \<Rightarrow> gas_event list \<Rightarrow> int" where
  "gas_bill g [] = 0"
| "gas_bill g (e # es) = gas_charge g e + gas_bill (gas_step g e) es"

lemma gas_step_charge:
  assumes "unat (gas_limit g) < 2 ^ 64 - 1"
  shows "uint (gas_used (gas_step g e)) = uint (gas_used g) + gas_charge g e"
proof (cases e)
  case (Consume n)
  show ?thesis
  proof (cases "unat (gas_used g) + unat n \<le> unat (gas_limit g)")
    case True
    with assms have "unat (gas_used g + n) = unat (gas_used g) + unat n"
      by (simp add: unat_plus_exact)
    then have "uint (gas_used g + n) = uint (gas_used g) + uint n"
      by (simp only: uint_nat of_nat_add)
    with True assms show ?thesis by (simp add: Consume gas_consume_exact)
  qed (use assms in \<open>simp add: Consume gas_consume_exact\<close>)
next
  case (Refund n)
  have "min (unat n) (unat (gas_used g) div 5) \<le> unat (gas_used g)" by (simp add: min.coboundedI2)
  then have "int (unat (gas_used (gas_refund g n))) =
      int (unat (gas_used g)) - int (min (unat n) (unat (gas_used g) div 5))"
    by (simp only: gas_refund_exact of_nat_diff)
  then show ?thesis by (simp add: Refund of_nat_min zdiv_int)
qed

lemma gas_run_charge:
  "unat (gas_limit g) < 2 ^ 64 - 1 \<Longrightarrow>
   uint (gas_used (run gas_step g es)) = uint (gas_used g) + gas_bill g es"
proof (induction es arbitrary: g)
  case (Cons e es)
  then show ?case using gas_step_charge [of g e] by simp
qed simp

text \<open>
  Whatever an execution charges and refunds, in any order, the tracker's counter is the exact
  (unbounded) balance of the accepted charges and granted refunds, it never exceeds the limit,
  the limit never changes, and what \<open>remaining\<close> reports is the exact difference.
\<close>

theorem gas_accounting_exact:
  assumes "unat limit < 2 ^ 64 - 1"
  shows "let g = run gas_step (gas_new limit) es in
    uint (gas_used g) = gas_bill (gas_new limit) es \<and> gas_limit g = limit
    \<and> gas_used g \<le> limit \<and> uint (gas_remaining g) = uint limit - gas_bill (gas_new limit) es"
proof -
  let ?g = "run gas_step (gas_new limit) es"
  have lim: "gas_limit ?g = limit"
  proof -
    have "gas_limit (run gas_step g es) = gas_limit g" for g
      by (induction es arbitrary: g) auto
    then show ?thesis by (simp add: gas_new_def)
  qed
  have used: "uint (gas_used ?g) = gas_bill (gas_new limit) es"
    using assms gas_run_charge [of "gas_new limit" es] by (simp add: gas_new_def)
  have le: "gas_used ?g \<le> gas_limit ?g"
    by (rule tracker.run_inv) (simp_all add: gas_new_def)
  then have "unat (gas_used ?g) \<le> unat limit" by (simp add: lim word_le_nat_alt)
  then have "int (unat (gas_remaining ?g)) = int (unat limit) - int (unat (gas_used ?g))"
    by (simp only: gas_remaining_def unat_sat_sub lim of_nat_diff)
  with used lim le show ?thesis by (simp add: Let_def)
qed

theorem gas_accounting_exact_witness:
  "let g = run gas_step (gas_new 100000) [Consume 50000, Consume 60000, Refund 30000] in
    uint (gas_used g) = gas_bill (gas_new 100000) [Consume 50000, Consume 60000, Refund 30000]
    \<and> gas_limit g = 100000 \<and> gas_used g \<le> 100000
    \<and> uint (gas_remaining g) = uint (100000 :: u64)
        - gas_bill (gas_new 100000) [Consume 50000, Consume 60000, Refund 30000]"
  by (rule gas_accounting_exact) simp

section \<open>Fee breakdown\<close>

record fee_breakdown =
  fb_gas_used :: u64
  fb_base_fee_per_gas :: u64
  fb_priority_fee_per_gas :: u64
  fb_burned_ncip :: u64
  fb_tip_ncip :: u64
  fb_total_ncip :: u64

definition fee_compute :: "u64 \<Rightarrow> u64 \<Rightarrow> u64 \<Rightarrow> fee_breakdown" where
  "fee_compute used base_fee priority_fee =
     (let burned = used * base_fee; tip = used * priority_fee in
      \<lparr> fb_gas_used = used, fb_base_fee_per_gas = base_fee, fb_priority_fee_per_gas = priority_fee,
        fb_burned_ncip = burned, fb_tip_ncip = tip, fb_total_ncip = burned + tip \<rparr>)"

definition total_cip :: "fee_breakdown \<Rightarrow> f64" where
  "total_cip b = ncip_to_cip (fb_total_ncip b)"

lemma fee_compute_total: "fb_total_ncip (fee_compute u b p) = u * (b + p)"
  by (simp add: fee_compute_def Let_def distrib_left)

lemma fee_compute_exact:
  assumes "unat u * (unat b + unat p) < 2 ^ 64"
  shows "unat (fb_burned_ncip (fee_compute u b p)) = unat u * unat b"
    and "unat (fb_tip_ncip (fee_compute u b p)) = unat u * unat p"
    and "unat (fb_total_ncip (fee_compute u b p)) = unat u * (unat b + unat p)"
proof -
  from assms have "unat u * unat b + unat u * unat p < 2 ^ 64" by (simp add: distrib_left)
  then have p: "unat u * unat b < 2 ^ 64" "unat u * unat p < 2 ^ 64"
    and s: "unat u * unat b + unat u * unat p < 2 ^ 64" by simp_all
  from p have x: "unat (u * b) = unat u * unat b" "unat (u * p) = unat u * unat p"
    by (simp_all add: unat_times_exact)
  then show "unat (fb_burned_ncip (fee_compute u b p)) = unat u * unat b"
    "unat (fb_tip_ncip (fee_compute u b p)) = unat u * unat p"
    by (simp_all add: fee_compute_def Let_def)
  show "unat (fb_total_ncip (fee_compute u b p)) = unat u * (unat b + unat p)"
    using s x by (simp add: fee_compute_def Let_def unat_plus_exact distrib_left)
qed

end
