(* ===== verification/FeeState.thy ===== *)
theory FeeState
  imports Gas
begin

text \<open>
  \<open>src/src/core/state.rs\<close>, the fee market of the persistent state. The sources hold two fee
  markets with the same four fields, this one and that of \<open>evm/gas.rs\<close> (theory \<open>Gas\<close>); the
  correspondence \<open>market_of\<close> shows that they are the same machine, so what is proved of one
  holds of the other.
\<close>

record state_market =
  sm_base_fee_per_gas :: u64
  sm_target_gas_per_block :: u64
  sm_max_gas_per_block :: u64
  sm_last_gas_used :: u64

definition state_market_new :: state_market where
  "state_market_new =
     \<lparr> sm_base_fee_per_gas = 1000, sm_target_gas_per_block = 15000000,
       sm_max_gas_per_block = 30000000, sm_last_gas_used = 0 \<rparr>"

definition state_market_update :: "state_market \<Rightarrow> u64 \<Rightarrow> state_market option" where
  "state_market_update m used =
     (let target = sm_target_gas_per_block m;
          m' = m\<lparr>sm_last_gas_used := used\<rparr> in
      if used = target then Some m'
      else if target = 0 then None
      else
        let delta =
              (if target < used
               then max (sm_base_fee_per_gas m * (used - target) div target div 8) 1
               else max (sm_base_fee_per_gas m * (target - used) div target div 8) 1) in
        if target < used
        then Some (m'\<lparr>sm_base_fee_per_gas := sat_add (sm_base_fee_per_gas m) delta\<rparr>)
        else Some (m'\<lparr>sm_base_fee_per_gas := max (sat_sub (sm_base_fee_per_gas m) delta) 1\<rparr>))"

definition state_market_min_fee :: "state_market \<Rightarrow> u64 \<Rightarrow> u64" where
  "state_market_min_fee m limit = limit * sm_base_fee_per_gas m"

definition market_of :: "state_market \<Rightarrow> fee_market" where
  "market_of m =
     \<lparr> base_fee_per_gas = sm_base_fee_per_gas m, target_gas_per_block = sm_target_gas_per_block m,
       max_gas_per_block = sm_max_gas_per_block m, last_gas_used = sm_last_gas_used m \<rparr>"

fun market_replay :: "('m \<Rightarrow> u64 \<Rightarrow> 'm option) \<Rightarrow> 'm \<Rightarrow> u64 list \<Rightarrow> 'm option" where
  "market_replay upd m [] = Some m"
| "market_replay upd m (g # gs) =
     (case upd m g of None \<Rightarrow> None | Some m' \<Rightarrow> market_replay upd m' gs)"

lemma market_update_commutes:
  "map_option market_of (state_market_update m g) = update_base_fee (market_of m) g"
  by (auto simp: state_market_update_def update_base_fee_def market_of_def Let_def)

lemma market_replay_commutes:
  "map_option market_of (market_replay state_market_update m gs) =
     market_replay update_base_fee (market_of m) gs"
proof (induction gs arbitrary: m)
  case (Cons g gs)
  show ?case
    using market_update_commutes [of m g] Cons.IH
    by (cases "state_market_update m g") (auto split: option.splits)
qed simp

lemma market_of_new: "market_of state_market_new = fee_market_new"
  by (simp add: market_of_def state_market_new_def fee_market_new_def)

text \<open>
  The fee market of the node's state and the fee market of the contract engine are the same
  machine: from their initial values, every sequence of block gas totals leads both to the same
  base fee, target, maximum and last total, and they quote the same minimum fee.
\<close>

theorem fee_markets_agree:
  "map_option market_of (market_replay state_market_update state_market_new gs) =
     market_replay update_base_fee fee_market_new gs
   \<and> (\<forall>m limit. state_market_min_fee m limit = min_fee_ncip (market_of m) limit)"
proof
  show "map_option market_of (market_replay state_market_update state_market_new gs) =
      market_replay update_base_fee fee_market_new gs"
    by (simp only: market_replay_commutes market_of_new)
qed (simp add: state_market_min_fee_def min_fee_ncip_def market_of_def)

text \<open>The target never changes, so a market that starts with a positive one never panics.\<close>

lemma update_base_fee_target [frame_simps]:
  "update_base_fee m g = Some m' \<Longrightarrow> target_gas_per_block m' = target_gas_per_block m"
  by (auto simp: update_base_fee_def Let_def split: if_splits)

lemma update_base_fee_total:
  "0 < target_gas_per_block m \<Longrightarrow> \<exists>m'. update_base_fee m g = Some m'"
  by (auto simp: update_base_fee_def Let_def)

lemma update_base_fee_positive:
  assumes "update_base_fee m g = Some m'" "1 \<le> base_fee_per_gas m"
  shows "1 \<le> base_fee_per_gas m'"
proof -
  have "1 \<le> sat_add b d" if "1 \<le> b" for b d :: u64
    using that by (simp add: word_le_nat_alt unat_sat_add)
  then show ?thesis
    using assms by (auto simp: update_base_fee_def Let_def split: if_splits)
qed

text \<open>
  Whatever the blocks report, including gas totals whose product with the base fee wraps
  around, the fee market of a node never panics, never divides by zero and never lets the base
  fee fall to zero, and the target stays the one it was created with.
\<close>

theorem market_never_stuck:
  "\<exists>m. market_replay state_market_update state_market_new gs = Some m
     \<and> 1 \<le> sm_base_fee_per_gas m \<and> sm_target_gas_per_block m = 15000000"
proof -
  have "\<exists>m'. market_replay update_base_fee m gs = Some m'
      \<and> 1 \<le> base_fee_per_gas m' \<and> target_gas_per_block m' = 15000000"
    if "1 \<le> base_fee_per_gas m" "target_gas_per_block m = 15000000" for m
    using that
  proof (induction gs arbitrary: m)
    case (Cons g gs)
    then obtain m' where m': "update_base_fee m g = Some m'"
      using update_base_fee_total [of m g] by auto
    have "1 \<le> base_fee_per_gas m'" "target_gas_per_block m' = 15000000"
      using update_base_fee_positive [OF m' Cons.prems(1)] update_base_fee_target [OF m'] Cons.prems
      by simp_all
    from Cons.IH [OF this] m' show ?case by simp
  qed auto
  from this [of fee_market_new] obtain m'
    where "map_option market_of (market_replay state_market_update state_market_new gs) = Some m'"
      and "1 \<le> base_fee_per_gas m'" "target_gas_per_block m' = 15000000"
    by (auto simp: market_replay_commutes market_of_new fee_market_new_def)
  then show ?thesis by (auto simp: market_of_def)
qed

end
