(* ===== verification/Data.thy ===== *)
theory Data
  imports Prelude
begin

text \<open>
  The data that travels between the modules: transactions (\<open>src/src/core/transaction.rs\<close>), blocks
  (\<open>src/src/core/block.rs\<close>), keys and addresses (\<open>src/src/crypto/keys.rs\<close>) and ring signatures
  (\<open>src/src/crypto/ring_sig.rs\<close>). The Rust newtypes over \<open>[u8; 32]\<close> are byte lists under their
  own names, a \<open>&str\<close> is the \<^typ>\<open>string\<close> of its UTF-8 bytes.
\<close>

type_synonym tx_id = bytes
type_synonym pedersen_commitment = bytes
type_synonym bulletproof = bytes
type_synonym key_image_bytes = bytes
type_synonym block_hash = bytes
type_synonym private_key = bytes
type_synonym public_key = bytes
type_synonym view_key = bytes

definition str_bytes :: "string \<Rightarrow> bytes" where
  "str_bytes s = map of_char s"

lemma length_str_bytes [simp, size_simps]: "length (str_bytes s) = length s"
  by (simp add: str_bytes_def)

text \<open>The bytes of a string as a string again.\<close>

definition bytes_str :: "bytes \<Rightarrow> string" where
  "bytes_str bs = map (\<lambda>b. char_of (unat b)) bs"

lemma bytes_str_str_bytes [simp]: "bytes_str (str_bytes s) = s"
proof -
  have "unat (of_char c :: u8) = (of_char c :: nat)" for c
  proof -
    have "unat (of_nat (of_char c) :: u8) = of_char c"
      by (rule unat_of_nat_exact) simp
    then show ?thesis by (simp only: of_nat_of_char)
  qed
  then show ?thesis by (simp add: bytes_str_def str_bytes_def comp_def)
qed

lemma str_bytes_bytes_str [simp]: "str_bytes (bytes_str bs) = bs"
proof -
  have "(of_char (char_of (unat b)) :: u8) = b" for b :: u8
  proof -
    have "unat b < 256" using unsigned_less [of b, where ?'a = nat] by simp
    then have "(of_char (char_of (unat b)) :: nat) = unat b" by simp
    then show ?thesis by (metis of_nat_of_char of_nat_unat ucast_id)
  qed
  then show ?thesis by (simp add: bytes_str_def str_bytes_def comp_def)
qed

lemma length_bytes_str [simp, size_simps]: "length (bytes_str bs) = length bs"
  by (simp add: bytes_str_def)

section \<open>Keys and addresses\<close>

record stealth_address =
  public_spend :: public_key
  public_view :: public_key

record validator_commitment =
  vc_public_key :: bytes
  vc_nullifier :: bytes

section \<open>Transactions\<close>

record stealth_output =
  one_time_pubkey :: bytes
  tx_pubkey :: bytes
  amount_commitment :: pedersen_commitment
  encrypted_amount :: bytes
  range_proof :: bulletproof

record ring_input =
  ring_members :: "bytes list"
  key_image :: key_image_bytes
  ring_signature :: bytes
  pseudo_commitment :: pedersen_commitment

datatype tx_type = Transfer | Coinbase | StakeDeposit | Lite | StakeWithdraw

record transaction =
  tx_type :: tx_type
  inputs :: "ring_input list"
  outputs :: "stealth_output list"
  fee_commitment :: pedersen_commitment
  fee_proof :: bytes
  extra :: bytes
  version :: u8

definition key_images :: "transaction \<Rightarrow> key_image_bytes list" where
  "key_images tx = map key_image (inputs tx)"

record lite_raw =
  lite_tx_pubkey :: string
  lite_one_time_pubkey :: string
  lite_encrypted_amount :: string
  lite_amount_ncip :: u64

section \<open>Ring signatures\<close>

record ring_sig =
  rs_c0 :: bytes
  rs_s :: "bytes list"
  rs_key_image :: bytes

section \<open>Blocks\<close>

record block_header =
  hd_version :: u32
  hd_height :: u64
  hd_timestamp :: i64
  hd_prev_hash :: block_hash
  hd_tx_root :: block_hash
  hd_state_root :: block_hash
  hd_validator :: validator_commitment
  hd_round :: u32

record validator_signature =
  vs_validator :: validator_commitment
  vs_signature :: bytes

record block =
  header :: block_header
  transactions :: "transaction list"
  signatures :: "validator_signature list"

definition block_hash_zero :: block_hash where
  "block_hash_zero = zeros 32"

definition tx_count :: "block \<Rightarrow> nat" where
  "tx_count b = length (transactions b)"

text \<open>The key images a block spends, in block order.\<close>

definition block_key_images :: "block \<Rightarrow> key_image_bytes list" where
  "block_key_images b = concat (map key_images (transactions b))"

lemma length_block_hash_zero [simp, size_simps]: "length block_hash_zero = 32"
  by (simp add: block_hash_zero_def)

section \<open>Spent key images\<close>

text \<open>
  The set of spent key images, as an interface: what is inserted is a member, nothing else becomes
  one. The chain's set of spent key images and
  the mempool's map of pending ones both provide it.
\<close>

locale spent_set =
  fixes mem :: "'t \<Rightarrow> key_image_bytes \<Rightarrow> bool" and ins :: "key_image_bytes \<Rightarrow> 't \<Rightarrow> 't"
  assumes mem_ins: "mem (ins k s) k' \<longleftrightarrow> k' = k \<or> mem s k'"
begin

lemma mem_fold: "mem (fold ins ks s) k \<longleftrightarrow> k \<in> set ks \<or> mem s k"
  by (induction ks arbitrary: s) (auto simp: mem_ins)

lemma mem_mono: "mem s k \<Longrightarrow> mem (fold ins ks s) k"
  by (simp add: mem_fold)

end

end
