(* ===== verification/Crates.thy ===== *)
theory Crates
  imports Data
begin

text \<open>
  The third-party crates, as the parameters of the model: a record with one field per function
  that the sources call. Points and scalars of \<open>curve25519-dalek\<close> are an abelian group \<open>'p\<close> and
  a field \<open>'s\<close>; their sums, differences and products are those of the type classes. What the
  sources rely on is stated as predicates (\<open>dalek_laws\<close>, \<open>aead_laws\<close>, \<open>hex_laws\<close>), which the
  theorems that need them assume by name. Random bytes are arguments of the operations that draw
  them.
\<close>

record ('p, 's) crates =
  sha3_256 :: "bytes \<Rightarrow> bytes"
  sha3_512 :: "bytes \<Rightarrow> bytes"
  keccak256 :: "bytes \<Rightarrow> bytes"
  basepoint :: 'p
  smul :: "'s \<Rightarrow> 'p \<Rightarrow> 'p"
  compress :: "'p \<Rightarrow> bytes"
  decompress :: "bytes \<Rightarrow> 'p option"
  from_uniform_bytes :: "bytes \<Rightarrow> 'p"
  scalar_to_bytes :: "'s \<Rightarrow> bytes"
  from_canonical_bytes :: "bytes \<Rightarrow> 's option"
  from_bytes_mod_order_wide :: "bytes \<Rightarrow> 's"
  ed_key_ok :: "bytes \<Rightarrow> bool"
  ed_verify :: "bytes \<Rightarrow> bytes \<Rightarrow> bytes \<Rightarrow> bool"
  ed_public :: "bytes \<Rightarrow> bytes"
  ed_sign :: "bytes \<Rightarrow> bytes \<Rightarrow> bytes"
  aead_encrypt :: "bytes \<Rightarrow> bytes \<Rightarrow> bytes \<Rightarrow> bytes"
  aead_decrypt :: "bytes \<Rightarrow> bytes \<Rightarrow> bytes \<Rightarrow> bytes option"
  hex_encode :: "bytes \<Rightarrow> string"
  hex_decode :: "string \<Rightarrow> bytes option"
  bs58_encode :: "bytes \<Rightarrow> string"
  bs58_decode :: "string \<Rightarrow> bytes option"
  json_lite :: "string \<Rightarrow> lite_raw option"
  ser_tx :: "transaction \<Rightarrow> bytes"
  ser_header :: "block_header \<Rightarrow> bytes"
  ser_block :: "block \<Rightarrow> bytes"
  de_block :: "bytes \<Rightarrow> string + block"
  ser_ring_sig :: "ring_sig \<Rightarrow> bytes"
  de_ring_sig :: "bytes \<Rightarrow> ring_sig option"

text \<open>
  The Ristretto group: scalar multiplication is an action of the scalar field, compression is
  32 bytes long, is inverted by decompression and sends the identity to zeros; scalars are
  encoded canonically; the group order is odd.
\<close>

definition dalek_laws :: "('p::ab_group_add, 's::field) crates \<Rightarrow> bool" where
  "dalek_laws e \<longleftrightarrow>
     (\<forall>a b p. smul e (a + b) p = smul e a p + smul e b p) \<and>
     (\<forall>a p q. smul e a (p + q) = smul e a p + smul e a q) \<and>
     (\<forall>a b p. smul e (a * b) p = smul e a (smul e b p)) \<and>
     (\<forall>p. smul e 1 p = p) \<and>
     (\<forall>p. length (compress e p) = 32) \<and>
     (\<forall>p. decompress e (compress e p) = Some p) \<and>
     compress e 0 = zeros 32 \<and>
     (\<forall>s. length (scalar_to_bytes e s) = 32) \<and>
     (\<forall>s. from_canonical_bytes e (scalar_to_bytes e s) = Some s) \<and>
     (2 :: 's) \<noteq> 0"

definition aead_laws :: "('p, 's) crates \<Rightarrow> bool" where
  "aead_laws e \<longleftrightarrow>
     (\<forall>k n m. length (aead_encrypt e k n m) = length m + 16) \<and>
     (\<forall>k n m. aead_decrypt e k n (aead_encrypt e k n m) = Some m)"

definition hex_laws :: "('p, 's) crates \<Rightarrow> bool" where
  "hex_laws e \<longleftrightarrow> (\<forall>b. hex_decode e (hex_encode e b) = Some b)"

section \<open>Consequences\<close>

lemma dalekD:
  assumes "dalek_laws (e :: ('p::ab_group_add, 's::field) crates)"
  shows smul_add_left: "smul e (a + b) p = smul e a p + smul e b p"
    and smul_add_right: "smul e a (p + q) = smul e a p + smul e a q"
    and smul_mult: "smul e (a * b) p = smul e a (smul e b p)"
    and smul_one: "smul e 1 p = p"
    and length_compress: "length (compress e p) = 32"
    and decompress_compress: "decompress e (compress e p) = Some p"
    and compress_zero: "compress e 0 = zeros 32"
    and length_scalar_to_bytes: "length (scalar_to_bytes e s) = 32"
    and canonical_to_bytes: "from_canonical_bytes e (scalar_to_bytes e s) = Some s"
    and two_nonzero: "(2 :: 's) \<noteq> 0"
  using assms by (auto simp: dalek_laws_def)

lemma smul_zero_left: "dalek_laws e \<Longrightarrow> smul e 0 p = 0"
  using smul_add_left [of e 0 0 p] by simp

lemma smul_zero_right: "dalek_laws e \<Longrightarrow> smul e a 0 = 0"
  using smul_add_right [of e a 0 0] by simp

lemma smul_minus_left: "dalek_laws e \<Longrightarrow> smul e (- a) p = - smul e a p"
  using smul_add_left [of e "- a" a p]
  by (simp add: smul_zero_left eq_neg_iff_add_eq_0)

lemma smul_diff_left: "dalek_laws e \<Longrightarrow> smul e (a - b) p = smul e a p - smul e b p"
  using smul_add_left [of e a "- b" p] by (simp add: smul_minus_left)

lemma smul_minus_right: "dalek_laws e \<Longrightarrow> smul e a (- p) = - smul e a p"
  using smul_add_right [of e a "- p" p]
  by (simp add: smul_zero_right eq_neg_iff_add_eq_0)

lemma smul_diff_right: "dalek_laws e \<Longrightarrow> smul e a (p - q) = smul e a p - smul e a q"
  using smul_add_right [of e a p "- q"] by (simp add: smul_minus_right)

lemma smul_sum_left: "dalek_laws e \<Longrightarrow> smul e (\<Sum>i\<in>A. f i) p = (\<Sum>i\<in>A. smul e (f i) p)"
  by (induction A rule: infinite_finite_induct) (auto simp: smul_zero_left smul_add_left)

lemma smul_sum_right: "dalek_laws e \<Longrightarrow> smul e a (\<Sum>i\<in>A. f i) = (\<Sum>i\<in>A. smul e a (f i))"
  by (induction A rule: infinite_finite_induct) (auto simp: smul_zero_right smul_add_right)

text \<open>The group has prime order: a non-zero scalar never kills a point.\<close>

lemma smul_eq_zero_iff:
  assumes "dalek_laws e"
  shows "smul e a p = 0 \<longleftrightarrow> a = 0 \<or> p = 0"
proof
  assume z: "smul e a p = 0"
  show "a = 0 \<or> p = 0"
  proof (cases "a = 0")
    case False
    then have "p = smul e (inverse a * a) p" by (simp add: smul_one [OF assms])
    also have "\<dots> = 0" by (simp only: smul_mult [OF assms] z smul_zero_right [OF assms])
    finally show ?thesis by simp
  qed simp
qed (auto simp: smul_zero_left smul_zero_right assms)

lemma compress_inject:
  assumes "dalek_laws e"
  shows "compress e p = compress e q \<longleftrightarrow> p = q"
proof
  assume "compress e p = compress e q"
  then have "decompress e (compress e p) = decompress e (compress e q)" by simp
  then show "p = q" by (simp add: decompress_compress [OF assms])
qed simp

lemmas group_simps =
  smul_add_left smul_add_right smul_mult smul_one smul_zero_left smul_zero_right
  smul_minus_left smul_minus_right smul_diff_left smul_diff_right

section \<open>Helpers that several modules repeat\<close>

text \<open>
  \<open>scalar_from_bytes\<close> of \<open>ringct.rs\<close>, \<open>ring_sig.rs\<close> and \<open>stealth.rs\<close>: the canonical decoding, with
  the constant-time option read as an option.
\<close>

definition scalar_from_bytes :: "('p, 's) crates \<Rightarrow> bytes \<Rightarrow> 's option" where
  "scalar_from_bytes e bs = from_canonical_bytes e bs"

definition amount_scalar :: "u64 \<Rightarrow> 's::field" where
  "amount_scalar v = of_nat (unat v)"

end
