(* ===== verification/Instance.thy ===== *)
theory Instance
  imports Crates
begin

text \<open>
  A concrete value of the crate parameters, on which the witnesses of the development evaluate
  and which shows that the laws assumed of the crates can hold together: the group and the
  scalars are the field of three elements, the hash functions truncate and pad, the
  authenticated cipher appends a tag of zeros, \<open>hex\<close> is the usual hexadecimal code, a byte
  string prints in \<open>bs58\<close> as one character for each byte.
\<close>

section \<open>The field of three elements\<close>

datatype gf3 = Z0 | Z1 | Z2

instantiation gf3 :: field
begin

definition zero_gf3 :: gf3 where "zero_gf3 = Z0"

definition one_gf3 :: gf3 where "one_gf3 = Z1"

fun plus_gf3 :: "gf3 \<Rightarrow> gf3 \<Rightarrow> gf3" where
  "plus_gf3 Z0 y = y"
| "plus_gf3 x Z0 = x"
| "plus_gf3 Z1 Z1 = Z2"
| "plus_gf3 Z2 Z2 = Z1"
| "plus_gf3 Z1 Z2 = Z0"
| "plus_gf3 Z2 Z1 = Z0"

fun uminus_gf3 :: "gf3 \<Rightarrow> gf3" where
  "uminus_gf3 Z0 = Z0"
| "uminus_gf3 Z1 = Z2"
| "uminus_gf3 Z2 = Z1"

definition minus_gf3 :: "gf3 \<Rightarrow> gf3 \<Rightarrow> gf3" where "minus_gf3 x y = x + (- y)"

fun times_gf3 :: "gf3 \<Rightarrow> gf3 \<Rightarrow> gf3" where
  "times_gf3 Z0 y = Z0"
| "times_gf3 Z1 y = y"
| "times_gf3 Z2 y = - y"

definition inverse_gf3 :: "gf3 \<Rightarrow> gf3" where "inverse_gf3 x = x"

definition divide_gf3 :: "gf3 \<Rightarrow> gf3 \<Rightarrow> gf3" where "divide_gf3 x y = x * inverse y"

instance
proof
  fix a b c :: gf3
  show "a * b * c = a * (b * c)" by (cases a; cases b; cases c) auto
  show "a * b = b * a" by (cases a; cases b) auto
  show "1 * a = a" by (simp add: one_gf3_def)
  show "a + b + c = a + (b + c)" by (cases a; cases b; cases c) auto
  show "a + b = b + a" by (cases a; cases b) auto
  show "0 + a = a" by (simp add: zero_gf3_def)
  show "- a + a = 0" by (cases a) (auto simp: zero_gf3_def)
  show "a - b = a + - b" by (simp add: minus_gf3_def)
  show "(a + b) * c = a * c + b * c" by (cases a; cases b; cases c) auto
  show "(0::gf3) \<noteq> 1" by (simp add: zero_gf3_def one_gf3_def)
  show "a \<noteq> 0 \<Longrightarrow> inverse a * a = 1"
    by (cases a) (auto simp: zero_gf3_def one_gf3_def inverse_gf3_def)
  show "a div b = a * inverse b" by (simp add: divide_gf3_def)
  show "inverse (0::gf3) = 0" by (simp add: zero_gf3_def inverse_gf3_def)
qed

end

fun gf3_of_nat :: "nat \<Rightarrow> gf3" where
  "gf3_of_nat n = (if n mod 3 = 0 then Z0 else if n mod 3 = 1 then Z1 else Z2)"

fun gf3_bytes :: "gf3 \<Rightarrow> bytes" where
  "gf3_bytes Z0 = zeros 32"
| "gf3_bytes Z1 = 1 # zeros 31"
| "gf3_bytes Z2 = 2 # zeros 31"

fun gf3_of_bytes :: "bytes \<Rightarrow> gf3 option" where
  "gf3_of_bytes [] = None"
| "gf3_of_bytes (b # bs) =
     (if bs \<noteq> zeros 31 then None
      else if b = 0 then Some Z0 else if b = 1 then Some Z1 else if b = 2 then Some Z2 else None)"

lemma length_gf3_bytes [simp]: "length (gf3_bytes x) = 32"
  by (cases x) auto

lemma gf3_of_gf3_bytes [simp]: "gf3_of_bytes (gf3_bytes x) = Some x"
proof (cases x)
  case Z0
  have "zeros 32 = 0 # zeros 31" by (simp add: numeral_eq_Suc)
  then show ?thesis using Z0 by simp
qed auto

lemma gf3_bytes_of_bytes: "gf3_of_bytes bs = Some x \<Longrightarrow> gf3_bytes x = bs"
proof (cases bs)
  case (Cons b cs)
  assume "gf3_of_bytes bs = Some x"
  moreover have "zeros 32 = 0 # zeros 31" by (simp add: numeral_eq_Suc)
  ultimately show ?thesis by (auto simp: Cons split: if_splits)
qed simp

section \<open>Hexadecimal text\<close>

definition hex_digits :: string where
  "hex_digits = ''0123456789abcdef''"

fun hex_text :: "bytes \<Rightarrow> string" where
  "hex_text [] = []"
| "hex_text (b # bs) = hex_digits ! (unat b div 16) # hex_digits ! (unat b mod 16) # hex_text bs"

definition hex_value :: "char \<Rightarrow> nat option" where
  "hex_value c = (if c \<in> set hex_digits then Some (length (takeWhile (\<lambda>d. d \<noteq> c) hex_digits)) else None)"

fun hex_bytes :: "string \<Rightarrow> bytes option" where
  "hex_bytes [] = Some []"
| "hex_bytes [c] = None"
| "hex_bytes (c # d # cs) =
     (case (hex_value c, hex_value d, hex_bytes cs) of
        (Some h, Some l, Some bs) \<Rightarrow> Some (of_nat (16 * h + l) # bs)
      | _ \<Rightarrow> None)"

lemma hex_value_digit: "n < 16 \<Longrightarrow> hex_value (hex_digits ! n) = Some n"
proof -
  have "\<forall>n \<in> set [0..<16]. hex_value (hex_digits ! n) = Some n"
    by (simp add: hex_digits_def hex_value_def upt_rec numeral_eq_Suc)
  then show "n < 16 \<Longrightarrow> hex_value (hex_digits ! n) = Some n" by simp
qed

lemma hex_bytes_text: "hex_bytes (hex_text bs) = Some bs"
proof (induction bs)
  case (Cons b bs)
  have b: "unat b < 256" using unsigned_less [of b, where ?'a = nat] by simp
  then have "unat b div 16 < 16" by simp
  with Cons show ?case
    by (simp add: hex_value_digit mult_div_mod_eq)
qed simp

section \<open>The instance\<close>

definition pad_to :: "nat \<Rightarrow> bytes \<Rightarrow> bytes" where
  "pad_to n bs = take n (bs @ zeros n)"

lemma length_pad_to [simp]: "length (pad_to n bs) = n"
  by (simp add: pad_to_def)

fun chunks32 :: "nat \<Rightarrow> bytes \<Rightarrow> bytes list" where
  "chunks32 0 bs = []"
| "chunks32 (Suc n) bs = take 32 bs # chunks32 n (drop 32 bs)"

definition demo_ser_ring :: "ring_sig \<Rightarrow> bytes" where
  "demo_ser_ring s = rs_c0 s @ rs_key_image s @ concat (rs_s s)"

definition demo_de_ring :: "bytes \<Rightarrow> ring_sig option" where
  "demo_de_ring bs =
     (if length bs < 64 then None
      else Some \<lparr> rs_c0 = take 32 bs, rs_s = chunks32 ((length bs - 64) div 32) (drop 64 bs),
                  rs_key_image = take 32 (drop 32 bs) \<rparr>)"

definition demo :: "(gf3, gf3) crates" where
  "demo =
     \<lparr> sha3_256 = pad_to 32,
       sha3_512 = pad_to 64,
       keccak256 = pad_to 32,
       basepoint = Z1,
       smul = times,
       compress = gf3_bytes,
       decompress = gf3_of_bytes,
       from_uniform_bytes = (\<lambda>_. Z1),
       scalar_to_bytes = gf3_bytes,
       from_canonical_bytes = gf3_of_bytes,
       from_bytes_mod_order_wide = (\<lambda>bs. gf3_of_nat (sum_list (map unat bs))),
       ed_key_ok = (\<lambda>k. length k = 32),
       ed_verify = (\<lambda>pk m s. s = pad_to 64 (pk @ m)),
       ed_public = pad_to 32,
       ed_sign = (\<lambda>sk m. pad_to 64 (pad_to 32 sk @ m)),
       aead_encrypt = (\<lambda>k n m. m @ zeros 16),
       aead_decrypt = (\<lambda>k n c. if length c < 16 then None else Some (take (length c - 16) c)),
       hex_encode = hex_text,
       hex_decode = hex_bytes,
       bs58_encode = bytes_str,
       bs58_decode = (\<lambda>s. Some (str_bytes s)),
       json_lite = (\<lambda>_. None),
       ser_tx = (\<lambda>tx. extra tx @ concat (key_images tx)),
       ser_header = (\<lambda>h. u64_to_le (hd_height h) @ u64_to_le (hd_timestamp h) @ hd_prev_hash h),
       ser_block = (\<lambda>b. u64_to_le (hd_height (header b)) @ concat (map extra (transactions b))),
       de_block = (\<lambda>_. Inl ''not a block''),
       ser_ring_sig = demo_ser_ring,
       de_ring_sig = demo_de_ring \<rparr>"

lemma demo_simps [simp]:
  "sha3_256 demo = pad_to 32" "sha3_512 demo = pad_to 64" "keccak256 demo = pad_to 32"
  "basepoint demo = Z1" "smul demo = times" "compress demo = gf3_bytes" "decompress demo = gf3_of_bytes"
  "from_uniform_bytes demo = (\<lambda>_. Z1)" "scalar_to_bytes demo = gf3_bytes"
  "from_canonical_bytes demo = gf3_of_bytes"
  by (simp_all add: demo_def)

lemma demo_dalek: "dalek_laws demo"
proof -
  have two: "(2 :: gf3) \<noteq> 0"
    by (simp add: zero_gf3_def one_gf3_def flip: one_add_one)
  have smul: "smul demo = (\<lambda>a b. a * b)" by (simp add: demo_def)
  have rest: "compress demo = gf3_bytes" "decompress demo = gf3_of_bytes"
    "scalar_to_bytes demo = gf3_bytes" "from_canonical_bytes demo = gf3_of_bytes"
    by (simp_all add: demo_def)
  show ?thesis
    unfolding dalek_laws_def smul rest
    using two by (simp add: distrib_left distrib_right mult.assoc zero_gf3_def)
qed

lemma demo_aead: "aead_laws demo"
  by (simp add: aead_laws_def demo_def)

lemma demo_hex: "hex_laws demo"
  by (simp add: hex_laws_def demo_def hex_bytes_text)

lemma length_hex_text: "length (hex_text b) = 2 * length b"
  by (induction b) auto

lemma demo_hex_length: "\<forall>b. length (hex_encode demo b) = 2 * length b"
  by (simp add: demo_def length_hex_text)

lemma chunks32_concat:
  "\<forall>x\<in>set xs. length x = 32 \<Longrightarrow> chunks32 (length xs) (concat xs) = xs"
  by (induction xs) auto

lemma length_concat32: "\<forall>x\<in>set xs. length x = 32 \<Longrightarrow> length (concat xs) = 32 * length xs"
  by (induction xs) auto

lemma demo_ring_roundtrip:
  assumes "length (rs_c0 s) = 32" "length (rs_key_image s) = 32" "\<forall>x\<in>set (rs_s s). length x = 32"
  shows "de_ring_sig demo (ser_ring_sig demo s) = Some s"
  using assms
  by (simp add: demo_def demo_ser_ring_def demo_de_ring_def length_concat32 chunks32_concat)

end
