(* ===== verification/Ringct.thy ===== *)
theory Ringct
  imports Crates Instance
begin

text \<open>
  \<open>src/src/crypto/ringct.rs\<close>: Pedersen commitments, the balance check, the 64-bit range proof and
  the encrypted amounts. \<open>OsRng\<close> is a sequence \<open>rng\<close> of 64-byte draws, read in program order.
\<close>

section \<open>Commitments\<close>

definition h_generator :: "('p::ab_group_add, 's::field) crates \<Rightarrow> 'p" where
  "h_generator e = from_uniform_bytes e (sha3_512 e (str_bytes ''CipherX_Pedersen_H_generator_v1''))"

definition pedersen :: "('p::ab_group_add, 's::field) crates \<Rightarrow> 's \<Rightarrow> 's \<Rightarrow> 'p" where
  "pedersen e v r = smul e v (h_generator e) + smul e r (basepoint e)"

definition commit ::
  "('p::ab_group_add, 's::field) crates \<Rightarrow> u64 \<Rightarrow> bytes \<Rightarrow> pedersen_commitment option" where
  "commit e amount blinding =
     (case scalar_from_bytes e blinding of
        None \<Rightarrow> None
      | Some r \<Rightarrow>
          Some (compress e (smul e (amount_scalar amount) (h_generator e) + smul e r (basepoint e))))"

record commitment_with_blinding =
  cwb_commitment :: pedersen_commitment
  cwb_blinding :: bytes
  cwb_amount :: u64

text \<open>The \<open>expect\<close> of \<open>commit_random\<close> is the result \<^const>\<open>None\<close>.\<close>

definition commit_random ::
  "('p::ab_group_add, 's::field) crates \<Rightarrow> bytes \<Rightarrow> u64 \<Rightarrow> commitment_with_blinding option" where
  "commit_random e draw amount =
     (let r = from_bytes_mod_order_wide e draw; blinding = scalar_to_bytes e r in
      case commit e amount blinding of
        None \<Rightarrow> None
      | Some c \<Rightarrow> Some \<lparr> cwb_commitment = c, cwb_blinding = blinding, cwb_amount = amount \<rparr>)"

definition commit_zero ::
  "('p::ab_group_add, 's::field) crates \<Rightarrow> bytes \<Rightarrow> pedersen_commitment option" where
  "commit_zero e blinding = commit e 0 blinding"

lemma commit_scalar:
  "dalek_laws e \<Longrightarrow>
   commit e v (scalar_to_bytes e r) = Some (compress e (pedersen e (amount_scalar v) r))"
  by (simp add: commit_def scalar_from_bytes_def canonical_to_bytes pedersen_def)

lemma commit_random_total:
  "dalek_laws e \<Longrightarrow>
   commit_random e draw v = Some
     \<lparr> cwb_commitment = compress e (pedersen e (amount_scalar v) (from_bytes_mod_order_wide e draw)),
       cwb_blinding = scalar_to_bytes e (from_bytes_mod_order_wide e draw), cwb_amount = v \<rparr>"
  by (simp add: commit_random_def Let_def commit_scalar)

lemma pedersen_add: "dalek_laws e \<Longrightarrow> pedersen e v r + pedersen e w s = pedersen e (v + w) (r + s)"
  by (simp add: pedersen_def smul_add_left)

lemma pedersen_zero: "dalek_laws e \<Longrightarrow> pedersen e 0 0 = 0"
  by (simp add: pedersen_def smul_zero_left)

lemma pedersen_diff: "dalek_laws e \<Longrightarrow> pedersen e v r - pedersen e w s = pedersen e (v - w) (r - s)"
  by (simp add: pedersen_def smul_diff_left)

section \<open>The balance check\<close>

definition verify_balance ::
  "('p::ab_group_add, 's::field) crates \<Rightarrow> pedersen_commitment list \<Rightarrow> pedersen_commitment list \<Rightarrow>
   pedersen_commitment \<Rightarrow> bool" where
  "verify_balance e input_commitments output_commitments fee_comm =
     (case (sequence (map (decompress e) input_commitments),
            sequence (map (decompress e) output_commitments), decompress e fee_comm) of
        (Some ins, Some outs, Some fee_pt) \<Rightarrow>
          (let sum_in = foldl (+) 0 ins; sum_out = foldl (+) fee_pt outs; diff = sum_in - sum_out in
           compress e diff = zeros 32 \<or> diff = 0)
      | _ \<Rightarrow> False)"

fun sum_scalars :: "('p, 's::field) crates \<Rightarrow> 's \<Rightarrow> bytes list \<Rightarrow> 's option" where
  "sum_scalars e acc [] = Some acc"
| "sum_scalars e acc (b # bs) =
     (case scalar_from_bytes e b of None \<Rightarrow> None | Some s \<Rightarrow> sum_scalars e (acc + s) bs)"

definition compute_fee_blinding ::
  "('p, 's::field) crates \<Rightarrow> bytes list \<Rightarrow> bytes list \<Rightarrow> bytes option" where
  "compute_fee_blinding e input_blindings output_blindings =
     (case sum_scalars e 0 input_blindings of
        None \<Rightarrow> None
      | Some sum_in \<Rightarrow>
          (case sum_scalars e 0 output_blindings of
             None \<Rightarrow> None
           | Some sum_out \<Rightarrow> Some (scalar_to_bytes e (sum_in - sum_out))))"

lemma foldl_plus: "foldl (+) a xs = a + sum_list (xs :: 'a::monoid_add list)"
  by (induction xs arbitrary: a) (auto simp: add.assoc)

lemma compress_zero_iff: "dalek_laws e \<Longrightarrow> compress e p = zeros 32 \<longleftrightarrow> p = 0"
  using compress_inject [of e p 0] by (simp add: compress_zero)

lemma verify_balance_compressed:
  assumes "dalek_laws e"
  shows "verify_balance e (map (compress e) ins) (map (compress e) outs) (compress e f) \<longleftrightarrow>
    sum_list ins = f + sum_list outs"
  using assms
  by (simp add: verify_balance_def comp_def decompress_compress Let_def foldl_plus compress_zero_iff
      sequence_map_Some [where ys = ins, simplified] sequence_map_Some [where ys = outs, simplified])

lemma sum_scalars_bytes:
  "dalek_laws e \<Longrightarrow> sum_scalars e acc (map (scalar_to_bytes e) rs) = Some (acc + sum_list rs)"
  by (induction rs arbitrary: acc)
    (auto simp: scalar_from_bytes_def canonical_to_bytes add.assoc)

section \<open>Commitments of a transaction\<close>

record tx_commitments =
  tc_input_pseudo_commitments :: "pedersen_commitment list"
  tc_input_blindings :: "bytes list"
  tc_output_commitments :: "pedersen_commitment list"
  tc_output_blindings :: "bytes list"
  tc_fee_commitment :: pedersen_commitment
  tc_fee_blinding :: bytes

fun commit_all ::
  "('p::ab_group_add, 's::field) crates \<Rightarrow> (nat \<Rightarrow> bytes) \<Rightarrow> nat \<Rightarrow> u64 list \<Rightarrow>
   commitment_with_blinding list option" where
  "commit_all e rng i [] = Some []"
| "commit_all e rng i (v # vs) =
     (case commit_random e (rng i) v of
        None \<Rightarrow> None
      | Some c \<Rightarrow>
          (case commit_all e rng (Suc i) vs of None \<Rightarrow> None | Some cs \<Rightarrow> Some (c # cs)))"

definition build_tx_commitments ::
  "('p::ab_group_add, 's::field) crates \<Rightarrow> (nat \<Rightarrow> bytes) \<Rightarrow> u64 list \<Rightarrow> u64 list \<Rightarrow> u64 \<Rightarrow>
   tx_commitments option" where
  "build_tx_commitments e rng input_amounts output_amounts fee =
     (case commit_all e rng 0 input_amounts of
        None \<Rightarrow> None
      | Some cin \<Rightarrow>
     (case commit_all e rng (length input_amounts) output_amounts of
        None \<Rightarrow> None
      | Some cout \<Rightarrow>
     (case compute_fee_blinding e (map cwb_blinding cin) (map cwb_blinding cout) of
        None \<Rightarrow> None
      | Some fee_blinding \<Rightarrow>
     (case commit e fee fee_blinding of
        None \<Rightarrow> None
      | Some fee_comm \<Rightarrow>
          Some \<lparr> tc_input_pseudo_commitments = map cwb_commitment cin,
                 tc_input_blindings = map cwb_blinding cin,
                 tc_output_commitments = map cwb_commitment cout,
                 tc_output_blindings = map cwb_blinding cout,
                 tc_fee_commitment = fee_comm,
                 tc_fee_blinding = fee_blinding \<rparr>))))"

definition draws :: "('p, 's) crates \<Rightarrow> (nat \<Rightarrow> bytes) \<Rightarrow> nat \<Rightarrow> nat \<Rightarrow> 's list" where
  "draws e rng i n = map (\<lambda>k. from_bytes_mod_order_wide e (rng k)) [i..<i + n]"

lemma draws_Suc: "draws e rng i (Suc n) = from_bytes_mod_order_wide e (rng i) # draws e rng (Suc i) n"
  by (simp add: draws_def upt_conv_Cons del: upt_Suc)

lemma commit_all_total:
  assumes "dalek_laws e"
  shows "\<exists>cs. commit_all e rng i vs = Some cs \<and>
    map cwb_commitment cs =
      map (compress e) (map2 (pedersen e) (map amount_scalar vs) (draws e rng i (length vs))) \<and>
    map cwb_blinding cs = map (scalar_to_bytes e) (draws e rng i (length vs))"
proof (induction vs arbitrary: i)
  case (Cons v vs)
  from Cons.IH [of "Suc i"] show ?case
    by (auto simp: commit_random_total [OF assms] draws_Suc)
qed (simp add: draws_def)

lemma sum_map2_pedersen:
  assumes "dalek_laws e" "length vs = length rs"
  shows "sum_list (map2 (pedersen e) vs rs) = pedersen e (sum_list vs) (sum_list rs)"
  using assms(2) by (induction vs rs rule: list_induct2) (auto simp: assms(1) pedersen_add pedersen_zero)

lemma length_draws [simp]: "length (draws e rng i n) = n"
  by (simp add: draws_def)

text \<open>
  A wallet that builds the commitments of a transaction always succeeds, and the balance check
  of the node accepts them exactly when the amounts balance: the committed inputs are the outputs
  plus the fee (as scalars; the group order exceeds any sum of 64-bit amounts a transaction can
  hold). The hypothesis on \<open>h_generator\<close> says that the second generator is not the identity.
\<close>

theorem built_commitments_balance:
  fixes e :: "('p::ab_group_add, 's::field) crates"
  assumes "dalek_laws e" "h_generator e \<noteq> 0"
  shows "\<exists>t. build_tx_commitments e rng ins outs fee = Some t \<and>
    (verify_balance e (tc_input_pseudo_commitments t) (tc_output_commitments t) (tc_fee_commitment t)
     \<longleftrightarrow> (of_nat (sum_list (map unat ins)) :: 's) = of_nat (sum_list (map unat outs) + unat fee))"
proof -
  let ?ri = "draws e rng 0 (length ins)" and ?ro = "draws e rng (length ins) (length outs)"
  let ?vi = "map amount_scalar ins :: 's list" and ?vo = "map amount_scalar outs :: 's list"
  let ?rf = "sum_list ?ri - sum_list ?ro"
  obtain ci where ci: "commit_all e rng 0 ins = Some ci"
    "map cwb_commitment ci = map (compress e) (map2 (pedersen e) ?vi ?ri)"
    "map cwb_blinding ci = map (scalar_to_bytes e) ?ri"
    using commit_all_total [OF assms(1)] by blast
  obtain co where co: "commit_all e rng (length ins) outs = Some co"
    "map cwb_commitment co = map (compress e) (map2 (pedersen e) ?vo ?ro)"
    "map cwb_blinding co = map (scalar_to_bytes e) ?ro"
    using commit_all_total [OF assms(1)] by blast
  have fb: "compute_fee_blinding e (map cwb_blinding ci) (map cwb_blinding co) =
      Some (scalar_to_bytes e ?rf)"
    by (simp only: compute_fee_blinding_def ci co sum_scalars_bytes [OF assms(1)] option.case add_0)
  define t where "t = \<lparr> tc_input_pseudo_commitments = map cwb_commitment ci,
      tc_input_blindings = map cwb_blinding ci, tc_output_commitments = map cwb_commitment co,
      tc_output_blindings = map cwb_blinding co,
      tc_fee_commitment = compress e (pedersen e (amount_scalar fee) ?rf),
      tc_fee_blinding = scalar_to_bytes e ?rf \<rparr>"
  have built: "build_tx_commitments e rng ins outs fee = Some t"
    by (simp only: build_tx_commitments_def ci(1) co(1) option.case fb commit_scalar [OF assms(1)] t_def)
  have sums: "sum_list (map (amount_scalar :: u64 \<Rightarrow> 's) vs) = of_nat (sum_list (map unat vs))" for vs
    by (induction vs) (auto simp: amount_scalar_def)
  have "verify_balance e (tc_input_pseudo_commitments t) (tc_output_commitments t) (tc_fee_commitment t)
      \<longleftrightarrow> pedersen e (sum_list ?vi) (sum_list ?ri) =
          pedersen e (amount_scalar fee + sum_list ?vo) (?rf + sum_list ?ro)"
    using assms(1)
    by (simp add: t_def ci(2) co(2) verify_balance_compressed sum_map2_pedersen pedersen_add
        del: map_map)
  also have "\<dots> \<longleftrightarrow> smul e (sum_list ?vi - (amount_scalar fee + sum_list ?vo)) (h_generator e) = 0"
    by (simp add: pedersen_def smul_diff_left [OF assms(1)])
  also have "\<dots> \<longleftrightarrow> sum_list ?vi = amount_scalar fee + sum_list ?vo"
    by (simp add: smul_eq_zero_iff [OF assms(1)] assms(2))
  also have "\<dots> \<longleftrightarrow> (of_nat (sum_list (map unat ins)) :: 's) = of_nat (sum_list (map unat outs) + unat fee)"
    by (simp add: sums amount_scalar_def add.commute del: of_nat_unat)
  finally show ?thesis using built by blast
qed

theorem built_commitments_balance_witness:
  "\<exists>t. build_tx_commitments demo (\<lambda>i. [of_nat i]) [5, 4] [3, 2] 4 = Some t \<and>
    (verify_balance demo (tc_input_pseudo_commitments t) (tc_output_commitments t) (tc_fee_commitment t)
     \<longleftrightarrow> (of_nat (sum_list (map unat [5 :: u64, 4])) :: gf3)
         = of_nat (sum_list (map unat [3 :: u64, 2]) + unat (4 :: u64)))"
  by (rule built_commitments_balance [OF demo_dalek]) (simp add: h_generator_def demo_def zero_gf3_def)

section \<open>Encrypted amounts\<close>

definition amount_ct_len :: nat where
  "amount_ct_len = 24"

definition derive_amount_key_nonce :: "('p, 's) crates \<Rightarrow> 's \<Rightarrow> bytes \<times> bytes" where
  "derive_amount_key_nonce e shared_secret =
     (let out = sha3_512 e (str_bytes ''CipherX_amount_enc_v2'' @ scalar_to_bytes e shared_secret) in
      (take 32 out, subslice 32 44 out))"

definition encrypt_amount :: "('p, 's) crates \<Rightarrow> u64 \<Rightarrow> 's \<Rightarrow> bytes" where
  "encrypt_amount e amount shared_secret =
     (case derive_amount_key_nonce e shared_secret of (key, nonce) \<Rightarrow>
        aead_encrypt e key nonce (u64_to_le amount))"

definition decrypt_amount :: "('p, 's) crates \<Rightarrow> bytes \<Rightarrow> 's \<Rightarrow> u64 option" where
  "decrypt_amount e encrypted shared_secret =
     (if length encrypted \<noteq> amount_ct_len then None
      else
        (case derive_amount_key_nonce e shared_secret of (key, nonce) \<Rightarrow>
           (case aead_decrypt e key nonce encrypted of
              None \<Rightarrow> None
            | Some pt \<Rightarrow> (if length pt \<noteq> 8 then None else Some (u64_from_le pt)))))"

lemma decrypt_encrypt_amount:
  "aead_laws e \<Longrightarrow> decrypt_amount e (encrypt_amount e v s) s = Some v"
  by (simp add: aead_laws_def decrypt_amount_def encrypt_amount_def amount_ct_len_def u64_le.dec_enc
      split: prod.splits)

end
