(* ===== verification/RangeProof.thy ===== *)
theory RangeProof
  imports Ringct
begin

text \<open>
  The 64-bit range proof of \<open>src/src/crypto/ringct.rs\<close>: the amount is committed bit by bit, each
  bit commitment carries a Schnorr OR proof, and the weighted sum of the bit commitments has to be
  the outer commitment. The prover draws the blindings of bits 0 to 62 from \<open>rng 0\<close> to \<open>rng 62\<close>
  and three scalars per OR proof from there on, in the order of the sources.
\<close>

unbundle bit_operations_syntax

section \<open>The prover\<close>

definition range_bits :: nat where
  "range_bits = 64"

definition hash_to_scalar :: "('p, 's) crates \<Rightarrow> bytes list \<Rightarrow> 's" where
  "hash_to_scalar e ds =
     from_bytes_mod_order_wide e (sha3_512 e (str_bytes ''CipherX_range_v1'' @ concat ds))"

definition range_bit :: "u64 \<Rightarrow> nat \<Rightarrow> u64" where
  "range_bit amount i = drop_bit i amount AND 1"

text \<open>The first loop of \<open>prove_range\<close>: \<open>n\<close> bits are left, the next one is bit \<open>i\<close>.\<close>

fun bit_commitments ::
  "('p::ab_group_add, 's::field) crates \<Rightarrow> (nat \<Rightarrow> bytes) \<Rightarrow> u64 \<Rightarrow> 's \<Rightarrow> nat \<Rightarrow> nat \<Rightarrow> 's \<Rightarrow> 's \<Rightarrow>
   ('p \<times> 's) list" where
  "bit_commitments e rng amount r_total 0 i acc_r acc_pow = []"
| "bit_commitments e rng amount r_total (Suc n) i acc_r acc_pow =
     (let draw = from_bytes_mod_order_wide e (rng i);
          r_i = (if i < range_bits - 1 then draw else (r_total - acc_r) * inverse acc_pow);
          acc_r' = (if i < range_bits - 1 then acc_r + acc_pow * draw else acc_r);
          c_i = (if range_bit amount i = 0 then smul e r_i (basepoint e)
                 else h_generator e + smul e r_i (basepoint e)) in
      (c_i, r_i) # bit_commitments e rng amount r_total n (Suc i) acc_r' (acc_pow * 2))"

definition or_challenge :: "('p, 's) crates \<Rightarrow> 'p \<Rightarrow> 'p \<Rightarrow> 'p \<Rightarrow> 's" where
  "or_challenge e c a0 a1 = hash_to_scalar e [compress e c, compress e a0, compress e a1]"

definition build_or_proof ::
  "('p::ab_group_add, 's::field) crates \<Rightarrow> (nat \<Rightarrow> bytes) \<Rightarrow> nat \<Rightarrow> u64 \<Rightarrow> 'p \<Rightarrow> 's \<Rightarrow> 'p \<Rightarrow>
   's \<times> 's \<times> 's \<times> 's" where
  "build_or_proof e rng j b c r h =
     (let k = from_bytes_mod_order_wide e (rng j) in
      if b = 0 then
        (let e1 = from_bytes_mod_order_wide e (rng (j + 1));
             s1 = from_bytes_mod_order_wide e (rng (j + 2));
             a0 = smul e k (basepoint e);
             a1 = smul e s1 (basepoint e) - smul e e1 (c - h);
             e0 = or_challenge e c a0 a1 - e1 in
         (e0, e1, k + e0 * r, s1))
      else
        (let e0 = from_bytes_mod_order_wide e (rng (j + 1));
             s0 = from_bytes_mod_order_wide e (rng (j + 2));
             a0 = smul e s0 (basepoint e) - smul e e0 c;
             a1 = smul e k (basepoint e);
             e1 = or_challenge e c a0 a1 - e0 in
         (e0, e1, s0, k + e1 * r)))"

text \<open>The 160 bytes that the proof holds for one bit.\<close>

fun bit_bytes :: "('p, 's) crates \<Rightarrow> 'p \<Rightarrow> 's \<times> 's \<times> 's \<times> 's \<Rightarrow> bytes" where
  "bit_bytes e c (e0, e1, s0, s1) =
     compress e c @ scalar_to_bytes e e0 @ scalar_to_bytes e e1 @
     scalar_to_bytes e s0 @ scalar_to_bytes e s1"

fun prove_bits ::
  "('p::ab_group_add, 's::field) crates \<Rightarrow> (nat \<Rightarrow> bytes) \<Rightarrow> u64 \<Rightarrow> nat \<Rightarrow> ('p \<times> 's) list \<Rightarrow> bytes" where
  "prove_bits e rng amount i [] = []"
| "prove_bits e rng amount i ((c, r) # cs) =
     bit_bytes e c (build_or_proof e rng (range_bits - 1 + 3 * i) (range_bit amount i) c r (h_generator e))
     @ prove_bits e rng amount (Suc i) cs"

definition range_tag :: "('p, 's) crates \<Rightarrow> pedersen_commitment \<Rightarrow> 'p list \<Rightarrow> bytes" where
  "range_tag e outer cs =
     sha3_256 e (str_bytes ''CipherX_range_tag_v1'' @ outer @ concat (map (compress e) cs))"

definition prove_range ::
  "('p::ab_group_add, 's::field) crates \<Rightarrow> (nat \<Rightarrow> bytes) \<Rightarrow> u64 \<Rightarrow> bytes \<Rightarrow> bulletproof option" where
  "prove_range e rng amount blinding =
     (case scalar_from_bytes e blinding of
        None \<Rightarrow> None
      | Some r_total \<Rightarrow>
          (let cs = bit_commitments e rng amount r_total range_bits 0 0 1;
               body = prove_bits e rng amount 0 cs in
           case commit e amount blinding of
             None \<Rightarrow> None
           | Some outer \<Rightarrow> Some (body @ range_tag e outer (map fst cs))))"

section \<open>The verifier\<close>

definition or_check ::
  "('p::ab_group_add, 's::field) crates \<Rightarrow> 'p \<Rightarrow> 's \<times> 's \<times> 's \<times> 's \<Rightarrow> bool" where
  "or_check e c q =
     (case q of (e0, e1, s0, s1) \<Rightarrow>
        let a0 = smul e s0 (basepoint e) - smul e e0 c;
            a1 = smul e s1 (basepoint e) - smul e e1 (c - h_generator e) in
        or_challenge e c a0 a1 = e0 + e1)"

definition parse_bit ::
  "('p::ab_group_add, 's::field) crates \<Rightarrow> bytes \<Rightarrow> nat \<Rightarrow> ('p \<times> 's \<times> 's \<times> 's \<times> 's) option" where
  "parse_bit e pf off =
     (case decompress e (subslice off (off + 32) pf) of None \<Rightarrow> None | Some c \<Rightarrow>
     (case scalar_from_bytes e (subslice (off + 32) (off + 64) pf) of None \<Rightarrow> None | Some e0 \<Rightarrow>
     (case scalar_from_bytes e (subslice (off + 64) (off + 96) pf) of None \<Rightarrow> None | Some e1 \<Rightarrow>
     (case scalar_from_bytes e (subslice (off + 96) (off + 128) pf) of None \<Rightarrow> None | Some s0 \<Rightarrow>
     (case scalar_from_bytes e (subslice (off + 128) (off + 160) pf) of None \<Rightarrow> None | Some s1 \<Rightarrow>
        Some (c, e0, e1, s0, s1))))))"

text \<open>The per-bit loop: the bit commitments in order, or nothing when a check fails.\<close>

fun verify_bits ::
  "('p::ab_group_add, 's::field) crates \<Rightarrow> bytes \<Rightarrow> nat \<Rightarrow> nat \<Rightarrow> 'p list option" where
  "verify_bits e pf 0 off = Some []"
| "verify_bits e pf (Suc n) off =
     (case parse_bit e pf off of
        None \<Rightarrow> None
      | Some (c, q) \<Rightarrow>
          (if \<not> or_check e c q then None
           else (case verify_bits e pf n (off + 160) of None \<Rightarrow> None | Some cs \<Rightarrow> Some (c # cs))))"

fun weighted_sum :: "('p::ab_group_add, 's::field) crates \<Rightarrow> 'p \<Rightarrow> 's \<Rightarrow> 'p list \<Rightarrow> 'p" where
  "weighted_sum e acc pow [] = acc"
| "weighted_sum e acc pow (c # cs) = weighted_sum e (acc + smul e pow c) (pow * 2) cs"

definition verify_range ::
  "('p::ab_group_add, 's::field) crates \<Rightarrow> pedersen_commitment \<Rightarrow> bulletproof \<Rightarrow> bool" where
  "verify_range e commitment pf =
     (if length pf \<noteq> range_bits * 160 + 32 then False
      else
        (case decompress e commitment of
           None \<Rightarrow> False
         | Some outer_pt \<Rightarrow>
             (case verify_bits e pf range_bits 0 of
                None \<Rightarrow> False
              | Some cs \<Rightarrow>
                  compress e (weighted_sum e 0 1 cs) = compress e outer_pt \<and>
                  range_tag e commitment cs =
                    subslice (range_bits * 160) (range_bits * 160 + 32) pf)))"

section \<open>Completeness\<close>

lemma range_bit_iff: "range_bit v i = 0 \<longleftrightarrow> even (unat v div 2 ^ i)"
proof -
  have "range_bit v i = 0 \<longleftrightarrow> \<not> bit v i"
    by (simp add: range_bit_def and_one_eq even_iff_mod_2_eq_zero [symmetric] even_drop_bit_iff_not_bit)
  also have "bit v i \<longleftrightarrow> bit (unat v) i"
    by (auto simp: bit_unsigned_iff dest: bit_imp_le_length)
  finally show ?thesis by (simp add: bit_iff_odd)
qed

lemma weighted_bits:
  assumes "dalek_laws (e :: ('p::ab_group_add, 's::field) crates)"
  shows "i + Suc n = range_bits \<Longrightarrow> pow \<noteq> 0 \<Longrightarrow>
    weighted_sum e acc pow (map fst (bit_commitments e rng v r (Suc n) i acc_r pow)) =
      acc + pedersen e (pow * of_nat (unat v div 2 ^ i)) (r - acc_r)"
proof (induction n arbitrary: i acc pow acc_r)
  case 0
  then have i: "i = 63" by (simp add: range_bits_def)
  have lt: "unat v div 2 ^ 63 < 2"
    using unsigned_less [of v, where ?'a = nat] by simp
  then have v: "unat v div 2 ^ 63 = (if range_bit v 63 = 0 then 0 else 1)"
    unfolding range_bit_iff by (auto elim!: evenE oddE)
  have r: "pow * ((r - acc_r) * inverse pow) = r - acc_r" using 0 by (simp add: field_simps)
  have "smul e pow (smul e ((r - acc_r) * inverse pow) (basepoint e)) = smul e (r - acc_r) (basepoint e)"
    by (simp only: smul_mult [OF assms, symmetric] r)
  then show ?case
    using assms unfolding i v
    by (simp add: Let_def range_bits_def pedersen_def smul_add_right smul_zero_left)
next
  case (Suc n)
  let ?d = "from_bytes_mod_order_wide e (rng i)"
  let ?b = "if range_bit v i = 0 then 0 else 1 :: 's"
  let ?c = "if range_bit v i = 0 then smul e ?d (basepoint e) else h_generator e + smul e ?d (basepoint e)"
  have i: "i < range_bits - 1" and i': "Suc i + Suc n = range_bits" using Suc.prems by simp_all
  have nz: "pow * 2 \<noteq> 0" using Suc.prems(2) two_nonzero [OF assms] by simp
  have half: "unat v div 2 ^ i = 2 * (unat v div 2 ^ Suc i) + (if range_bit v i = 0 then 0 else 1)"
  proof -
    have "unat v div 2 ^ Suc i = unat v div 2 ^ i div 2"
      by (simp only: power_Suc2 div_mult2_eq)
    moreover have "x = 2 * (x div 2) + (if even x then 0 else 1)" for x :: nat by simp
    ultimately show ?thesis by (simp only: range_bit_iff)
  qed
  have step: "weighted_sum e acc pow (map fst (bit_commitments e rng v r (Suc (Suc n)) i acc_r pow)) =
      weighted_sum e (acc + smul e pow ?c) (pow * 2)
        (map fst (bit_commitments e rng v r (Suc n) (Suc i) (acc_r + pow * ?d) (pow * 2)))"
    by (subst bit_commitments.simps) (simp only: Let_def i if_True list.map fst_conv weighted_sum.simps)
  have c: "smul e pow ?c = pedersen e (pow * ?b) (pow * ?d)"
    using assms by (simp add: pedersen_def group_simps)
  have "pow * of_nat (unat v div 2 ^ i) = pow * ?b + pow * 2 * (of_nat (unat v div 2 ^ Suc i) :: 's)"
    by (subst half) (simp add: algebra_simps)
  moreover have "r - acc_r = pow * ?d + (r - (acc_r + pow * ?d))" by simp
  ultimately show ?case
    unfolding step Suc.IH [OF i' nz] c by (simp only: add.assoc pedersen_add [OF assms])
qed

lemma or_proof_accepted:
  assumes "dalek_laws e"
    and "c = (if b = 0 then smul e r (basepoint e) else h_generator e + smul e r (basepoint e))"
  shows "or_check e c (build_or_proof e rng j b c r (h_generator e))"
proof (cases "b = 0")
  case True
  have "smul e (k + e0 * r) (basepoint e) - smul e e0 c = smul e k (basepoint e)" for k e0
    using assms True by (simp add: group_simps)
  then show ?thesis
    using True by (simp add: build_or_proof_def or_check_def Let_def)
next
  case False
  have "smul e (k + e1 * r) (basepoint e) - smul e e1 (c - h_generator e) = smul e k (basepoint e)" for k e1
    using assms False by (simp add: group_simps)
  then show ?thesis
    using False by (simp add: build_or_proof_def or_check_def Let_def)
qed

lemma parse_bit_bytes:
  assumes "dalek_laws e"
  shows "parse_bit e (pre @ bit_bytes e c q @ post) (length pre) = Some (c, q)"
proof -
  obtain e0 e1 s0 s1 where q: "q = (e0, e1, s0, s1)" by (cases q)
  have [simp]: "length (compress e p) = 32" "length (scalar_to_bytes e s) = 32" for p s
    using assms by (simp_all add: length_compress length_scalar_to_bytes)
  show ?thesis
    by (simp add: q parse_bit_def subslice_def scalar_from_bytes_def canonical_to_bytes [OF assms]
        decompress_compress [OF assms])
qed

lemma length_bit_bytes:
  assumes "dalek_laws e"
  shows "length (bit_bytes e c q) = 160"
  using assms by (cases q) (simp add: length_compress length_scalar_to_bytes)

lemma length_prove_bits:
  "dalek_laws e \<Longrightarrow> length (prove_bits e rng v i cs) = 160 * length cs"
  by (induction cs arbitrary: i) (auto simp: length_bit_bytes)

definition honest_bits :: "('p::ab_group_add, 's::field) crates \<Rightarrow> u64 \<Rightarrow> nat \<Rightarrow> ('p \<times> 's) list \<Rightarrow> bool" where
  "honest_bits e v i cs \<longleftrightarrow>
     (\<forall>k < length cs. fst (cs ! k) =
        (if range_bit v (i + k) = 0 then smul e (snd (cs ! k)) (basepoint e)
         else h_generator e + smul e (snd (cs ! k)) (basepoint e)))"

lemma honest_bits_Cons:
  "honest_bits e v i ((c, r) # cs) \<longleftrightarrow>
     c = (if range_bit v i = 0 then smul e r (basepoint e) else h_generator e + smul e r (basepoint e))
     \<and> honest_bits e v (Suc i) cs"
  by (auto simp: honest_bits_def less_Suc_eq_0_disj)

lemma bit_commitments_honest:
  "honest_bits e v i (bit_commitments e rng v r n i acc_r pow)"
proof (induction n arbitrary: i acc_r pow)
  case 0
  show ?case by (simp add: honest_bits_def)
next
  case (Suc n)
  then show ?case
    by (simp add: Let_def honest_bits_Cons del: bit_commitments.simps(1))
qed

lemma length_bit_commitments [simp]: "length (bit_commitments e rng v r n i acc_r pow) = n"
  by (induction n arbitrary: i acc_r pow) (auto simp: Let_def)

lemma verify_prove_bits:
  assumes "dalek_laws e"
  shows "honest_bits e v i cs \<Longrightarrow>
    verify_bits e (pre @ prove_bits e rng v i cs @ post) (length cs) (length pre) = Some (map fst cs)"
proof (induction cs arbitrary: i pre)
  case (Cons cr cs)
  obtain c r where cr: "cr = (c, r)" by (cases cr)
  define q where "q = build_or_proof e rng (range_bits - 1 + 3 * i) (range_bit v i) c r (h_generator e)"
  let ?pre = "pre @ bit_bytes e c q"
  from Cons.prems have hc: "honest_bits e v (Suc i) cs"
    and c: "or_check e c q"
    by (auto simp: cr honest_bits_Cons q_def intro!: or_proof_accepted [OF assms])
  have split: "pre @ prove_bits e rng v i (cr # cs) @ post =
      pre @ bit_bytes e c q @ (prove_bits e rng v (Suc i) cs @ post)"
    by (simp add: cr q_def)
  have len: "length ?pre = length pre + 160" by (simp add: length_bit_bytes [OF assms])
  have "verify_bits e (?pre @ prove_bits e rng v (Suc i) cs @ post) (length cs) (length ?pre) =
      Some (map fst cs)"
    by (rule Cons.IH [OF hc])
  then have rest: "verify_bits e (pre @ bit_bytes e c q @ prove_bits e rng v (Suc i) cs @ post)
      (length cs) (length pre + 160) = Some (map fst cs)"
    by (simp only: append_assoc len)
  show ?case
    unfolding split
    by (simp add: parse_bit_bytes [OF assms] c rest cr del: bit_bytes.simps)
qed simp

lemma prove_range_verifies:
  assumes "dalek_laws e" "\<forall>bs. length (sha3_256 e bs) = 32"
  shows "\<exists>c pf. commit e v (scalar_to_bytes e r) = Some c \<and>
    prove_range e rng v (scalar_to_bytes e r) = Some pf \<and> verify_range e c pf"
proof -
  let ?cs = "bit_commitments e rng v r range_bits 0 0 1"
  let ?c = "compress e (pedersen e (amount_scalar v) r)"
  let ?tag = "range_tag e ?c (map fst ?cs)"
  let ?pf = "prove_bits e rng v 0 ?cs @ ?tag"
  have c: "commit e v (scalar_to_bytes e r) = Some ?c" by (rule commit_scalar [OF assms(1)])
  have pf: "prove_range e rng v (scalar_to_bytes e r) = Some ?pf"
    by (simp add: prove_range_def scalar_from_bytes_def canonical_to_bytes [OF assms(1)] c Let_def)
  have tag: "length ?tag = 32" by (simp add: range_tag_def assms(2))
  have body: "length (prove_bits e rng v 0 ?cs) = range_bits * 160"
    by (simp add: length_prove_bits [OF assms(1)])
  have bits: "verify_bits e ?pf range_bits 0 = Some (map fst ?cs)"
    using verify_prove_bits [OF assms(1) bit_commitments_honest [of e v 0 rng r range_bits 0 1],
        where pre = "[]" and post = ?tag and rng = rng]
    by simp
  have rb: "range_bits = Suc 63" by (simp add: range_bits_def)
  have "weighted_sum e 0 1 (map fst ?cs) = 0 + pedersen e (1 * of_nat (unat v div 2 ^ 0)) (r - 0)"
    unfolding rb by (rule weighted_bits [OF assms(1)]) (simp_all add: range_bits_def)
  then have sum: "weighted_sum e 0 1 (map fst ?cs) = pedersen e (amount_scalar v) r"
    by (simp add: amount_scalar_def)
  have "verify_range e ?c ?pf"
    using body tag
    by (simp add: verify_range_def decompress_compress [OF assms(1)] bits sum subslice_def)
  then show ?thesis using c pf by blast
qed

text \<open>
  C26. The range proof that a wallet builds for an amount and the blinding of its commitment is
  accepted by every node, for every 64-bit amount, every canonical blinding and every outcome of
  the random draws.
\<close>

theorem range_proof_complete:
  assumes "dalek_laws e" "\<forall>bs. length (sha3_256 e bs) = 32" "from_canonical_bytes e blinding \<noteq> None"
    and "\<forall>bs s. from_canonical_bytes e bs = Some s \<longrightarrow> scalar_to_bytes e s = bs"
  shows "\<exists>c pf. commit e v blinding = Some c \<and> prove_range e rng v blinding = Some pf \<and>
    length pf = 10272 \<and> verify_range e c pf"
proof -
  obtain r where r: "blinding = scalar_to_bytes e r" using assms(3,4) by fastforce
  obtain c pf where c: "commit e v blinding = Some c" "prove_range e rng v blinding = Some pf"
    "verify_range e c pf"
    using prove_range_verifies [OF assms(1,2), of v r rng] r by blast
  then have "length pf = 10272" by (simp add: verify_range_def range_bits_def split: if_splits)
  with c show ?thesis by blast
qed

theorem range_proof_complete_witness:
  "\<exists>c pf. commit demo 300 (gf3_bytes Z2) = Some c \<and>
    prove_range demo (\<lambda>i. [of_nat i, 7]) 300 (gf3_bytes Z2) = Some pf \<and>
    length pf = 10272 \<and> verify_range demo c pf"
  by (rule range_proof_complete [OF demo_dalek])
    (auto simp del: gf3_bytes.simps intro: gf3_bytes_of_bytes)

text \<open>
  A range proof is bound to one commitment: whoever crafted the bytes, if nodes accept them
  for two commitments, the two decode to the same point.
\<close>

theorem range_proof_binds_commitment:
  assumes "dalek_laws e" "verify_range e c pf" "verify_range e c' pf"
  shows "decompress e c = decompress e c'"
  using assms
  by (auto simp: verify_range_def compress_inject [OF assms(1)] split: if_splits option.splits)

theorem range_proof_binds_commitment_witness:
  "\<exists>c pf. verify_range demo c pf \<and> decompress demo c = decompress demo c"
proof -
  have len: "\<forall>bs. length (sha3_256 demo bs) = 32" by (simp add: demo_def)
  from prove_range_verifies [OF demo_dalek len] obtain c pf where "verify_range demo c pf" by blast
  with range_proof_binds_commitment [OF demo_dalek this this] show ?thesis by blast
qed

end
