(* ===== verification/RingSig.thy ===== *)
theory RingSig
  imports Crates Instance
begin

text \<open>
  \<open>src/src/crypto/ring_sig.rs\<close>: LSAG ring signatures. The signer walks the ring from the member
  after the real one back to the real one, the verifier walks it from member 0; both apply
  \<open>ring_step\<close>. The draws of \<open>sign\<close> are \<open>rng 0\<close> for the blinding scalar and \<open>rng (1 + i)\<close> for member
  \<open>i\<close>. Errors are their messages.
\<close>

definition ring_size :: nat where
  "ring_size = 11"

definition hash_to_point :: "('p, 's) crates \<Rightarrow> bytes \<Rightarrow> 'p" where
  "hash_to_point e pubkey = from_uniform_bytes e (sha3_512 e (str_bytes ''CipherX_H_p'' @ pubkey))"

definition hash_challenge :: "('p, 's) crates \<Rightarrow> bytes \<Rightarrow> 'p \<Rightarrow> 'p \<Rightarrow> 's" where
  "hash_challenge e message l r =
     from_bytes_mod_order_wide e
       (sha3_512 e (str_bytes ''CipherX_MLSAG'' @ message @ compress e l @ compress e r))"

text \<open>One member of the ring: the next challenge from the current one.\<close>

definition ring_step ::
  "('p::ab_group_add, 's::field) crates \<Rightarrow> bytes \<Rightarrow> bytes list \<Rightarrow> 'p list \<Rightarrow> 's list \<Rightarrow> 'p \<Rightarrow> nat \<Rightarrow> 's \<Rightarrow> 's" where
  "ring_step e message ring_pubkeys pubkeys s ki i c =
     (let hp_i = hash_to_point e (ring_pubkeys ! i);
          l_i = smul e (s ! i) (basepoint e) + smul e c (pubkeys ! i);
          r_i = smul e (s ! i) hp_i + smul e c ki in
      hash_challenge e message l_i r_i)"

text \<open>
  The loop of \<open>sign\<close>: it writes the challenge of the next member and stops when that is the real
  one; the first argument bounds the number of turns.
\<close>

fun sign_loop :: "nat \<Rightarrow> (nat \<Rightarrow> 's \<Rightarrow> 's) \<Rightarrow> nat \<Rightarrow> nat \<Rightarrow> nat \<Rightarrow> 's list \<Rightarrow> 's list option" where
  "sign_loop 0 f n real_index i c = None"
| "sign_loop (Suc fuel) f n real_index i c =
     (let nxt = (i + 1) mod n; c' = c[nxt := f i (c ! i)] in
      if nxt = real_index then Some c' else sign_loop fuel f n real_index nxt c')"

definition sign_ring_scalars ::
  "('p::ab_group_add, 's::field) crates \<Rightarrow> (nat \<Rightarrow> bytes) \<Rightarrow> bytes \<Rightarrow> bytes list \<Rightarrow> 'p list \<Rightarrow> nat \<Rightarrow> 's \<Rightarrow>
   ('s \<times> 's list \<times> 'p) option" where
  "sign_ring_scalars e rng message ring_pubkeys pubkeys real_index x =
     (let n = length ring_pubkeys;
          hp_real = hash_to_point e (ring_pubkeys ! real_index);
          ki = smul e x hp_real;
          alpha = from_bytes_mod_order_wide e (rng 0);
          s = map (\<lambda>i. from_bytes_mod_order_wide e (rng (1 + i))) [0..<n];
          start = (real_index + 1) mod n;
          c = (replicate n 0)[start :=
                 hash_challenge e message (smul e alpha (basepoint e)) (smul e alpha hp_real)] in
      case sign_loop n (ring_step e message ring_pubkeys pubkeys s ki) n real_index start c of
        None \<Rightarrow> None
      | Some c' \<Rightarrow> Some (c' ! 0, s[real_index := alpha - c' ! real_index * x], ki))"

definition sign ::
  "('p::ab_group_add, 's::field) crates \<Rightarrow> (nat \<Rightarrow> bytes) \<Rightarrow> bytes \<Rightarrow> bytes list \<Rightarrow> nat \<Rightarrow> private_key \<Rightarrow>
   (string + ring_sig \<times> key_image_bytes) option" where
  "sign e rng message ring_pubkeys real_index sk =
     (let n = length ring_pubkeys in
      if n < 2 then Some (Inl ''Ring must have at least 2 members'')
      else if n \<le> real_index then Some (Inl ''real_index out of bounds'')
      else
        (case scalar_from_bytes e sk of
           None \<Rightarrow> Some (Inl ''Invalid private key scalar'')
         | Some x \<Rightarrow>
             (case sequence (map (decompress e) ring_pubkeys) of
                None \<Rightarrow> Some (Inl ''Invalid ring pubkey'')
              | Some pubkeys \<Rightarrow>
                  (case sign_ring_scalars e rng message ring_pubkeys pubkeys real_index x of
                     None \<Rightarrow> None
                   | Some (c0, s, ki) \<Rightarrow>
                       Some (Inr (\<lparr> rs_c0 = scalar_to_bytes e c0, rs_s = map (scalar_to_bytes e) s,
                                    rs_key_image = compress e ki \<rparr>, compress e ki))))))"

definition verify ::
  "('p::ab_group_add, 's::field) crates \<Rightarrow> bytes \<Rightarrow> bytes list \<Rightarrow> ring_sig \<Rightarrow> bool" where
  "verify e message ring_pubkeys sig =
     (let n = length ring_pubkeys in
      if n < 2 \<or> length (rs_s sig) \<noteq> n then False
      else
        (case sequence (map (decompress e) ring_pubkeys) of None \<Rightarrow> False | Some pubkeys \<Rightarrow>
        (case decompress e (rs_key_image sig) of None \<Rightarrow> False | Some ki \<Rightarrow>
        (case sequence (map (scalar_from_bytes e) (rs_s sig)) of None \<Rightarrow> False | Some s \<Rightarrow>
        (case scalar_from_bytes e (rs_c0 sig) of None \<Rightarrow> False | Some c0 \<Rightarrow>
          (if ki = 0 then False
           else fold (ring_step e message ring_pubkeys pubkeys s ki) [0..<n] c0 = c0))))))"

definition sign_ring ::
  "('p::ab_group_add, 's::field) crates \<Rightarrow> (nat \<Rightarrow> bytes) \<Rightarrow> bytes \<Rightarrow> bytes list \<Rightarrow> nat \<Rightarrow> private_key \<Rightarrow>
   (string + bytes \<times> key_image_bytes) option" where
  "sign_ring e rng message ring_mems real_index sk =
     (case sign e rng message ring_mems real_index sk of
        None \<Rightarrow> None
      | Some (Inl err) \<Rightarrow> Some (Inl err)
      | Some (Inr (sig, ki)) \<Rightarrow> Some (Inr (ser_ring_sig e sig, ki)))"

definition verify_ring ::
  "('p::ab_group_add, 's::field) crates \<Rightarrow> bytes \<Rightarrow> bytes list \<Rightarrow> bytes \<Rightarrow> key_image_bytes \<Rightarrow> bool" where
  "verify_ring e message ring_mems signature_bytes ki =
     (case de_ring_sig e signature_bytes of
        None \<Rightarrow> False
      | Some sig \<Rightarrow> verify e message ring_mems sig)"

section \<open>The signing loop closes the ring\<close>

lemma mod_shift_inject:
  assumes "(r + a) mod n = (r + b) mod (n :: nat)" "a < b" "b - a < n"
  shows False
proof -
  have "(r + b) mod n = (r + a) mod n" using assms(1) by simp
  then have "n dvd (r + b) - (r + a)"
    using assms(2) by (simp add: mod_eq_dvd_iff_nat)
  then have "n dvd b - a" by simp
  with assms(2,3) show False by (simp add: nat_dvd_not_less)
qed

text \<open>
  After \<open>k\<close> turns (the current member is \<open>real + k\<close>), each member visited so far is linked to the
  next one by its step.
\<close>

definition linked :: "(nat \<Rightarrow> 's \<Rightarrow> 's) \<Rightarrow> nat \<Rightarrow> nat \<Rightarrow> nat \<Rightarrow> 's list \<Rightarrow> bool" where
  "linked f n r k c \<longleftrightarrow>
     length c = n \<and> (\<forall>j. 1 \<le> j \<and> j < k \<longrightarrow> c ! ((r + j + 1) mod n) = f ((r + j) mod n) (c ! ((r + j) mod n)))"

lemma linked_step:
  assumes "linked f n r k c" "1 \<le> k" "k < n" "r < n"
  shows "linked f n r (Suc k) (c[(r + k + 1) mod n := f ((r + k) mod n) (c ! ((r + k) mod n))])"
    (is "linked f n r (Suc k) ?c'")
proof -
  have len: "length c = n" using assms(1) by (simp add: linked_def)
  have n: "0 < n" using assms(4) by simp
  have keep: "?c' ! ((r + j) mod n) = c ! ((r + j) mod n)" if "1 \<le> j" "j \<le> k" for j
  proof -
    have "k + 1 - j < n" using that assms(3) by simp
    then have "(r + k + 1) mod n \<noteq> (r + j) mod n"
      using mod_shift_inject [of r j n "k + 1"] that by auto
    then show ?thesis by simp
  qed
  have "?c' ! ((r + j + 1) mod n) = f ((r + j) mod n) (?c' ! ((r + j) mod n))"
    if j: "1 \<le> j" "j < Suc k" for j
  proof (cases "j = k")
    case True
    with j keep [of k] len n show ?thesis by simp
  next
    case False
    with j have "j < k" by simp
    with assms(1) j have "c ! ((r + j + 1) mod n) = f ((r + j) mod n) (c ! ((r + j) mod n))"
      by (simp add: linked_def)
    moreover have "?c' ! ((r + (j + 1)) mod n) = c ! ((r + (j + 1)) mod n)"
      using \<open>j < k\<close> by (intro keep) simp_all
    moreover have "?c' ! ((r + j) mod n) = c ! ((r + j) mod n)"
      using j by (intro keep) simp_all
    ultimately show ?thesis by (simp only: add.assoc)
  qed
  then show ?thesis using len by (simp add: linked_def)
qed

lemma sign_loop_links:
  "linked f n r k c \<Longrightarrow> 1 \<le> k \<Longrightarrow> k < n \<Longrightarrow> r < n \<Longrightarrow> n - k \<le> fuel \<Longrightarrow>
   \<exists>c'. sign_loop fuel f n r ((r + k) mod n) c = Some c' \<and> linked f n r n c' \<and>
     c' ! ((r + 1) mod n) = c ! ((r + 1) mod n)"
proof (induction fuel arbitrary: k c)
  case 0
  then show ?case by simp
next
  case (Suc fuel)
  let ?c' = "c[(r + k + 1) mod n := f ((r + k) mod n) (c ! ((r + k) mod n))]"
  have nxt: "Suc ((r + k) mod n) mod n = Suc (r + k) mod n" by (rule mod_Suc_eq)
  have l: "linked f n r (Suc k) ?c'" using Suc.prems by (intro linked_step)
  have "(r + k + 1) mod n \<noteq> (r + 1) mod n"
    using mod_shift_inject [of r 1 n "k + 1"] Suc.prems by auto
  then have first: "?c' ! ((r + 1) mod n) = c ! ((r + 1) mod n)" by simp
  show ?case
  proof (cases "Suc k = n")
    case True
    then have "(r + Suc k) mod n = r" using Suc.prems by simp
    then have "sign_loop (Suc fuel) f n r ((r + k) mod n) c = Some ?c'"
      by (simp add: Let_def nxt)
    with l first True show ?thesis by auto
  next
    case False
    with Suc.prems have k: "1 \<le> Suc k" "Suc k < n" "n - Suc k \<le> fuel" by simp_all
    have "(r + Suc k) mod n \<noteq> r"
      using mod_shift_inject [of r 0 n "Suc k"] k Suc.prems by auto
    then have "sign_loop (Suc fuel) f n r ((r + k) mod n) c = sign_loop fuel f n r ((r + Suc k) mod n) ?c'"
      by (simp add: Let_def nxt)
    with Suc.IH [OF l k(1,2) Suc.prems(4) k(3)] first show ?thesis by auto
  qed
qed

lemma fold_around:
  assumes "\<And>i. i < n \<Longrightarrow> c ! ((i + 1) mod n) = g i (c ! i)" "0 < n"
  shows "fold g [0..<n] (c ! 0) = c ! 0"
proof -
  have "fold g [0..<k] (c ! 0) = c ! (k mod n)" if "k \<le> n" for k
    using that
  proof (induction k)
    case (Suc k)
    then have "k < n" by simp
    with Suc assms(1) [of k] show ?case by simp
  qed (use assms in simp)
  from this [of n] show ?thesis by simp
qed

section \<open>Completeness and linkability\<close>

lemma ring_step_real:
  assumes "dalek_laws e" "i < length s" "s ! i = alpha - c * x" "pubkeys ! i = smul e x (basepoint e)"
    and "ki = smul e x (hash_to_point e (ring ! i))"
  shows "ring_step e m ring pubkeys s ki i c =
    hash_challenge e m (smul e alpha (basepoint e)) (smul e alpha (hash_to_point e (ring ! i)))"
proof -
  have "smul e (alpha - c * x) p + smul e c (smul e x p) = smul e alpha p" for p
    using assms(1) by (simp add: group_simps)
  then show ?thesis using assms by (simp add: ring_step_def Let_def)
qed

lemma sign_scalars_close:
  assumes "dalek_laws e" "2 \<le> n" "n = length ring" "r < n" "length pubkeys = n"
    and "pubkeys ! r = smul e x (basepoint e)"
  shows "\<exists>c0 s. sign_ring_scalars e rng m ring pubkeys r x =
      Some (c0, s, smul e x (hash_to_point e (ring ! r))) \<and> length s = n \<and>
      fold (ring_step e m ring pubkeys s (smul e x (hash_to_point e (ring ! r)))) [0..<n] c0 = c0"
proof -
  let ?hp = "hash_to_point e (ring ! r)"
  let ?ki = "smul e x ?hp"
  let ?alpha = "from_bytes_mod_order_wide e (rng 0)"
  let ?s = "map (\<lambda>i. from_bytes_mod_order_wide e (rng (1 + i))) [0..<n]"
  let ?f = "ring_step e m ring pubkeys ?s ?ki"
  let ?first = "hash_challenge e m (smul e ?alpha (basepoint e)) (smul e ?alpha ?hp)"
  let ?c = "(replicate n 0)[(r + 1) mod n := ?first]"
  have l1: "linked ?f n r 1 ?c" by (simp add: linked_def)
  have "1 < n" using assms(2) by simp
  from sign_loop_links [OF l1 _ this assms(4), of n]
  obtain c' where loop: "sign_loop n ?f n r ((r + 1) mod n) ?c = Some c'"
    and l: "linked ?f n r n c'" and first: "c' ! ((r + 1) mod n) = ?c ! ((r + 1) mod n)"
    by auto
  have "(r + 1) mod n < n" using \<open>1 < n\<close> by simp
  then have first': "c' ! ((r + 1) mod n) = ?first" unfolding first by simp
  define s where "s = ?s[r := ?alpha - c' ! r * x]"
  let ?g = "ring_step e m ring pubkeys s ?ki"
  have signed: "sign_ring_scalars e rng m ring pubkeys r x = Some (c' ! 0, s, ?ki)"
    unfolding sign_ring_scalars_def Let_def assms(3) [symmetric] loop option.case s_def by (rule refl)
  have other: "?g i c = ?f i c" if "i \<noteq> r" for i c
    using that by (simp add: ring_step_def s_def Let_def)
  have link: "c' ! ((i + 1) mod n) = ?g i (c' ! i)" if i: "i < n" for i
  proof (cases "i = r")
    case True
    have "?g r (c' ! r) = ?first"
      using assms i by (intro ring_step_real [where x = x]) (simp_all add: s_def)
    with True first' show ?thesis by simp
  next
    case False
    define j where "j = (if r < i then i - r else n + i - r)"
    have j: "1 \<le> j" "j < n" using i False assms(4) by (auto simp: j_def)
    have ri: "(r + j) mod n = i"
      using i False assms(4) by (auto simp: j_def)
    have nxt: "(r + j + 1) mod n = (i + 1) mod n" using ri by (metis mod_add_left_eq)
    have "c' ! ((r + j + 1) mod n) = ?f ((r + j) mod n) (c' ! ((r + j) mod n))"
      using l j unfolding linked_def by blast
    then show ?thesis by (simp only: nxt ri other [OF False])
  qed
  have "fold ?g [0..<n] (c' ! 0) = c' ! 0"
    by (rule fold_around [where c = c' and g = ?g and n = n]) (use link assms(2) in simp_all)
  with signed show ?thesis by (auto simp: s_def)
qed

lemma canonical_scalar:
  "dalek_laws e \<Longrightarrow> scalar_from_bytes e (scalar_to_bytes e y) = Some y"
  by (simp add: scalar_from_bytes_def canonical_to_bytes)

lemma sign_succeeds:
  assumes "dalek_laws e" "2 \<le> length ring" "r < length ring"
    and "\<forall>pk\<in>set ring. decompress e pk \<noteq> None"
    and "decompress e (ring ! r) = Some (smul e x (basepoint e))"
  shows "\<exists>pubkeys c0 s. sequence (map (decompress e) ring) = Some pubkeys \<and>
    sign e rng m ring r (scalar_to_bytes e x) =
      Some (Inr (\<lparr> rs_c0 = scalar_to_bytes e c0, rs_s = map (scalar_to_bytes e) s,
        rs_key_image = compress e (smul e x (hash_to_point e (ring ! r))) \<rparr>,
        compress e (smul e x (hash_to_point e (ring ! r))))) \<and>
    length s = length ring \<and>
    fold (ring_step e m ring pubkeys s (smul e x (hash_to_point e (ring ! r)))) [0..<length ring] c0 = c0"
proof -
  define pubkeys where "pubkeys = map (\<lambda>pk. the (decompress e pk)) ring"
  have pk: "sequence (map (decompress e) ring) = Some pubkeys"
    unfolding pubkeys_def using assms(4) by (intro sequence_map_comp) auto
  have len: "length pubkeys = length ring" by (simp add: pubkeys_def)
  have real: "pubkeys ! r = smul e x (basepoint e)"
    using assms(3,5) by (simp add: pubkeys_def)
  obtain c0 s where sc: "sign_ring_scalars e rng m ring pubkeys r x =
      Some (c0, s, smul e x (hash_to_point e (ring ! r)))"
    and rest: "length s = length ring"
      "fold (ring_step e m ring pubkeys s (smul e x (hash_to_point e (ring ! r)))) [0..<length ring] c0 = c0"
    using sign_scalars_close [OF assms(1,2) refl assms(3) len real] by blast
  show ?thesis
    by (rule exI [of _ pubkeys], rule exI [of _ c0], rule exI [of _ s])
      (use assms(2,3) rest in \<open>simp add: sign_def Let_def canonical_scalar [OF assms(1)] pk sc\<close>)
qed

text \<open>
  C27. Ring signatures are complete: a signer who knows the private key of one member of a ring of
  two or more valid keys always gets a signature (the signing loop ends), the verifier accepts it
  for that message and ring, and the key image returned is the one inside the signature. The key
  image has to be different from the identity, which the verifier rejects.
\<close>

theorem ring_signature_complete:
  assumes "dalek_laws e" "2 \<le> length ring" "r < length ring"
    and "\<forall>pk\<in>set ring. decompress e pk \<noteq> None"
    and "decompress e (ring ! r) = Some (smul e x (basepoint e))"
    and "x \<noteq> 0" "hash_to_point e (ring ! r) \<noteq> 0"
  shows "\<exists>sig. sign e rng m ring r (scalar_to_bytes e x) = Some (Inr (sig, rs_key_image sig)) \<and>
    rs_key_image sig = compress e (smul e x (hash_to_point e (ring ! r))) \<and> verify e m ring sig"
proof -
  let ?ki = "smul e x (hash_to_point e (ring ! r))"
  obtain pubkeys c0 s where pk: "sequence (map (decompress e) ring) = Some pubkeys"
    and sg: "sign e rng m ring r (scalar_to_bytes e x) =
      Some (Inr (\<lparr> rs_c0 = scalar_to_bytes e c0, rs_s = map (scalar_to_bytes e) s,
        rs_key_image = compress e ?ki \<rparr>, compress e ?ki))"
    and len: "length s = length ring"
    and close: "fold (ring_step e m ring pubkeys s ?ki) [0..<length ring] c0 = c0"
    using sign_succeeds [OF assms(1-5)] by blast
  let ?sig = "\<lparr> rs_c0 = scalar_to_bytes e c0, rs_s = map (scalar_to_bytes e) s,
      rs_key_image = compress e ?ki \<rparr>"
  have ss: "sequence (map (scalar_from_bytes e) (map (scalar_to_bytes e) s)) = Some s"
    by (simp add: comp_def canonical_scalar [OF assms(1)] sequence_map_Some [where ys = s, simplified])
  have ki: "?ki \<noteq> 0" using assms(6,7) by (simp add: smul_eq_zero_iff [OF assms(1)])
  have "verify e m ring ?sig"
    using assms(2) ki len close
    by (simp add: verify_def Let_def pk ss canonical_scalar [OF assms(1)]
        decompress_compress [OF assms(1)] del: map_map)
  with sg show ?thesis by (intro exI [of _ ?sig]) simp
qed

theorem ring_signature_complete_witness:
  "\<exists>sig. sign demo (\<lambda>i. [of_nat i]) [7, 9] [gf3_bytes Z1, gf3_bytes Z2, gf3_bytes Z1] 1
      (scalar_to_bytes demo Z2) = Some (Inr (sig, rs_key_image sig)) \<and>
    rs_key_image sig = compress demo (smul demo Z2 (hash_to_point demo
      ([gf3_bytes Z1, gf3_bytes Z2, gf3_bytes Z1] ! 1))) \<and>
    verify demo [7, 9] [gf3_bytes Z1, gf3_bytes Z2, gf3_bytes Z1] sig"
  by (rule ring_signature_complete [OF demo_dalek])
    (simp_all add: demo_def hash_to_point_def zero_gf3_def)

text \<open>What \<open>sign\<close> returns when it succeeds, whatever the ring around the real member.\<close>

lemma sign_key_image:
  assumes "sign e rng m ring r sk = Some (Inr (sig, ki))"
  shows "\<exists>x. scalar_from_bytes e sk = Some x \<and>
    ki = compress e (smul e x (hash_to_point e (ring ! r))) \<and> rs_key_image sig = ki"
  using assms
  by (auto simp: sign_def sign_ring_scalars_def Let_def split: if_splits option.splits)

text \<open>
  Ring signatures are linkable: two signatures made with the same private key for the same
  output key carry the same key image, whatever the messages, the decoys, the position of the real
  member and the random draws. This is what lets the chain refuse the second spend.
\<close>

theorem key_image_linkable:
  assumes "sign e rng m ring r sk = Some (Inr (sig, ki))"
    and "sign e rng' m' ring' r' sk = Some (Inr (sig', ki'))"
    and "ring ! r = ring' ! r'"
  shows "ki = ki' \<and> rs_key_image sig = rs_key_image sig'"
  using sign_key_image [OF assms(1)] sign_key_image [OF assms(2)] assms(3) by auto

theorem key_image_linkable_witness:
  "\<exists>sig sig' ki. sign demo (\<lambda>_. [1]) [7] [gf3_bytes Z1, gf3_bytes Z2] 1 (gf3_bytes Z2) = Some (Inr (sig, ki))
    \<and> sign demo (\<lambda>_. [2]) [8] [gf3_bytes Z2, gf3_bytes Z0, gf3_bytes Z1] 0 (gf3_bytes Z2) = Some (Inr (sig', ki))
    \<and> rs_key_image sig = rs_key_image sig'"
proof -
  obtain sig ki where a': "sign demo (\<lambda>_. [1]) [7] [gf3_bytes Z1, gf3_bytes Z2] 1 (gf3_bytes Z2)
      = Some (Inr (sig, ki))"
    using sign_succeeds [OF demo_dalek, of "[gf3_bytes Z1, gf3_bytes Z2]" 1 Z2 "\<lambda>_. [1]" "[7]"]
    by (auto simp del: gf3_bytes.simps)
  obtain sig' ki' where b': "sign demo (\<lambda>_. [2]) [8] [gf3_bytes Z2, gf3_bytes Z0, gf3_bytes Z1] 0
      (gf3_bytes Z2) = Some (Inr (sig', ki'))"
    using sign_succeeds [OF demo_dalek, of "[gf3_bytes Z2, gf3_bytes Z0, gf3_bytes Z1]" 0 Z2 "\<lambda>_. [2]" "[8]"]
    by (auto simp del: gf3_bytes.simps)
  have "ki = ki' \<and> rs_key_image sig = rs_key_image sig'"
    by (rule key_image_linkable [OF a' b']) simp
  with a' b' show ?thesis by blast
qed

end
