(* ===== verification/Stealth.thy ===== *)
theory Stealth
  imports Ringct
begin

text \<open>
  \<open>src/src/crypto/stealth.rs\<close>: one-time output keys. The sender derives \<open>P = H_n(H_s(r B), i) G + S\<close>
  and publishes \<open>R = r G\<close>; the recipient recomputes it from \<open>a R\<close>.
\<close>

definition hash_shared_secret :: "('p, 's) crates \<Rightarrow> 'p \<Rightarrow> 's" where
  "hash_shared_secret e point =
     from_bytes_mod_order_wide e (sha3_512 e (str_bytes ''CipherX_stealth_hs'' @ compress e point))"

definition hash_output_index :: "('p, 's) crates \<Rightarrow> 's \<Rightarrow> u32 \<Rightarrow> 's" where
  "hash_output_index e shared_secret output_index =
     from_bytes_mod_order_wide e
       (sha3_512 e (str_bytes ''CipherX_stealth_hn'' @ scalar_to_bytes e shared_secret
          @ u32_to_le output_index))"

record 's stealth_output_keys =
  sk_tx_pubkey :: bytes
  sk_one_time_pubkey :: bytes
  sk_shared_secret :: 's

definition generate_output ::
  "('p::ab_group_add, 's::field) crates \<Rightarrow> bytes \<Rightarrow> stealth_address \<Rightarrow> u32 \<Rightarrow>
   string + 's stealth_output_keys" where
  "generate_output e draw recipient output_index =
     (case decompress e (public_spend recipient) of
        None \<Rightarrow> Inl ''Invalid recipient spend key''
      | Some b_spend \<Rightarrow>
     (case decompress e (public_view recipient) of
        None \<Rightarrow> Inl ''Invalid recipient view key''
      | Some b_view \<Rightarrow>
          (let r = from_bytes_mod_order_wide e draw;
               r_point = smul e r (basepoint e);
               s = hash_shared_secret e (smul e r b_view);
               s_i = hash_output_index e s output_index;
               one_time_pk = smul e s_i (basepoint e) + b_spend in
           Inr \<lparr> sk_tx_pubkey = compress e r_point, sk_one_time_pubkey = compress e one_time_pk,
                 sk_shared_secret = s_i \<rparr>)))"

definition scan_output ::
  "('p::ab_group_add, 's::field) crates \<Rightarrow> bytes \<Rightarrow> bytes \<Rightarrow> u32 \<Rightarrow> view_key \<Rightarrow> public_key \<Rightarrow>
   bytes option" where
  "scan_output e tx_pub output_pubkey output_index vk spend_pubkey =
     (case decompress e tx_pub of None \<Rightarrow> None | Some r_point \<Rightarrow>
     (case decompress e spend_pubkey of None \<Rightarrow> None | Some b_spend \<Rightarrow>
     (case scalar_from_bytes e vk of None \<Rightarrow> None | Some a \<Rightarrow>
        (let s = hash_shared_secret e (smul e a r_point);
             s_i = hash_output_index e s output_index;
             expected_pk = compress e (smul e s_i (basepoint e) + b_spend) in
         if expected_pk = output_pubkey then Some (scalar_to_bytes e s_i) else None))))"

definition derive_spend_key ::
  "('p, 's::field) crates \<Rightarrow> bytes \<Rightarrow> private_key \<Rightarrow> bytes option" where
  "derive_spend_key e s_i_bytes private_spend_key =
     (case scalar_from_bytes e s_i_bytes of None \<Rightarrow> None | Some s_i \<Rightarrow>
     (case scalar_from_bytes e private_spend_key of None \<Rightarrow> None | Some b \<Rightarrow>
        Some (scalar_to_bytes e (s_i + b))))"

record key_pair =
  private_spend :: private_key
  private_view :: view_key
  kp_public_spend :: public_key
  kp_public_view :: public_key
  kp_address :: stealth_address

definition generate_keypair ::
  "('p::ab_group_add, 's::field) crates \<Rightarrow> bytes \<Rightarrow> bytes \<Rightarrow> key_pair" where
  "generate_keypair e draw draw2 =
     (let spend_scalar = from_bytes_mod_order_wide e draw;
          pub_spend = compress e (smul e spend_scalar (basepoint e));
          view_bytes = sha3_256 e (str_bytes ''CipherX_view_key'' @ scalar_to_bytes e spend_scalar);
          view_scalar = (case from_canonical_bytes e view_bytes of
                           Some v \<Rightarrow> v | None \<Rightarrow> from_bytes_mod_order_wide e draw2);
          pub_view = compress e (smul e view_scalar (basepoint e)) in
      \<lparr> private_spend = scalar_to_bytes e spend_scalar, private_view = scalar_to_bytes e view_scalar,
        kp_public_spend = pub_spend, kp_public_view = pub_view,
        kp_address = \<lparr> public_spend = pub_spend, public_view = pub_view \<rparr> \<rparr>)"

section \<open>Addresses with known keys\<close>

text \<open>The address of the spend scalar \<open>b\<close> and the view scalar \<open>a\<close>.\<close>

definition address_of :: "('p::ab_group_add, 's::field) crates \<Rightarrow> 's \<Rightarrow> 's \<Rightarrow> stealth_address" where
  "address_of e b a =
     \<lparr> public_spend = compress e (smul e b (basepoint e)),
       public_view = compress e (smul e a (basepoint e)) \<rparr>"

lemma generate_keypair_address:
  "\<exists>b a. kp_address (generate_keypair e d d') = address_of e b a \<and>
     private_spend (generate_keypair e d d') = scalar_to_bytes e b \<and>
     private_view (generate_keypair e d d') = scalar_to_bytes e a \<and>
     kp_public_spend (generate_keypair e d d') = public_spend (address_of e b a)"
  by (auto simp: generate_keypair_def address_of_def Let_def)

definition one_time_secret :: "('p::ab_group_add, 's::field) crates \<Rightarrow> 's \<Rightarrow> 's \<Rightarrow> u32 \<Rightarrow> 's" where
  "one_time_secret e r a i =
     hash_output_index e (hash_shared_secret e (smul e (a * r) (basepoint e))) i"

lemma generate_output_address:
  assumes "dalek_laws e"
  shows "generate_output e draw (address_of e b a) i =
    Inr \<lparr> sk_tx_pubkey = compress e (smul e (from_bytes_mod_order_wide e draw) (basepoint e)),
      sk_one_time_pubkey =
        compress e (smul e (one_time_secret e (from_bytes_mod_order_wide e draw) a i + b) (basepoint e)),
      sk_shared_secret = one_time_secret e (from_bytes_mod_order_wide e draw) a i \<rparr>"
  using assms
  by (simp add: generate_output_def address_of_def decompress_compress one_time_secret_def Let_def
      smul_add_left mult.commute flip: smul_mult)

lemma scan_output_address:
  assumes "dalek_laws e"
  shows "scan_output e (compress e (smul e r (basepoint e))) pk i (scalar_to_bytes e a)
      (public_spend (address_of e b a')) =
    (if compress e (smul e (one_time_secret e r a i + b) (basepoint e)) = pk
     then Some (scalar_to_bytes e (one_time_secret e r a i)) else None)"
  using assms
  by (simp add: scan_output_def address_of_def decompress_compress one_time_secret_def Let_def
      scalar_from_bytes_def canonical_to_bytes smul_add_left flip: smul_mult)

lemma derive_spend_key_scalars:
  "dalek_laws e \<Longrightarrow>
   derive_spend_key e (scalar_to_bytes e s) (scalar_to_bytes e b) = Some (scalar_to_bytes e (s + b))"
  by (simp add: derive_spend_key_def scalar_from_bytes_def canonical_to_bytes)

text \<open>
  C28. Stealth payments reach their recipient: whatever the random draws of both sides, an output
  that a sender makes for the address of a generated key pair is recognised by the recipient's
  scan with its view key, the key derived from the scan opens the one-time key on chain, and the
  recipient decrypts the amount that the sender encrypted.
\<close>

theorem stealth_payment_received:
  assumes "dalek_laws e" "aead_laws e"
  shows "let kp = generate_keypair e d d' in
    \<exists>ok s_i x x_bytes.
      generate_output e draw (kp_address kp) i = Inr ok \<and>
      scan_output e (sk_tx_pubkey ok) (sk_one_time_pubkey ok) i (private_view kp) (kp_public_spend kp)
        = Some s_i \<and>
      derive_spend_key e s_i (private_spend kp) = Some x_bytes \<and>
      scalar_from_bytes e x_bytes = Some x \<and>
      sk_one_time_pubkey ok = compress e (smul e x (basepoint e)) \<and>
      (\<exists>s. scalar_from_bytes e s_i = Some s \<and>
        decrypt_amount e (encrypt_amount e v (sk_shared_secret ok)) s = Some v)"
proof -
  obtain b a where k: "kp_address (generate_keypair e d d') = address_of e b a"
    "private_spend (generate_keypair e d d') = scalar_to_bytes e b"
    "private_view (generate_keypair e d d') = scalar_to_bytes e a"
    "kp_public_spend (generate_keypair e d d') = public_spend (address_of e b a)"
    using generate_keypair_address by blast
  show ?thesis
    using assms(1)
    by (simp add: Let_def k generate_output_address scan_output_address derive_spend_key_scalars
        scalar_from_bytes_def canonical_to_bytes decrypt_encrypt_amount [OF assms(2)])
qed

theorem stealth_payment_received_witness:
  "let kp = generate_keypair demo [2] [1] in
    \<exists>ok s_i x x_bytes.
      generate_output demo [1] (kp_address kp) 3 = Inr ok \<and>
      scan_output demo (sk_tx_pubkey ok) (sk_one_time_pubkey ok) 3 (private_view kp) (kp_public_spend kp)
        = Some s_i \<and>
      derive_spend_key demo s_i (private_spend kp) = Some x_bytes \<and>
      scalar_from_bytes demo x_bytes = Some x \<and>
      sk_one_time_pubkey ok = compress demo (smul demo x (basepoint demo)) \<and>
      (\<exists>s. scalar_from_bytes demo s_i = Some s \<and>
        decrypt_amount demo (encrypt_amount demo 77 (sk_shared_secret ok)) s = Some 77)"
  by (rule stealth_payment_received [OF demo_dalek demo_aead])

text \<open>
  Nobody else's scan reports the output: a wallet with any view scalar \<open>a'\<close> and spend scalar
  \<open>b'\<close> recognises an output made for the address of \<open>a\<close> and \<open>b\<close> exactly when its own derived
  one-time key is the very same scalar, which for a foreign key needs a collision of the hashes.
  In particular an output for the same view key and another spend key is not reported.
\<close>

theorem stealth_scan_exact:
  assumes "dalek_laws e" "basepoint e \<noteq> 0"
    and "generate_output e draw (address_of e b a) i = Inr ok"
  shows "scan_output e (sk_tx_pubkey ok) (sk_one_time_pubkey ok) i (scalar_to_bytes e a')
      (public_spend (address_of e b' a'')) \<noteq> None \<longleftrightarrow>
    one_time_secret e (from_bytes_mod_order_wide e draw) a' i + b' =
    one_time_secret e (from_bytes_mod_order_wide e draw) a i + b"
proof -
  have g: "smul e x (basepoint e) = smul e y (basepoint e) \<longleftrightarrow> x = y" for x y
    using smul_eq_zero_iff [OF assms(1), of "x - y" "basepoint e"] assms(2)
    by (simp add: smul_diff_left [OF assms(1)])
  show ?thesis
    using assms(1,3)
    by (auto simp: generate_output_address scan_output_address compress_inject g split: if_splits)
qed

theorem stealth_scan_exact_witness:
  "\<exists>ok. generate_output demo [1] (address_of demo Z2 Z2) 0 = Inr ok \<and>
    (scan_output demo (sk_tx_pubkey ok) (sk_one_time_pubkey ok) 0 (scalar_to_bytes demo Z2)
      (public_spend (address_of demo Z1 Z0)) \<noteq> None \<longleftrightarrow>
    one_time_secret demo (from_bytes_mod_order_wide demo [1]) Z2 0 + Z1 =
    one_time_secret demo (from_bytes_mod_order_wide demo [1]) Z2 0 + Z2)"
proof -
  have nz: "basepoint demo \<noteq> 0" by (simp add: zero_gf3_def)
  obtain ok where ok: "generate_output demo [1] (address_of demo Z2 Z2) 0 = Inr ok"
    using generate_output_address [OF demo_dalek] by blast
  with stealth_scan_exact [OF demo_dalek nz ok] show ?thesis by blast
qed

end
