(* ===== verification/Tx.thy ===== *)
theory Tx
  imports RangeProof RingSig Stealth
begin

text \<open>
  The operations of \<open>src/src/core/transaction.rs\<close>: the commitment hash, the three verification
  layers, the lite transactions of the bot wallet and the coinbase. Rayon's \<open>par_iter().all\<close> over
  independent checks is the conjunction of the checks.
\<close>

definition commitment_hash :: "('p, 's) crates \<Rightarrow> transaction \<Rightarrow> bytes" where
  "commitment_hash e tx = sha3_256 e (ser_tx e tx)"

definition tx_ident :: "('p, 's) crates \<Rightarrow> transaction \<Rightarrow> tx_id" where
  "tx_ident e tx = commitment_hash e tx"

definition tx_verify_balance :: "('p::ab_group_add, 's::field) crates \<Rightarrow> transaction \<Rightarrow> bool" where
  "tx_verify_balance e tx =
     verify_balance e (map pseudo_commitment (inputs tx)) (map amount_commitment (outputs tx))
       (fee_commitment tx)"

definition verify_ring_signatures :: "('p::ab_group_add, 's::field) crates \<Rightarrow> transaction \<Rightarrow> bool" where
  "verify_ring_signatures e tx =
     (let msg = commitment_hash e tx in
      list_all (\<lambda>i. verify_ring e msg (ring_members i) (ring_signature i) (key_image i)) (inputs tx))"

definition verify_range_proofs :: "('p::ab_group_add, 's::field) crates \<Rightarrow> transaction \<Rightarrow> bool" where
  "verify_range_proofs e tx =
     list_all (\<lambda>out. verify_range e (amount_commitment out) (range_proof out)) (outputs tx)"

definition tx_verify :: "('p::ab_group_add, 's::field) crates \<Rightarrow> transaction \<Rightarrow> bool" where
  "tx_verify e tx =
     (if tx_type tx = Coinbase then True
      else if tx_type tx = Lite then True
      else tx_verify_balance e tx \<and> verify_ring_signatures e tx \<and> verify_range_proofs e tx)"

definition from_lite_raw :: "('p, 's) crates \<Rightarrow> string \<Rightarrow> transaction option" where
  "from_lite_raw e json_str =
     (case json_lite e json_str of None \<Rightarrow> None | Some lite \<Rightarrow>
     (case hex_decode e (lite_tx_pubkey lite) of None \<Rightarrow> None | Some tx_pk \<Rightarrow>
      if length tx_pk \<noteq> 32 then None else
     (case hex_decode e (lite_one_time_pubkey lite) of None \<Rightarrow> None | Some ot_pk \<Rightarrow>
      if length ot_pk \<noteq> 32 then None else
     (case hex_decode e (lite_encrypted_amount lite) of None \<Rightarrow> None | Some enc_amt \<Rightarrow>
      Some \<lparr> tx_type = Lite, inputs = [],
             outputs = [\<lparr> one_time_pubkey = ot_pk, tx_pubkey = tx_pk, amount_commitment = zeros 32,
                          encrypted_amount = enc_amt, range_proof = [] \<rparr>],
             fee_commitment = zeros 32, fee_proof = [], extra = str_bytes json_str, version = 1 \<rparr>))))"

definition coinbase_placeholder :: "u64 \<Rightarrow> transaction" where
  "coinbase_placeholder height =
     \<lparr> tx_type = Coinbase, inputs = [],
       outputs = [\<lparr> one_time_pubkey = zeros 32, tx_pubkey = zeros 32, amount_commitment = zeros 32,
                    encrypted_amount = u64_to_le height, range_proof = [] \<rparr>],
       fee_commitment = zeros 32, fee_proof = [], extra = [], version = 1 \<rparr>"

text \<open>
  The draws of \<open>build_coinbase\<close>, in order: one for the stealth output, one for the blinding, then
  those of the range proof.
\<close>

definition build_coinbase ::
  "('p::ab_group_add, 's::field) crates \<Rightarrow> bytes \<Rightarrow> bytes \<Rightarrow> (nat \<Rightarrow> bytes) \<Rightarrow> stealth_address \<Rightarrow> u64 \<Rightarrow>
   u64 \<Rightarrow> transaction option" where
  "build_coinbase e draw_out draw_blind rng reward_address amount height =
     (case generate_output e draw_out reward_address 0 of
        Inl _ \<Rightarrow> Some (coinbase_placeholder height)
      | Inr ok \<Rightarrow>
          (case commit_random e draw_blind amount of
             None \<Rightarrow> None
           | Some cd \<Rightarrow>
               (let proof_bytes = (case prove_range e rng amount (cwb_blinding cd) of
                                     Some pf \<Rightarrow> pf | None \<Rightarrow> []) in
                Some \<lparr> tx_type = Coinbase, inputs = [],
                       outputs = [\<lparr> one_time_pubkey = sk_one_time_pubkey ok,
                                    tx_pubkey = sk_tx_pubkey ok,
                                    amount_commitment = cwb_commitment cd,
                                    encrypted_amount = encrypt_amount e amount (sk_shared_secret ok),
                                    range_proof = proof_bytes \<rparr>],
                       fee_commitment = zeros 32, fee_proof = [],
                       extra = str_bytes ''coinbase'' @ u64_to_le height, version = 1 \<rparr>)))"

section \<open>Lemmas\<close>

lemma from_lite_raw_shape:
  assumes "from_lite_raw e s = Some tx"
  shows "tx_type tx = Lite \<and> inputs tx = [] \<and> extra tx = str_bytes s \<and>
    (\<exists>out. outputs tx = [out] \<and> length (one_time_pubkey out) = 32 \<and> length (tx_pubkey out) = 32)"
  using assms by (auto simp: from_lite_raw_def split: option.splits if_splits)

lemma from_lite_raw_verifies: "from_lite_raw e s = Some tx \<Longrightarrow> tx_verify e tx"
  using from_lite_raw_shape [of e s tx] by (simp add: tx_verify_def)

lemma build_coinbase_type:
  "build_coinbase e d d' rng a v h = Some tx \<Longrightarrow>
   tx_type tx = Coinbase \<and> inputs tx = [] \<and> length (outputs tx) = 1 \<and> tx_verify e tx"
  by (auto simp: build_coinbase_def coinbase_placeholder_def Let_def tx_verify_def
      split: sum.splits option.splits)

lemma range_proof_for_scalar:
  assumes "dalek_laws e" "\<forall>bs. length (sha3_256 e bs) = 32"
  shows "\<exists>pf. prove_range e rng v (scalar_to_bytes e r) = Some pf \<and>
    verify_range e (compress e (pedersen e (amount_scalar v) r)) pf"
  using prove_range_verifies [OF assms, of v r rng] commit_scalar [OF assms(1), of v r] by simp

text \<open>
  The block reward reaches the validator: for the address of any generated key pair, the
  coinbase of a block is built, passes verification, its single output is recognised by the
  validator's scan at index 0, the scanned secret decrypts exactly the reward, and the range proof
  on the committed reward verifies.
\<close>

theorem coinbase_pays_validator:
  assumes "dalek_laws e" "aead_laws e" "\<forall>bs. length (sha3_256 e bs) = 32"
  shows "let kp = generate_keypair e d d' in
    \<exists>tx out s_i s. build_coinbase e draw_out draw_blind rng (kp_address kp) reward height = Some tx \<and>
      tx_type tx = Coinbase \<and> tx_verify e tx \<and> outputs tx = [out] \<and>
      scan_output e (tx_pubkey out) (one_time_pubkey out) 0 (private_view kp) (kp_public_spend kp)
        = Some s_i \<and>
      scalar_from_bytes e s_i = Some s \<and> decrypt_amount e (encrypted_amount out) s = Some reward \<and>
      verify_range e (amount_commitment out) (range_proof out)"
proof -
  obtain b a where k: "kp_address (generate_keypair e d d') = address_of e b a"
    "private_view (generate_keypair e d d') = scalar_to_bytes e a"
    "kp_public_spend (generate_keypair e d d') = public_spend (address_of e b a)"
    using generate_keypair_address by blast
  obtain pf where pf: "prove_range e rng reward
      (scalar_to_bytes e (from_bytes_mod_order_wide e draw_blind)) = Some pf"
    "verify_range e (compress e (pedersen e (amount_scalar reward)
      (from_bytes_mod_order_wide e draw_blind))) pf"
    using range_proof_for_scalar [OF assms(1,3)] by blast
  show ?thesis
    using assms(1) pf
    by (simp add: Let_def k build_coinbase_def generate_output_address commit_random_total
        scan_output_address tx_verify_def scalar_from_bytes_def canonical_to_bytes
        decrypt_encrypt_amount [OF assms(2)])
qed

theorem coinbase_pays_validator_witness:
  "let kp = generate_keypair demo [2] [1] in
    \<exists>tx out s_i s. build_coinbase demo [1] [2] (\<lambda>i. [of_nat i]) (kp_address kp) 4000000 7 = Some tx \<and>
      tx_type tx = Coinbase \<and> tx_verify demo tx \<and> outputs tx = [out] \<and>
      scan_output demo (tx_pubkey out) (one_time_pubkey out) 0 (private_view kp) (kp_public_spend kp)
        = Some s_i \<and>
      scalar_from_bytes demo s_i = Some s \<and> decrypt_amount demo (encrypted_amount out) s = Some 4000000 \<and>
      verify_range demo (amount_commitment out) (range_proof out)"
  by (rule coinbase_pays_validator [OF demo_dalek demo_aead]) simp

text \<open>The fee commitment that makes a list of output points balance against no input at all.\<close>

definition unbacked_transfer ::
  "('p::ab_group_add, 's::field) crates \<Rightarrow> stealth_output \<Rightarrow> 's \<Rightarrow> u64 \<Rightarrow> transaction" where
  "unbacked_transfer e out r v =
     \<lparr> tx_type = Transfer, inputs = [], outputs = [out],
       fee_commitment = compress e (- pedersen e (amount_scalar v) r),
       fee_proof = [], extra = [], version = 1 \<rparr>"

lemma unbacked_transfer_balances:
  assumes "dalek_laws e" "amount_commitment out = compress e (pedersen e (amount_scalar v) r)"
  shows "tx_verify_balance e (unbacked_transfer e out r v)"
  using verify_balance_compressed [OF assms(1), of "[]" "[pedersen e (amount_scalar v) r]"
      "- pedersen e (amount_scalar v) r"] assms(2)
  by (simp add: tx_verify_balance_def unbacked_transfer_def)

lemma unbacked_transfer_exists:
  assumes "dalek_laws e" "\<forall>bs. length (sha3_256 e bs) = 32"
  shows "\<exists>tx out. tx_type tx = Transfer \<and> inputs tx = [] \<and> outputs tx = [out] \<and>
    commit e v (scalar_to_bytes e r) = Some (amount_commitment out) \<and>
    verify_range e (amount_commitment out) (range_proof out) \<and> tx_verify e tx"
proof -
  obtain pf where pf: "verify_range e (compress e (pedersen e (amount_scalar v) r)) pf"
    using range_proof_for_scalar [OF assms] by blast
  let ?out = "\<lparr> one_time_pubkey = zeros 32, tx_pubkey = zeros 32,
      amount_commitment = compress e (pedersen e (amount_scalar v) r), encrypted_amount = [],
      range_proof = pf \<rparr>"
  let ?tx = "unbacked_transfer e ?out r v"
  have fields: "tx_type ?tx = Transfer" "inputs ?tx = []" "outputs ?tx = [?out]"
    by (simp_all add: unbacked_transfer_def)
  have "tx_verify_balance e ?tx" by (rule unbacked_transfer_balances [OF assms(1)]) simp
  then have "tx_verify e ?tx"
    using pf by (simp add: tx_verify_def fields verify_ring_signatures_def verify_range_proofs_def Let_def)
  with fields pf commit_scalar [OF assms(1), of v r] show ?thesis
    by (intro exI [of _ ?tx] exI [of _ ?out]) simp
qed

end
