(* ===== verification/Keys.thy ===== *)
theory Keys
  imports Crates
begin

text \<open>
  \<open>src/src/crypto/keys.rs\<close>: validator commitments, their Ed25519 signatures and the printed
  stealth address.
\<close>

definition vc_from_public_key :: "('p, 's) crates \<Rightarrow> bytes \<Rightarrow> validator_commitment" where
  "vc_from_public_key e pubkey =
     \<lparr> vc_public_key = pubkey,
       vc_nullifier = sha3_256 e (pubkey @ str_bytes ''CipherX_nullifier'') \<rparr>"

definition vc_placeholder :: validator_commitment where
  "vc_placeholder = \<lparr> vc_public_key = zeros 32, vc_nullifier = zeros 32 \<rparr>"

definition vc_verify :: "validator_commitment \<Rightarrow> bool" where
  "vc_verify c = True"

definition vc_verify_signature ::
  "('p, 's) crates \<Rightarrow> validator_commitment \<Rightarrow> bytes \<Rightarrow> bytes \<Rightarrow> bool" where
  "vc_verify_signature e c message signature =
     (if length signature \<noteq> 64 then False
      else if \<not> ed_key_ok e (vc_public_key c) then False
      else ed_verify e (vc_public_key c) message signature)"

text \<open>
  \<open>PrivateKey::generate\<close>: the 32 bytes drawn for an Ed25519 key. They are the seed of that key, not
  its scalar.
\<close>

definition private_key_generate :: "bytes \<Rightarrow> private_key" where
  "private_key_generate seed = seed"

record validator_keypair =
  kp_signing_key :: bytes
  kp_commitment :: validator_commitment

definition vk_generate :: "('p, 's) crates \<Rightarrow> bytes \<Rightarrow> validator_keypair" where
  "vk_generate e signing_key =
     \<lparr> kp_signing_key = signing_key,
       kp_commitment = vc_from_public_key e (ed_public e signing_key) \<rparr>"

definition vk_sign :: "('p, 's) crates \<Rightarrow> validator_keypair \<Rightarrow> bytes \<Rightarrow> bytes" where
  "vk_sign e kp message = ed_sign e (kp_signing_key kp) message"

definition address_to_string :: "('p, 's) crates \<Rightarrow> stealth_address \<Rightarrow> string" where
  "address_to_string e a = ''CX1'' @ hex_encode e (public_spend a @ public_view a)"

text \<open>What \<open>ed25519-dalek\<close> promises: keys parse, signatures have 64 bytes and verify.\<close>

definition ed_laws :: "('p, 's) crates \<Rightarrow> bool" where
  "ed_laws e \<longleftrightarrow>
     (\<forall>sk. ed_key_ok e (ed_public e sk)) \<and>
     (\<forall>sk m. length (ed_sign e sk m) = 64) \<and>
     (\<forall>sk m. ed_verify e (ed_public e sk) m (ed_sign e sk m))"

lemma sign_verifies:
  "ed_laws e \<Longrightarrow>
   vc_verify_signature e (kp_commitment (vk_generate e sk)) m (vk_sign e (vk_generate e sk) m)"
  by (simp add: ed_laws_def vc_verify_signature_def vk_generate_def vk_sign_def vc_from_public_key_def)

lemma short_signature_rejected: "length sig \<noteq> 64 \<Longrightarrow> \<not> vc_verify_signature e c m sig"
  by (simp add: vc_verify_signature_def)

end
