(* ===== verification/Merkle.thy ===== *)
theory Merkle
  imports Tx Keys
begin

text \<open>
  \<open>src/src/core/block.rs\<close>: the block hash, the genesis block and the Merkle root of the
  transactions. The loop that halves a level until one node is left is shared with the state root
  of \<open>evm/private_state.rs\<close>; here it takes the node function as an argument.
\<close>

section \<open>The tree\<close>

text \<open>One level: neighbours are paired, an odd last leaf is paired with itself.\<close>

fun merkle_level :: "('a \<Rightarrow> 'a \<Rightarrow> 'a) \<Rightarrow> 'a list \<Rightarrow> 'a list" where
  "merkle_level node [] = []"
| "merkle_level node [x] = [node x x]"
| "merkle_level node (x # y # zs) = node x y # merkle_level node zs"

lemma length_merkle_level: "length (merkle_level node xs) = (length xs + 1) div 2"
  by (induction node xs rule: merkle_level.induct) auto

function merkle_root :: "('a \<Rightarrow> 'a \<Rightarrow> 'a) \<Rightarrow> 'a list \<Rightarrow> 'a list" where
  "merkle_root node leaves =
     (if 1 < length leaves then merkle_root node (merkle_level node leaves) else leaves)"
  by auto
termination
  by (relation "measure (\<lambda>(node, leaves). length leaves)") (auto simp: length_merkle_level)

declare merkle_root.simps [simp del]

lemma merkle_root_single: "merkle_root node [x] = [x]"
  by (simp add: merkle_root.simps)

lemma merkle_root_step: "1 < length xs \<Longrightarrow> merkle_root node xs = merkle_root node (merkle_level node xs)"
  by (simp add: merkle_root.simps)

lemma length_merkle_root: "xs \<noteq> [] \<Longrightarrow> length (merkle_root node xs) = 1"
proof (induction node xs rule: merkle_root.induct)
  case (1 node leaves)
  show ?case
  proof (cases "1 < length leaves")
    case True
    then have "merkle_level node leaves \<noteq> []"
      by (cases "(node, leaves)" rule: merkle_level.cases) auto
    with 1 True show ?thesis by (simp add: merkle_root_step)
  next
    case False
    with 1 show ?thesis by (cases leaves) (auto simp: merkle_root_single)
  qed
qed

text \<open>The pairs of nodes that the construction of a root hashes, level by level.\<close>

fun level_pairs :: "'a list \<Rightarrow> ('a \<times> 'a) list" where
  "level_pairs [] = []"
| "level_pairs [x] = [(x, x)]"
| "level_pairs (x # y # zs) = (x, y) # level_pairs zs"

lemma merkle_level_pairs: "merkle_level node xs = map (case_prod node) (level_pairs xs)"
  by (induction node xs rule: merkle_level.induct) auto

lemma level_pairs_inject:
  "length xs = length ys \<Longrightarrow> level_pairs xs = level_pairs ys \<Longrightarrow> xs = ys"
proof (induction xs arbitrary: ys rule: level_pairs.induct)
  case (2 x)
  then obtain y where "ys = [y]" by (cases ys) auto
  with 2 show ?case by simp
next
  case (3 x y zs)
  then obtain x' y' zs' where "ys = x' # y' # zs'" by (metis length_Suc_conv)
  with 3 show ?case by auto
qed simp

function tree_pairs :: "('a \<Rightarrow> 'a \<Rightarrow> 'a) \<Rightarrow> 'a list \<Rightarrow> ('a \<times> 'a) list" where
  "tree_pairs node leaves =
     (if 1 < length leaves then level_pairs leaves @ tree_pairs node (merkle_level node leaves) else [])"
  by auto
termination
  by (relation "measure (\<lambda>(node, leaves). length leaves)") (auto simp: length_merkle_level)

declare tree_pairs.simps [simp del]

lemma tree_pairs_step:
  "1 < length xs \<Longrightarrow> tree_pairs node xs = level_pairs xs @ tree_pairs node (merkle_level node xs)"
  by (simp add: tree_pairs.simps)

lemma tree_pairs_two: "tree_pairs node [x, y] = [(x, y)]"
  by (simp add: tree_pairs.simps)

text \<open>
  Two sets of leaves of the same size with the same root are the same, as long as the node
  function does not collide on the pairs that the two constructions hash.
\<close>

lemma merkle_root_inject:
  "length xs = length ys \<Longrightarrow> merkle_root node xs = merkle_root node ys \<Longrightarrow>
   inj_on (case_prod node) (set (tree_pairs node xs) \<union> set (tree_pairs node ys)) \<Longrightarrow> xs = ys"
proof (induction node xs arbitrary: ys rule: merkle_root.induct)
  case (1 node leaves)
  show ?case
  proof (cases "1 < length leaves")
    case True
    then have yl: "1 < length ys" using "1.prems"(1) by simp
    have inj: "inj_on (case_prod node) (set (level_pairs leaves @ tree_pairs node (merkle_level node leaves))
        \<union> set (level_pairs ys @ tree_pairs node (merkle_level node ys)))"
      using "1.prems"(3) by (simp only: tree_pairs_step [OF True] tree_pairs_step [OF yl])
    have "merkle_level node leaves = merkle_level node ys"
    proof (rule "1.IH" [OF True])
      show "length (merkle_level node leaves) = length (merkle_level node ys)"
        using "1.prems"(1) by (simp add: length_merkle_level)
      show "merkle_root node (merkle_level node leaves) = merkle_root node (merkle_level node ys)"
        using "1.prems"(2) by (simp only: merkle_root_step [OF True] merkle_root_step [OF yl])
      show "inj_on (case_prod node)
          (set (tree_pairs node (merkle_level node leaves)) \<union> set (tree_pairs node (merkle_level node ys)))"
        by (rule inj_on_subset [OF inj]) auto
    qed
    then have "map (case_prod node) (level_pairs leaves) = map (case_prod node) (level_pairs ys)"
      by (simp only: merkle_level_pairs)
    moreover have "inj_on (case_prod node) (set (level_pairs leaves) \<union> set (level_pairs ys))"
      by (rule inj_on_subset [OF inj]) auto
    ultimately have "level_pairs leaves = level_pairs ys" by (rule map_inj_on)
    then show ?thesis using "1.prems"(1) by (rule level_pairs_inject [rotated])
  next
    case False
    then have "merkle_root node leaves = leaves" "merkle_root node ys = ys"
      using "1.prems"(1) by (simp_all add: merkle_root.simps)
    with "1.prems"(2) show ?thesis by simp
  qed
qed

lemma hd_merkle_root_inject:
  assumes "length xs = length ys" "xs \<noteq> []" "hd (merkle_root node xs) = hd (merkle_root node ys)"
    and "inj_on (case_prod node) (set (tree_pairs node xs) \<union> set (tree_pairs node ys))"
  shows "xs = ys"
proof (rule merkle_root_inject [OF assms(1) _ assms(4)])
  have "ys \<noteq> []" using assms(1,2) by auto
  then have "length (merkle_root node xs) = 1" "length (merkle_root node ys) = 1"
    using assms(2) by (simp_all add: length_merkle_root del: One_nat_def)
  then show "merkle_root node xs = merkle_root node ys"
    using assms(3) by (cases "merkle_root node xs"; cases "merkle_root node ys") auto
qed

lemma merkle_level_append:
  "even (length xs) \<Longrightarrow> merkle_level node (xs @ ys) = merkle_level node xs @ merkle_level node ys"
  by (induction node xs rule: merkle_level.induct) auto

lemma merkle_root_duplicate:
  assumes "even (length xs)" "xs \<noteq> []"
  shows "merkle_root node (xs @ [x]) = merkle_root node (xs @ [x, x])"
proof -
  have "merkle_level node (xs @ [x]) = merkle_level node (xs @ [x, x])"
    using assms(1) by (simp add: merkle_level_append)
  then show ?thesis
    using assms(2) by (simp add: merkle_root_step Suc_lessI)
qed

section \<open>Blocks\<close>

definition header_hash :: "('p, 's) crates \<Rightarrow> block_header \<Rightarrow> block_hash" where
  "header_hash e h = sha3_256 e (ser_header e h)"

definition block_hash_of :: "('p, 's) crates \<Rightarrow> block \<Rightarrow> block_hash" where
  "block_hash_of e b = header_hash e (header b)"

definition block_hash_to_hex :: "('p, 's) crates \<Rightarrow> block_hash \<Rightarrow> string" where
  "block_hash_to_hex e h = hex_encode e h"

text \<open>\<open>BlockHash::from_hex\<close>: \<open>None\<close> is the panic of the slice, \<open>Inl\<close> the error of the \<open>hex\<close> crate.\<close>

definition block_hash_from_hex :: "('p, 's) crates \<Rightarrow> string \<Rightarrow> (unit + block_hash) option" where
  "block_hash_from_hex e s =
     (case hex_decode e s of
        None \<Rightarrow> Some (Inl ())
      | Some bs \<Rightarrow> if length bs < 32 then None else Some (Inr (take 32 bs)))"

text \<open>The serialized size is the length of what \<open>bincode\<close> writes.\<close>

definition byte_size :: "('p, 's) crates \<Rightarrow> block \<Rightarrow> nat" where
  "byte_size e b = length (ser_block e b)"

lemma block_hash_hex_roundtrip:
  assumes "hex_laws e" "length h = 32"
  shows "block_hash_from_hex e (block_hash_to_hex e h) = Some (Inr h)"
  using assms by (simp add: block_hash_from_hex_def block_hash_to_hex_def hex_laws_def)

lemma block_hash_from_hex_panics:
  assumes "hex_laws e" "length bs < 32"
  shows "block_hash_from_hex e (hex_encode e bs) = None"
  using assms by (simp add: block_hash_from_hex_def hex_laws_def)

definition genesis :: "i64 \<Rightarrow> block" where
  "genesis now =
     \<lparr> header = \<lparr> hd_version = 1, hd_height = 0, hd_timestamp = now, hd_prev_hash = block_hash_zero,
                  hd_tx_root = block_hash_zero, hd_state_root = block_hash_zero,
                  hd_validator = vc_placeholder, hd_round = 0 \<rparr>,
       transactions = [], signatures = [] \<rparr>"

definition tx_node :: "('p, 's) crates \<Rightarrow> bytes \<Rightarrow> bytes \<Rightarrow> bytes" where
  "tx_node e left right = sha3_256 e (left @ right)"

definition compute_tx_root :: "('p, 's) crates \<Rightarrow> transaction list \<Rightarrow> block_hash" where
  "compute_tx_root e txs =
     (if txs = [] then block_hash_zero
      else hd (merkle_root (tx_node e) (map (commitment_hash e) txs)))"

definition tx_leaves :: "('p, 's) crates \<Rightarrow> transaction list \<Rightarrow> bytes list" where
  "tx_leaves e txs = map (commitment_hash e) txs"

text \<open>
  The transaction root commits to the transactions: two lists of the same length with the
  same root have the same transaction ids in the same order, as long as the hash does not collide
  on the pairs of nodes that the two roots are computed from.
\<close>

theorem tx_root_binds_transactions:
  assumes "compute_tx_root e txs = compute_tx_root e txs'" "length txs = length txs'"
    and "inj_on (case_prod (tx_node e))
      (set (tree_pairs (tx_node e) (tx_leaves e txs)) \<union> set (tree_pairs (tx_node e) (tx_leaves e txs')))"
  shows "map (tx_ident e) txs = map (tx_ident e) txs'"
proof (cases "txs = []")
  case False
  then have "txs' \<noteq> []" using assms(2) by auto
  with False assms have "tx_leaves e txs = tx_leaves e txs'"
    by (intro hd_merkle_root_inject [where node = "tx_node e"]) (simp_all add: compute_tx_root_def tx_leaves_def)
  then show ?thesis by (simp add: tx_leaves_def tx_ident_def [abs_def])
qed (use assms(2) in simp)

theorem tx_root_binds_transactions_witness:
  "map (tx_ident demo) [coinbase_placeholder 3, coinbase_placeholder 5] =
   map (tx_ident demo) [coinbase_placeholder 4, coinbase_placeholder 6]"
  by (rule tx_root_binds_transactions)
    (simp_all add: compute_tx_root_def tx_leaves_def tree_pairs_two commitment_hash_def demo_def
      coinbase_placeholder_def key_images_def)

text \<open>
  The root does not commit to the number of transactions: with an odd number of them (three
  or more), repeating the last transaction yields a longer list with the same root, so one header
  stands for two bodies.
\<close>

theorem tx_root_ambiguous:
  assumes "even (length txs)" "txs \<noteq> []"
  shows "compute_tx_root e (txs @ [tx]) = compute_tx_root e (txs @ [tx, tx])"
  using merkle_root_duplicate [of "map (commitment_hash e) txs"] assms
  by (simp add: compute_tx_root_def)

theorem tx_root_ambiguous_witness:
  "compute_tx_root demo ([coinbase_placeholder 1, coinbase_placeholder 2] @ [coinbase_placeholder 3]) =
   compute_tx_root demo ([coinbase_placeholder 1, coinbase_placeholder 2] @
     [coinbase_placeholder 3, coinbase_placeholder 3])"
  by (rule tx_root_ambiguous) simp_all

end
