(* ===== verification/Db.thy ===== *)
theory Db
  imports Merkle
begin

text \<open>
  \<open>src/src/storage/db.rs\<close>: the blocks, key images, chain tip and validators that the node keeps in
  RocksDB. The store itself is a parameter: reads and atomic write batches on a state \<open>'d\<close>, with
  its documented behaviour as the predicate \<open>rocks_laws\<close>. The sources write through a shared
  reference; the new store is returned.
\<close>

section \<open>The store\<close>

datatype cf = BLOCKS_BY_HASH | BLOCKS_BY_HEIGHT | KEY_IMAGES | CHAIN_STATE | VALIDATORS

type_synonym batch = "(cf \<times> bytes \<times> bytes) list"

record 'd rocks =
  rk_get :: "'d \<Rightarrow> cf \<Rightarrow> bytes \<Rightarrow> string + bytes option"
  rk_write :: "'d \<Rightarrow> batch \<Rightarrow> (string + unit) \<times> 'd"

text \<open>The last put of a batch for a key.\<close>

fun batch_get :: "batch \<Rightarrow> cf \<Rightarrow> bytes \<Rightarrow> bytes option" where
  "batch_get [] f k = None"
| "batch_get ((f', k', v) # b) f k =
     (case batch_get b f k of
        Some w \<Rightarrow> Some w
      | None \<Rightarrow> if f' = f \<and> k' = k then Some v else None)"

text \<open>A write that succeeds is visible to every later read; one that fails changes nothing.\<close>

definition rocks_laws :: "'d rocks \<Rightarrow> bool" where
  "rocks_laws R \<longleftrightarrow>
     (\<forall>d b d'. rk_write R d b = (Inr (), d') \<longrightarrow>
        (\<forall>f k. rk_get R d' f k =
           (case batch_get b f k of Some v \<Rightarrow> Inr (Some v) | None \<Rightarrow> rk_get R d f k))) \<and>
     (\<forall>d b d' err. rk_write R d b = (Inl err, d') \<longrightarrow> d' = d)"

definition rocks_writable :: "'d rocks \<Rightarrow> bool" where
  "rocks_writable R \<longleftrightarrow> (\<forall>d b. fst (rk_write R d b) = Inr ())"

definition mem_rocks :: "(cf \<times> bytes \<Rightarrow> bytes option) rocks" where
  "mem_rocks =
     \<lparr> rk_get = (\<lambda>d f k. Inr (d (f, k))),
       rk_write = (\<lambda>d b. (Inr (), fold (\<lambda>(f, k, v) d. d((f, k) \<mapsto> v)) b d)) \<rparr>"

lemma mem_rocks_get:
  "fold (\<lambda>(f, k, v) d. d((f, k) \<mapsto> v)) b d (g, k') =
     (case batch_get b g k' of Some v \<Rightarrow> Some v | None \<Rightarrow> d (g, k'))"
  by (induction b arbitrary: d) (auto split: option.splits)

lemma mem_rocks_laws: "rocks_laws mem_rocks" "rocks_writable mem_rocks"
  by (auto simp: rocks_laws_def rocks_writable_def mem_rocks_def mem_rocks_get split: option.splits)

section \<open>Operations\<close>

text \<open>\<open>map_err\<close> of the sources: the error text with a prefix.\<close>

definition map_err :: "string \<Rightarrow> string + 'a \<Rightarrow> string + 'a" where
  "map_err pre r = (case r of Inl err \<Rightarrow> Inl (pre @ err) | Inr x \<Rightarrow> Inr x)"

definition KEY_HEIGHT :: bytes where "KEY_HEIGHT = str_bytes ''height''"
definition KEY_TIP :: bytes where "KEY_TIP = str_bytes ''tip''"

definition put_block ::
  "('p, 's) crates \<Rightarrow> 'd rocks \<Rightarrow> 'd \<Rightarrow> block \<Rightarrow> (string + unit) \<times> 'd" where
  "put_block e R d b =
     (let hash = block_hash_of e b;
          encoded = ser_block e b;
          batch = [(BLOCKS_BY_HASH, hash, encoded),
                   (BLOCKS_BY_HEIGHT, u64_to_le (hd_height (header b)), hash)] in
      case rk_write R d batch of (r, d') \<Rightarrow> (map_err ''DB write block: '' r, d'))"

definition get_block_by_hash ::
  "('p, 's) crates \<Rightarrow> 'd rocks \<Rightarrow> 'd \<Rightarrow> block_hash \<Rightarrow> string + block option" where
  "get_block_by_hash e R d hash =
     (case map_err ''DB get block: '' (rk_get R d BLOCKS_BY_HASH hash) of
        Inl err \<Rightarrow> Inl err
      | Inr None \<Rightarrow> Inr None
      | Inr (Some bs) \<Rightarrow>
          (case map_err ''block deserialize: '' (de_block e bs) of
             Inl err \<Rightarrow> Inl err
           | Inr b \<Rightarrow> Inr (Some b)))"

definition get_block_by_height ::
  "('p, 's) crates \<Rightarrow> 'd rocks \<Rightarrow> 'd \<Rightarrow> u64 \<Rightarrow> string + block option" where
  "get_block_by_height e R d h =
     (case map_err ''DB get height index: '' (rk_get R d BLOCKS_BY_HEIGHT (u64_to_le h)) of
        Inl err \<Rightarrow> Inl err
      | Inr None \<Rightarrow> Inr None
      | Inr (Some hash_bytes) \<Rightarrow>
          (if length hash_bytes < 32 then Inl ''corrupt height index''
           else get_block_by_hash e R d (take 32 hash_bytes)))"

definition put_key_image :: "'d rocks \<Rightarrow> 'd \<Rightarrow> key_image_bytes \<Rightarrow> (string + unit) \<times> 'd" where
  "put_key_image R d ki =
     (case rk_write R d [(KEY_IMAGES, ki, str_bytes ''1'')] of
        (r, d') \<Rightarrow> (map_err ''DB put key image: '' r, d'))"

definition has_key_image :: "'d rocks \<Rightarrow> 'd \<Rightarrow> key_image_bytes \<Rightarrow> string + bool" where
  "has_key_image R d ki =
     (case map_err ''DB get key image: '' (rk_get R d KEY_IMAGES ki) of
        Inl err \<Rightarrow> Inl err
      | Inr v \<Rightarrow> Inr (v \<noteq> None))"

definition save_chain_state :: "'d rocks \<Rightarrow> 'd \<Rightarrow> u64 \<Rightarrow> block_hash \<Rightarrow> (string + unit) \<times> 'd" where
  "save_chain_state R d h tip =
     (case rk_write R d [(CHAIN_STATE, KEY_HEIGHT, u64_to_le h), (CHAIN_STATE, KEY_TIP, tip)] of
        (r, d') \<Rightarrow> (map_err ''DB write chain state: '' r, d'))"

definition load_chain_state :: "'d rocks \<Rightarrow> 'd \<Rightarrow> string + (u64 \<times> block_hash) option" where
  "load_chain_state R d =
     (case map_err ''DB load height: '' (rk_get R d CHAIN_STATE KEY_HEIGHT) of
        Inl err \<Rightarrow> Inl err
      | Inr None \<Rightarrow> Inr None
      | Inr (Some h) \<Rightarrow>
          (case map_err ''DB load tip: '' (rk_get R d CHAIN_STATE KEY_TIP) of
             Inl err \<Rightarrow> Inl err
           | Inr None \<Rightarrow> Inr None
           | Inr (Some t) \<Rightarrow>
               (if length h < 8 \<or> length t < 32 then Inl ''corrupt chain state''
                else Inr (Some (u64_from_le (take 8 h), take 32 t)))))"

definition put_validator :: "'d rocks \<Rightarrow> 'd \<Rightarrow> bytes \<Rightarrow> bytes \<Rightarrow> (string + unit) \<times> 'd" where
  "put_validator R d nullifier v =
     (case rk_write R d [(VALIDATORS, nullifier, v)] of
        (r, d') \<Rightarrow> (map_err ''DB put validator: '' r, d'))"

definition get_validator :: "'d rocks \<Rightarrow> 'd \<Rightarrow> bytes \<Rightarrow> string + bytes option" where
  "get_validator R d nullifier = map_err ''DB get validator: '' (rk_get R d VALIDATORS nullifier)"

section \<open>The coordinator of \<open>core/state.rs\<close>\<close>

definition persist_block ::
  "('p, 's) crates \<Rightarrow> 'd rocks \<Rightarrow> 'd \<Rightarrow> block \<Rightarrow> (string + unit) \<times> 'd" where
  "persist_block e R d b =
     (case put_block e R d b of
        (Inl err, d') \<Rightarrow> (Inl err, d')
      | (Inr _, d') \<Rightarrow> save_chain_state R d' (hd_height (header b)) (block_hash_of e b))"

definition load_tip :: "'d rocks \<Rightarrow> 'd \<Rightarrow> string + (u64 \<times> block_hash) option" where
  "load_tip R d = load_chain_state R d"

definition save_tip :: "'d rocks \<Rightarrow> 'd \<Rightarrow> u64 \<Rightarrow> block_hash \<Rightarrow> (string + unit) \<times> 'd" where
  "save_tip R d h tip = save_chain_state R d h tip"

section \<open>Reads after writes\<close>

lemma map_err_Inr [simp]: "map_err pre r = Inr x \<longleftrightarrow> r = Inr x"
  by (cases r) (auto simp: map_err_def)

lemma map_err_of_Inr [simp]: "map_err pre (Inr x) = Inr x"
  by (simp add: map_err_def)

lemma rocks_read_write:
  assumes "rocks_laws R" "rk_write R d b = (Inr (), d')"
  shows "rk_get R d' f k = (case batch_get b f k of Some v \<Rightarrow> Inr (Some v) | None \<Rightarrow> rk_get R d f k)"
  using assms by (auto simp: rocks_laws_def)

lemma writes_succeed:
  assumes "rocks_writable R"
  shows "put_block e R d b = (Inr (), snd (put_block e R d b))"
    and "save_chain_state R d h t = (Inr (), snd (save_chain_state R d h t))"
  using assms
  by (simp_all add: rocks_writable_def put_block_def save_chain_state_def Let_def split_beta prod_eq_iff)

lemma put_block_reads:
  assumes "rocks_laws R" "put_block e R d b = (Inr (), d')"
  shows "rk_get R d' BLOCKS_BY_HASH h =
      (if h = block_hash_of e b then Inr (Some (ser_block e b)) else rk_get R d BLOCKS_BY_HASH h)"
    and "rk_get R d' BLOCKS_BY_HEIGHT k =
      (if k = u64_to_le (hd_height (header b)) then Inr (Some (block_hash_of e b))
       else rk_get R d BLOCKS_BY_HEIGHT k)"
    and "f \<noteq> BLOCKS_BY_HASH \<Longrightarrow> f \<noteq> BLOCKS_BY_HEIGHT \<Longrightarrow> rk_get R d' f k = rk_get R d f k"
proof -
  have w: "rk_write R d [(BLOCKS_BY_HASH, block_hash_of e b, ser_block e b),
      (BLOCKS_BY_HEIGHT, u64_to_le (hd_height (header b)), block_hash_of e b)] = (Inr (), d')"
    using assms(2) by (auto simp: put_block_def Let_def split: prod.splits)
  note rocks_read_write [OF assms(1) w, simp]
  show "rk_get R d' BLOCKS_BY_HASH h =
      (if h = block_hash_of e b then Inr (Some (ser_block e b)) else rk_get R d BLOCKS_BY_HASH h)"
    "rk_get R d' BLOCKS_BY_HEIGHT k =
      (if k = u64_to_le (hd_height (header b)) then Inr (Some (block_hash_of e b))
       else rk_get R d BLOCKS_BY_HEIGHT k)"
    "f \<noteq> BLOCKS_BY_HASH \<Longrightarrow> f \<noteq> BLOCKS_BY_HEIGHT \<Longrightarrow> rk_get R d' f k = rk_get R d f k"
    by auto
qed

lemma save_chain_state_reads:
  assumes "rocks_laws R" "save_chain_state R d h t = (Inr (), d')"
  shows "rk_get R d' CHAIN_STATE KEY_HEIGHT = Inr (Some (u64_to_le h))"
    and "rk_get R d' CHAIN_STATE KEY_TIP = Inr (Some t)"
    and "f \<noteq> CHAIN_STATE \<Longrightarrow> rk_get R d' f k = rk_get R d f k"
proof -
  have w: "rk_write R d [(CHAIN_STATE, KEY_HEIGHT, u64_to_le h), (CHAIN_STATE, KEY_TIP, t)] = (Inr (), d')"
    using assms(2) by (auto simp: save_chain_state_def split: prod.splits)
  have keys: "KEY_HEIGHT \<noteq> KEY_TIP" by (simp add: KEY_HEIGHT_def KEY_TIP_def str_bytes_def)
  note rocks_read_write [OF assms(1) w, simp]
  show "rk_get R d' CHAIN_STATE KEY_HEIGHT = Inr (Some (u64_to_le h))"
    "rk_get R d' CHAIN_STATE KEY_TIP = Inr (Some t)"
    "f \<noteq> CHAIN_STATE \<Longrightarrow> rk_get R d' f k = rk_get R d f k"
    using keys by auto
qed

text \<open>
  Block storage: after a successful write of a block, reading by its hash and by its height
  both return that block, and the block stored at any other height can still be read unchanged as
  long as the two do not share a hash. The assumptions are the store's laws, that \<open>bincode\<close> decodes
  what it encoded for the blocks involved, and the 32-byte digest.
\<close>

theorem block_storage_roundtrip:
  assumes "rocks_laws R" "put_block e R d b = (Inr (), d')"
    and "de_block e (ser_block e b) = Inr b" "\<forall>bs. length (sha3_256 e bs) = 32"
    and "get_block_by_height e R d h' = Inr (Some b')" "h' \<noteq> hd_height (header b)"
    and "rk_get R d BLOCKS_BY_HEIGHT (u64_to_le h') \<noteq> Inr (Some (block_hash_of e b))"
    and "\<forall>hb. rk_get R d BLOCKS_BY_HEIGHT (u64_to_le h') = Inr (Some hb) \<longrightarrow> length hb = 32"
  shows "get_block_by_hash e R d' (block_hash_of e b) = Inr (Some b) \<and>
    get_block_by_height e R d' (hd_height (header b)) = Inr (Some b) \<and>
    get_block_by_height e R d' h' = Inr (Some b')"
proof -
  note reads = put_block_reads [OF assms(1,2)]
  have len: "length (block_hash_of e b) = 32"
    using assms(4) by (simp add: block_hash_of_def header_hash_def)
  have hash: "get_block_by_hash e R d' (block_hash_of e b) = Inr (Some b)"
    by (simp add: get_block_by_hash_def reads assms(3))
  moreover have "get_block_by_height e R d' (hd_height (header b)) = Inr (Some b)"
    using len by (simp add: get_block_by_height_def reads hash)
  moreover have "get_block_by_height e R d' h' = Inr (Some b')"
    using assms(5-8)
    by (auto simp: get_block_by_height_def get_block_by_hash_def reads codec_inject
        split: sum.splits option.splits if_splits)
  ultimately show ?thesis by blast
qed

lemma chain_state_roundtrip:
  assumes "rocks_laws R" "save_chain_state R d h t = (Inr (), d')" "length t = 32"
  shows "load_chain_state R d' = Inr (Some (h, t))"
  using assms(3) by (simp add: load_chain_state_def save_chain_state_reads [OF assms(1,2)] u64_le.dec_enc)

definition demo_block :: "u64 \<Rightarrow> block" where
  "demo_block h = (genesis 7)\<lparr>header := (header (genesis 7))\<lparr>hd_height := h\<rparr>\<rparr>"

definition demo_codec :: "block list \<Rightarrow> bytes \<Rightarrow> string + block" where
  "demo_codec bs bytes =
     (case find (\<lambda>b. ser_block demo b = bytes) bs of Some b \<Rightarrow> Inr b | None \<Rightarrow> Inl ''not a block'')"

text \<open>The demonstration instance with a decoder for the given blocks.\<close>

definition demo_with :: "block list \<Rightarrow> (gf3, gf3) crates" where
  "demo_with bs = demo\<lparr>de_block := demo_codec bs\<rparr>"

lemma demo_block_hash: "block_hash_of (demo_with bs) (demo_block h) =
  pad_to 32 (u64_to_le h @ u64_to_le 7 @ zeros 32)"
  by (simp add: block_hash_of_def header_hash_def demo_with_def demo_block_def genesis_def
      block_hash_zero_def) (simp add: demo_def)

lemma demo_block_ser: "ser_block (demo_with bs) (demo_block h) = u64_to_le h"
  by (simp add: demo_with_def demo_def demo_block_def genesis_def)

lemma pad_to_inject: "pad_to 32 (u64_to_le h @ xs) = pad_to 32 (u64_to_le h' @ ys) \<Longrightarrow> h = h'"
proof -
  assume "pad_to 32 (u64_to_le h @ xs) = pad_to 32 (u64_to_le h' @ ys)"
  then have "take 8 (pad_to 32 (u64_to_le h @ xs)) = take 8 (pad_to 32 (u64_to_le h' @ ys))" by simp
  then show "h = h'" by (simp add: pad_to_def codec_inject)
qed

lemma demo_with_decodes:
  "b \<in> {demo_block 0, demo_block 1} \<Longrightarrow>
   de_block (demo_with [demo_block 0, demo_block 1]) (ser_block (demo_with bs) b) = Inr b"
  by (auto simp: demo_with_def demo_codec_def demo_block_ser [unfolded demo_with_def])
    (auto simp: demo_def demo_block_def genesis_def codec_inject)

theorem block_storage_roundtrip_witness:
  "let e = demo_with [demo_block 0, demo_block 1];
       d = snd (put_block e mem_rocks (\<lambda>_. None) (demo_block 0));
       d' = snd (put_block e mem_rocks d (demo_block 1)) in
     get_block_by_hash e mem_rocks d' (block_hash_of e (demo_block 1)) = Inr (Some (demo_block 1)) \<and>
     get_block_by_height e mem_rocks d' 1 = Inr (Some (demo_block 1)) \<and>
     get_block_by_height e mem_rocks d' 0 = Inr (Some (demo_block 0))"
proof -
  define e where "e = demo_with [demo_block 0, demo_block 1]"
  have sha: "\<forall>bs. length (sha3_256 e bs) = 32" by (simp add: e_def demo_with_def)
  have ok: "\<exists>d'. put_block e mem_rocks d b = (Inr (), d')" for d b
    using writes_succeed(1) [OF mem_rocks_laws(2)] by blast
  obtain d where d: "put_block e mem_rocks (\<lambda>_. None) (demo_block 0) = (Inr (), d)" using ok by blast
  obtain d' where d': "put_block e mem_rocks d (demo_block 1) = (Inr (), d')" using ok by blast
  have dec: "de_block e (ser_block e b) = Inr b" if "b \<in> {demo_block 0, demo_block 1}" for b
    using that unfolding e_def by (rule demo_with_decodes)
  have h: "hd_height (header (demo_block 0)) = 0" "hd_height (header (demo_block 1)) = 1"
    by (simp_all add: demo_block_def)
  note reads = put_block_reads [OF mem_rocks_laws(1) d]
  have ix: "rk_get mem_rocks d BLOCKS_BY_HEIGHT (u64_to_le 0) = Inr (Some (block_hash_of e (demo_block 0)))"
    by (simp add: reads h)
  have len: "length (block_hash_of e b) = 32" for b
    using sha by (simp add: block_hash_of_def header_hash_def)
  have by0: "get_block_by_height e mem_rocks d 0 = Inr (Some (demo_block 0))"
    using len dec [of "demo_block 0"]
    by (simp add: get_block_by_height_def ix get_block_by_hash_def reads h)
  have ne: "block_hash_of e (demo_block 0) \<noteq> block_hash_of e (demo_block 1)"
    unfolding e_def demo_block_hash using pad_to_inject [of 0 _ 1] by auto
  have "get_block_by_hash e mem_rocks d' (block_hash_of e (demo_block 1)) = Inr (Some (demo_block 1)) \<and>
     get_block_by_height e mem_rocks d' (hd_height (header (demo_block 1))) = Inr (Some (demo_block 1)) \<and>
     get_block_by_height e mem_rocks d' 0 = Inr (Some (demo_block 0))"
    by (rule block_storage_roundtrip [OF mem_rocks_laws(1) d' _ sha by0])
      (use dec ne ix len h in simp_all)
  with d d' h show ?thesis by (simp add: Let_def flip: e_def)
qed

end
