(* ===== verification/State.thy ===== *)
theory State
  imports FeeState Db
begin

text \<open>
  \<open>src/src/core/state.rs\<close>: the coordinator \<open>PersistentState\<close>, a store and a fee market behind one
  interface. \<open>FeeState\<close> holds its fee market and \<open>Db\<close> its writes of blocks and of the tip.
\<close>

record 'd persistent_state =
  ps_db :: 'd
  ps_fee_market :: state_market

text \<open>Opening the store is the operation of RocksDB; \<open>opened\<close> is what it returned.\<close>

definition persistent_open :: "string + 'd \<Rightarrow> string + 'd persistent_state" where
  "persistent_open opened =
     (case opened of
        Inl err \<Rightarrow> Inl err
      | Inr d \<Rightarrow> Inr \<lparr> ps_db = d, ps_fee_market = state_market_new \<rparr>)"

text \<open>A write through the shared store: the market stays.\<close>

definition through_db ::
  "('d \<Rightarrow> (string + unit) \<times> 'd) \<Rightarrow> 'd persistent_state \<Rightarrow> (string + unit) \<times> 'd persistent_state" where
  "through_db wr s = (case wr (ps_db s) of (r, d) \<Rightarrow> (r, s\<lparr>ps_db := d\<rparr>))"

definition persist_key_image ::
  "'d rocks \<Rightarrow> 'd persistent_state \<Rightarrow> key_image_bytes \<Rightarrow> (string + unit) \<times> 'd persistent_state" where
  "persist_key_image R s ki = through_db (\<lambda>d. put_key_image R d ki) s"

definition is_key_image_spent :: "'d rocks \<Rightarrow> 'd persistent_state \<Rightarrow> key_image_bytes \<Rightarrow> string + bool" where
  "is_key_image_spent R s ki = has_key_image R (ps_db s) ki"

text \<open>The update of the market panics when its target is zero.\<close>

definition on_block_applied :: "'d persistent_state \<Rightarrow> u64 \<Rightarrow> 'd persistent_state option" where
  "on_block_applied s used =
     map_option (\<lambda>m. s\<lparr>ps_fee_market := m\<rparr>) (state_market_update (ps_fee_market s) used)"

definition ps_base_fee :: "'d persistent_state \<Rightarrow> u64" where
  "ps_base_fee s = sm_base_fee_per_gas (ps_fee_market s)"

section \<open>Runs\<close>

text \<open>The operations of the coordinator; a panic ends the run.\<close>

datatype state_op =
    PersistBlock block
  | SaveTip u64 block_hash
  | PersistKeyImage key_image_bytes
  | OnBlockApplied u64

fun state_op_step ::
  "('p, 's) crates \<Rightarrow> 'd rocks \<Rightarrow> 'd persistent_state \<Rightarrow> state_op \<Rightarrow> 'd persistent_state option" where
  "state_op_step e R s (PersistBlock b) = Some (snd (through_db (\<lambda>d. persist_block e R d b) s))"
| "state_op_step e R s (SaveTip h t) = Some (snd (through_db (\<lambda>d. save_tip R d h t) s))"
| "state_op_step e R s (PersistKeyImage ki) = Some (snd (persist_key_image R s ki))"
| "state_op_step e R s (OnBlockApplied gas) = on_block_applied s gas"

fun state_run ::
  "('p, 's) crates \<Rightarrow> 'd rocks \<Rightarrow> 'd persistent_state \<Rightarrow> state_op list \<Rightarrow> 'd persistent_state option" where
  "state_run e R s [] = Some s"
| "state_run e R s (p # ps) =
     (case state_op_step e R s p of None \<Rightarrow> None | Some s' \<Rightarrow> state_run e R s' ps)"

text \<open>What a list of operations asks for: the key images, the gas of the blocks, the tip.\<close>

fun op_images :: "state_op list \<Rightarrow> key_image_bytes set" where
  "op_images [] = {}"
| "op_images (p # ps) = (case p of PersistKeyImage k \<Rightarrow> insert k (op_images ps) | _ \<Rightarrow> op_images ps)"

fun op_gas :: "state_op list \<Rightarrow> u64 list" where
  "op_gas [] = []"
| "op_gas (p # ps) = (case p of OnBlockApplied g \<Rightarrow> g # op_gas ps | _ \<Rightarrow> op_gas ps)"

fun op_tip :: "('p, 's) crates \<Rightarrow> (u64 \<times> block_hash) option \<Rightarrow> state_op list \<Rightarrow> (u64 \<times> block_hash) option" where
  "op_tip e t [] = t"
| "op_tip e t (p # ps) =
     (case p of
        PersistBlock b \<Rightarrow> op_tip e (Some (hd_height (header b), block_hash_of e b)) ps
      | SaveTip h x \<Rightarrow> op_tip e (Some (h, x)) ps
      | _ \<Rightarrow> op_tip e t ps)"

section \<open>What the operations keep apart\<close>

lemma put_key_image_reads:
  assumes "rocks_laws R" "put_key_image R d ki = (Inr (), d')"
  shows "rk_get R d' KEY_IMAGES k = (if k = ki then Inr (Some (str_bytes ''1'')) else rk_get R d KEY_IMAGES k)"
    and "f \<noteq> KEY_IMAGES \<Longrightarrow> rk_get R d' f x = rk_get R d f x"
proof -
  have w: "rk_write R d [(KEY_IMAGES, ki, str_bytes ''1'')] = (Inr (), d')"
    using assms(2) by (auto simp: put_key_image_def split: prod.splits)
  note rocks_read_write [OF assms(1) w, simp]
  show "rk_get R d' KEY_IMAGES k = (if k = ki then Inr (Some (str_bytes ''1'')) else rk_get R d KEY_IMAGES k)"
    "f \<noteq> KEY_IMAGES \<Longrightarrow> rk_get R d' f x = rk_get R d f x" by auto
qed

lemma persist_block_reads:
  assumes "rocks_laws R" "rocks_writable R"
  shows "rk_get R (snd (persist_block e R d b)) CHAIN_STATE KEY_HEIGHT = Inr (Some (u64_to_le (hd_height (header b))))"
    and "rk_get R (snd (persist_block e R d b)) CHAIN_STATE KEY_TIP = Inr (Some (block_hash_of e b))"
    and "rk_get R (snd (persist_block e R d b)) KEY_IMAGES k = rk_get R d KEY_IMAGES k"
proof -
  let ?d = "snd (put_block e R d b)"
  note put = writes_succeed(1) [OF assms(2), of e d b]
  note save = writes_succeed(2) [OF assms(2), of ?d "hd_height (header b)" "block_hash_of e b"]
  have snd: "snd (persist_block e R d b) = snd (save_chain_state R ?d (hd_height (header b)) (block_hash_of e b))"
    unfolding persist_block_def using put by (metis (no_types, lifting) old.sum.simps(6) prod.simps(2))
  note reads = save_chain_state_reads [OF assms(1) save]
  show "rk_get R (snd (persist_block e R d b)) CHAIN_STATE KEY_HEIGHT = Inr (Some (u64_to_le (hd_height (header b))))"
    "rk_get R (snd (persist_block e R d b)) CHAIN_STATE KEY_TIP = Inr (Some (block_hash_of e b))"
    "rk_get R (snd (persist_block e R d b)) KEY_IMAGES k = rk_get R d KEY_IMAGES k"
    unfolding snd by (simp_all add: reads put_block_reads(3) [OF assms(1) put])
qed

lemma load_tip_reads:
  assumes "rk_get R d CHAIN_STATE KEY_HEIGHT = Inr (Some (u64_to_le h))"
    and "rk_get R d CHAIN_STATE KEY_TIP = Inr (Some t)" "length t = 32"
  shows "load_tip R d = Inr (Some (h, t))"
  using assms by (simp add: load_tip_def load_chain_state_def u64_le.dec_enc)

text \<open>The abstract state: spent key images, the tip and the market, each with its own operation.\<close>

fun op_ok :: "state_op \<Rightarrow> bool" where
  "op_ok (SaveTip h t) = (length t = 32)"
| "op_ok _ = True"

definition ps_abs ::
  "'d rocks \<Rightarrow> 'd persistent_state \<Rightarrow> key_image_bytes set \<Rightarrow> (u64 \<times> block_hash) option \<Rightarrow> state_market \<Rightarrow> bool" where
  "ps_abs R s spent tip m \<longleftrightarrow>
     (\<forall>k. is_key_image_spent R s k = Inr (k \<in> spent)) \<and> load_tip R (ps_db s) = Inr tip \<and> ps_fee_market s = m"

lemma state_market_target:
  assumes "sm_target_gas_per_block m \<noteq> 0"
  shows "\<exists>m'. state_market_update m g = Some m' \<and> sm_target_gas_per_block m' \<noteq> 0"
  using assms by (cases "g = sm_target_gas_per_block m") (simp_all add: state_market_update_def Let_def)

lemma ps_abs_step:
  assumes "rocks_laws R" "rocks_writable R" "\<forall>bs. length (sha3_256 e bs) = 32" "op_ok p"
    and "ps_abs R s spent tip m" "sm_target_gas_per_block m \<noteq> 0"
  shows "\<exists>s' m'. state_op_step e R s p = Some s' \<and> ps_abs R s' (spent \<union> op_images [p]) (op_tip e tip [p]) m' \<and>
    market_replay state_market_update m (op_gas [p]) = Some m' \<and> sm_target_gas_per_block m' \<noteq> 0"
proof (cases p)
  case (PersistBlock b)
  have len: "length (block_hash_of e b) = 32" using assms(3) by (simp add: block_hash_of_def header_hash_def)
  note reads = persist_block_reads [OF assms(1,2), of e "ps_db s" b]
  show ?thesis
    using assms(5,6) load_tip_reads [OF reads(1,2) len]
    by (auto simp: PersistBlock ps_abs_def is_key_image_spent_def has_key_image_def reads(3) through_db_def
        case_prod_unfold)
next
  case (SaveTip h t)
  note save = writes_succeed(2) [OF assms(2), of "ps_db s" h t]
  note reads = save_chain_state_reads [OF assms(1) save]
  show ?thesis
    using assms(4-6) load_tip_reads [OF reads(1,2)]
    by (auto simp: SaveTip ps_abs_def is_key_image_spent_def has_key_image_def reads(3) through_db_def
        save_tip_def case_prod_unfold)
next
  case (PersistKeyImage ki)
  have put: "put_key_image R (ps_db s) ki = (Inr (), snd (put_key_image R (ps_db s) ki))"
    using assms(2) by (simp add: rocks_writable_def put_key_image_def split_beta prod_eq_iff)
  note reads = put_key_image_reads [OF assms(1) put]
  have tip: "load_tip R (snd (put_key_image R (ps_db s) ki)) = load_tip R (ps_db s)"
    unfolding load_tip_def load_chain_state_def
    by (simp only: reads(2) [of CHAIN_STATE] cf.distinct not_False_eq_True)
  show ?thesis
    using assms(5,6)
    by (auto simp: PersistKeyImage ps_abs_def is_key_image_spent_def has_key_image_def reads(1) tip
        persist_key_image_def through_db_def case_prod_unfold)
next
  case (OnBlockApplied g)
  obtain m' where "state_market_update m g = Some m'" "sm_target_gas_per_block m' \<noteq> 0"
    using state_market_target [OF assms(6)] by blast
  then show ?thesis
    using assms(5) by (auto simp: OnBlockApplied on_block_applied_def ps_abs_def is_key_image_spent_def)
qed

text \<open>
  The coordinator keeps its three parts apart, whatever the order of the operations: the key images
  persisted, the last tip saved and the market after the gas of the blocks; it never panics.
\<close>

lemma persistent_state_refines:
  assumes "rocks_laws R" "rocks_writable R" "\<forall>bs. length (sha3_256 e bs) = 32" "\<forall>p\<in>set ps. op_ok p"
    and "ps_abs R s spent tip m" "sm_target_gas_per_block m \<noteq> 0"
  shows "\<exists>s' m'. state_run e R s ps = Some s' \<and> ps_abs R s' (spent \<union> op_images ps) (op_tip e tip ps) m' \<and>
    market_replay state_market_update m (op_gas ps) = Some m'"
  using assms(4-6)
proof (induction ps arbitrary: s spent tip m)
  case (Cons p ps)
  obtain s1 m1 where one: "state_op_step e R s p = Some s1" "ps_abs R s1 (spent \<union> op_images [p]) (op_tip e tip [p]) m1"
    "market_replay state_market_update m (op_gas [p]) = Some m1" "sm_target_gas_per_block m1 \<noteq> 0"
    using ps_abs_step [OF assms(1-3) _ Cons.prems(2,3), of p] Cons.prems(1) by auto
  from Cons.IH [OF _ one(2,4)] Cons.prems(1) obtain s' m' where
    "state_run e R s1 ps = Some s'" "ps_abs R s' (spent \<union> op_images [p] \<union> op_images ps) (op_tip e (op_tip e tip [p]) ps) m'"
    "market_replay state_market_update m1 (op_gas ps) = Some m'" by auto
  with one(1,3) show ?case
    by (cases p) (auto simp: Un_assoc split: option.splits)
qed simp

end
