(* ===== verification/Params.thy ===== *)
theory Params
  imports F64
begin

text \<open>
  \<open>ChainParams\<close> of \<open>src/src/core/chain.rs\<close>: the constants of the network, the emission schedule and
  the adaptive exit lock, the latter in the binary64 arithmetic of theory \<open>F64\<close>.
\<close>

section \<open>Constants\<close>

definition CHAIN_ID :: u64 where "CHAIN_ID = 0x43495054"
definition NETWORK_NAME :: string where "NETWORK_NAME = ''CipherX Testnet''"
definition IS_TESTNET :: bool where "IS_TESTNET = True"

definition MAX_SUPPLY :: u64 where "MAX_SUPPLY = 18400000"
definition PREMINE :: u64 where "PREMINE = 2000"
definition MIN_STAKE :: u64 where "MIN_STAKE = 31"
definition INITIAL_BLOCK_REWARD :: u64 where "INITIAL_BLOCK_REWARD = 4000000"
definition HALVING_INTERVAL :: u64 where "HALVING_INTERVAL = 126144000"
definition TAIL_EMISSION :: u64 where "TAIL_EMISSION = 130"
definition BLOCK_TIME_MS :: u64 where "BLOCK_TIME_MS = 400"
definition MIN_EXIT_LOCK_BLOCKS :: u64 where
  "MIN_EXIT_LOCK_BLOCKS = 2 * 7 * 24 * 3600 * 1000 div BLOCK_TIME_MS"
definition MAX_EXIT_LOCK_BLOCKS :: u64 where
  "MAX_EXIT_LOCK_BLOCKS = 7 * 7 * 24 * 3600 * 1000 div BLOCK_TIME_MS"
definition MAX_LOCK_EXTENSION_BLOCKS :: u64 where
  "MAX_LOCK_EXTENSION_BLOCKS = 10 * 24 * 3600 * 1000 div BLOCK_TIME_MS"

lemma exit_lock_values: "MIN_EXIT_LOCK_BLOCKS = 3024000" "MAX_EXIT_LOCK_BLOCKS = 10584000"
  by (simp_all add: MIN_EXIT_LOCK_BLOCKS_def MAX_EXIT_LOCK_BLOCKS_def BLOCK_TIME_MS_def)

section \<open>Emission\<close>

definition block_reward :: "u64 \<Rightarrow> u64" where
  "block_reward height =
     (let halvings = height div HALVING_INTERVAL in
      if 64 \<le> halvings then TAIL_EMISSION
      else
        (let reward = drop_bit (unat halvings) INITIAL_BLOCK_REWARD in
         if reward \<le> TAIL_EMISSION then TAIL_EMISSION else reward))"

text \<open>The schedule on naturals: halving down to the tail.\<close>

definition reward_spec :: "nat \<Rightarrow> nat" where
  "reward_spec h = max (4000000 div 2 ^ (h div 126144000)) 130"

lemma block_reward_exact: "unat (block_reward h) = reward_spec (unat h)"
proof -
  let ?k = "unat h div 126144000"
  have k: "unat (h div HALVING_INTERVAL) = ?k"
    by (simp add: HALVING_INTERVAL_def unat_div_distrib)
  have big: "64 \<le> h div HALVING_INTERVAL \<longleftrightarrow> 64 \<le> ?k"
    by (simp add: word_le_nat_alt k)
  have d: "unat (drop_bit n INITIAL_BLOCK_REWARD) = 4000000 div 2 ^ n" for n
    by (simp only: unat_drop_bit_eq) (simp add: INITIAL_BLOCK_REWARD_def drop_bit_eq_div)
  show ?thesis
  proof (cases "64 \<le> ?k")
    case True
    have "(4000000 :: nat) div 2 ^ ?k \<le> 4000000 div 2 ^ 64"
      using True by (intro div_le_mono2 power_increasing) auto
    then have "(4000000 :: nat) div 2 ^ ?k = 0" by simp
    with True big show ?thesis
      by (simp add: block_reward_def Let_def reward_spec_def TAIL_EMISSION_def)
  next
    case False
    with big k d [of ?k] show ?thesis
      by (simp add: block_reward_def Let_def reward_spec_def TAIL_EMISSION_def word_le_nat_alt max_def)
  qed
qed

lemma reward_spec_antimono: "h \<le> h' \<Longrightarrow> reward_spec h' \<le> reward_spec h"
  unfolding reward_spec_def
  by (intro max.mono div_le_mono2 power_increasing div_le_mono) auto

lemma reward_spec_bounds: "130 \<le> reward_spec h" "reward_spec h \<le> 4000000"
  by (auto simp: reward_spec_def)

text \<open>The reward is constant inside an era.\<close>

lemma reward_spec_era: "r < 126144000 \<Longrightarrow> reward_spec (k * 126144000 + r) = max (4000000 div 2 ^ k) 130"
  by (simp add: reward_spec_def)

lemma sum_era:
  "(\<Sum>h = k * 126144000..<Suc k * 126144000. reward_spec h) = 126144000 * max (4000000 div 2 ^ k) 130"
proof -
  have "reward_spec h = max (4000000 div 2 ^ k) 130" if h: "h \<in> {k * 126144000..<Suc k * 126144000}" for h
  proof -
    have "k * 126144000 + (h - k * 126144000) = h" "h - k * 126144000 < 126144000" using h by auto
    then show ?thesis using reward_spec_era by metis
  qed
  then have "(\<Sum>h = k * 126144000..<Suc k * 126144000. reward_spec h) =
      (\<Sum>h = k * 126144000..<Suc k * 126144000. max (4000000 div 2 ^ k) 130)"
    by (intro sum.cong) auto
  then show ?thesis by simp
qed

lemma sum_eras:
  "(\<Sum>h<n * 126144000. reward_spec h) = (\<Sum>k<n. 126144000 * max (4000000 div 2 ^ k) 130)"
proof (induction n)
  case (Suc n)
  have "(\<Sum>h<n * 126144000. reward_spec h) + (\<Sum>h = n * 126144000..<Suc n * 126144000. reward_spec h) =
      (\<Sum>h<Suc n * 126144000. reward_spec h)"
    by (simp add: lessThan_atLeast0 sum.atLeastLessThan_concat)
  then show ?case using Suc sum_era [of n] by simp
qed simp

text \<open>
  C37. The emission schedule: the reward of a block is the initial reward halved once per halving
  interval with the tail as its floor, it never grows with the height, and all the halving eras
  together (fifteen intervals, after which only the tail is paid) emit about one million CIP, far
  below the supply cap of 18.4 million that the parameters announce.
\<close>

theorem emission_schedule:
  "unat (block_reward h) = max (4000000 div 2 ^ (unat h div 126144000)) 130
   \<and> (\<forall>h'. h \<le> h' \<longrightarrow> block_reward h' \<le> block_reward h)
   \<and> (15 * 126144000 \<le> unat h \<longrightarrow> block_reward h = TAIL_EMISSION)
   \<and> (\<Sum>i<15 * 126144000. unat (block_reward (of_nat i))) = 1009120968576000
   \<and> unat PREMINE * 10 ^ 9 + 1009120968576000 < unat MAX_SUPPLY * 10 ^ 9 div 18"
proof (intro conjI)
  show "unat (block_reward h) = max (4000000 div 2 ^ (unat h div 126144000)) 130"
    by (simp add: block_reward_exact reward_spec_def)
  show "\<forall>h'. h \<le> h' \<longrightarrow> block_reward h' \<le> block_reward h"
    by (simp add: word_le_nat_alt block_reward_exact reward_spec_antimono)
  show "15 * 126144000 \<le> unat h \<longrightarrow> block_reward h = TAIL_EMISSION"
  proof
    assume h: "15 * 126144000 \<le> unat h"
    have "reward_spec (unat h) \<le> reward_spec (15 * 126144000)" using h by (rule reward_spec_antimono)
    also have "\<dots> = 130" by (simp add: reward_spec_def)
    finally have "unat (block_reward h) = 130"
      using reward_spec_bounds(1) [of "unat h"] by (simp add: block_reward_exact)
    then have "unat (block_reward h) = unat TAIL_EMISSION" by (simp add: TAIL_EMISSION_def)
    then show "block_reward h = TAIL_EMISSION" by (simp only: word_unat_eq_iff)
  qed
  have "unat (of_nat i :: u64) = i" if "i < 15 * 126144000" for i
    using that by (intro unat_of_nat_exact) simp
  then have "(\<Sum>i<15 * 126144000. unat (block_reward (of_nat i))) = (\<Sum>i<15 * 126144000. reward_spec i)"
    by (intro sum.cong) (simp_all add: block_reward_exact)
  also have "\<dots> = (\<Sum>k<15. 126144000 * max (4000000 div 2 ^ k) 130)" by (rule sum_eras)
  also have "\<dots> = 1009120968576000" by (simp add: lessThan_nat_numeral)
  finally show "(\<Sum>i<15 * 126144000. unat (block_reward (of_nat i))) = 1009120968576000" .
  show "unat PREMINE * 10 ^ 9 + 1009120968576000 < unat MAX_SUPPLY * 10 ^ 9 div 18"
    by (simp add: PREMINE_def MAX_SUPPLY_def)
qed

section \<open>The adaptive exit lock\<close>

definition adaptive_exit_lock :: "u64 \<Rightarrow> u64 \<Rightarrow> u64" where
  "adaptive_exit_lock pending validators =
     (if validators = 0 then MIN_EXIT_LOCK_BLOCKS
      else
        (let exit_ratio = f64_div (u64_as_f64 pending) (u64_as_f64 validators);
             lock = f64_add (u64_as_f64 MIN_EXIT_LOCK_BLOCKS)
                      (f64_mul exit_ratio (u64_as_f64 (MAX_EXIT_LOCK_BLOCKS - MIN_EXIT_LOCK_BLOCKS))) in
         f64_as_u64 (f64_min lock (u64_as_f64 MAX_EXIT_LOCK_BLOCKS))))"

text \<open>The lock as a rational, with the roundings of the four floating-point operations.\<close>

definition lock_value :: "u64 \<Rightarrow> u64 \<Rightarrow> rat" where
  "lock_value p t =
     min (rnd (3024000 + rnd (rnd (rnd (of_nat (unat p)) / rnd (of_nat (unat t))) * 7560000))) 10584000"

lemma adaptive_exit_lock_value:
  assumes "t \<noteq> 0"
  shows "adaptive_exit_lock p t = of_int \<lfloor>lock_value p t\<rfloor>"
proof -
  define x where "x = rnd (of_nat (unat p))"
  define y where "y = rnd (of_nat (unat t))"
  have xy: "0 \<le> x" "x \<le> 2 ^ 64" "1 \<le> y"
    using rnd_u64 [of p] rnd_u64_positive [OF assms] by (simp_all add: x_def y_def rnd_nonneg)
  then have "x / y \<le> x" by (simp add: divide_le_eq mult_le_cancel_left1)
  then have q: "x / y \<le> 2 ^ 64" using xy by simp
  then have q': "rnd (x / y) \<le> 2 ^ 64" by (rule rnd_le_pow2)
  then have "rnd (x / y) * 7560000 \<le> 2 ^ 64 * 2 ^ 23" by (intro mult_mono) (simp_all add: rnd_nonneg)
  then have m: "rnd (x / y) * 7560000 \<le> 2 ^ 87" by simp
  then have "rnd (rnd (x / y) * 7560000) \<le> 2 ^ 87" by (rule rnd_le_pow2)
  then have a: "3024000 + rnd (rnd (x / y) * 7560000) \<le> 2 ^ 88" by simp
  have big: "z \<le> 2 ^ 1023" if "z \<le> 2 ^ k" "k \<le> 1023" for z :: rat and k
    using that by (meson one_le_numeral order_trans power_increasing)
  have cst: "u64_as_f64 MIN_EXIT_LOCK_BLOCKS = Fin 3024000"
    "u64_as_f64 MAX_EXIT_LOCK_BLOCKS = Fin 10584000"
    "u64_as_f64 (MAX_EXIT_LOCK_BLOCKS - MIN_EXIT_LOCK_BLOCKS) = Fin 7560000"
    by (subst u64_as_f64_small; simp add: exit_lock_values)+
  have pt: "u64_as_f64 p = Fin x" "u64_as_f64 t = Fin y"
    by (simp_all add: u64_as_f64_Fin x_def y_def)
  have "f64_div (Fin x) (Fin y) = Fin (rnd (x / y))"
    using xy q by (simp add: f64_of_small big [where k = 64])
  moreover have "f64_mul (Fin (rnd (x / y))) (Fin 7560000) = Fin (rnd (rnd (x / y) * 7560000))"
    using m by (simp add: f64_of_small big [where k = 87] del: times_divide_eq_left)
  moreover have "f64_add (Fin 3024000) (Fin (rnd (rnd (x / y) * 7560000))) =
      Fin (rnd (3024000 + rnd (rnd (x / y) * 7560000)))"
    using a by (simp add: f64_of_small big [where k = 88])
  ultimately have "adaptive_exit_lock p t = f64_as_u64 (Fin (lock_value p t))"
    using assms by (simp only: adaptive_exit_lock_def if_False Let_def cst pt f64_min.simps
        lock_value_def x_def y_def)
  moreover have "\<lfloor>lock_value p t\<rfloor> \<le> 10584000"
    by (simp add: lock_value_def floor_le_iff min_less_iff_disj)
  ultimately show ?thesis by (simp add: min_def)
qed

lemma lock_value_bounds: "3024000 \<le> lock_value p t" "lock_value p t \<le> 10584000"
proof -
  have "rnd (of_nat 3024000) = (of_nat 3024000 :: rat)" by (rule rnd_of_nat) simp
  moreover have "rnd 3024000 \<le> rnd (3024000 + rnd (rnd (rnd (of_nat (unat p)) / rnd (of_nat (unat t))) * 7560000))"
    by (rule rnd_mono) (simp add: rnd_nonneg)
  ultimately show "3024000 \<le> lock_value p t" by (simp add: lock_value_def)
  show "lock_value p t \<le> 10584000" by (simp add: lock_value_def)
qed

lemma lock_value_mono:
  assumes "p \<le> p'"
  shows "lock_value p t \<le> lock_value p' t"
proof -
  have "rnd (of_nat (unat p)) \<le> rnd (of_nat (unat p'))"
    using assms by (intro rnd_mono) (simp add: word_le_nat_alt del: of_nat_unat)
  then have "rnd (of_nat (unat p)) / rnd (of_nat (unat t)) \<le> rnd (of_nat (unat p')) / rnd (of_nat (unat t))"
    by (intro divide_right_mono rnd_nonneg)
  then show ?thesis
    unfolding lock_value_def
    by (intro min.mono rnd_mono add_left_mono mult_right_mono order_refl) simp_all
qed

lemma lock_value_full:
  assumes "t \<le> p" "t \<noteq> 0"
  shows "lock_value p t = 10584000"
proof -
  have "rnd (of_nat (unat t)) \<le> rnd (of_nat (unat p))"
    using assms(1) by (intro rnd_mono) (simp add: word_le_nat_alt del: of_nat_unat)
  with rnd_u64_positive [OF assms(2)]
  have "1 \<le> rnd (of_nat (unat p)) / rnd (of_nat (unat t))" by (simp add: le_divide_eq)
  then have "1 \<le> rnd (rnd (of_nat (unat p)) / rnd (of_nat (unat t)))"
    using rnd_mono rnd_pow2 [of 0] by fastforce
  then have "7560000 \<le> rnd (rnd (of_nat (unat p)) / rnd (of_nat (unat t))) * 7560000" by simp
  then have "rnd (of_nat 7560000) \<le> rnd (rnd (rnd (of_nat (unat p)) / rnd (of_nat (unat t))) * 7560000)"
    by (intro rnd_mono) simp
  then have "of_nat 10584000 \<le> 3024000 + rnd (rnd (rnd (of_nat (unat p)) / rnd (of_nat (unat t))) * 7560000)"
    by (subst (asm) rnd_of_nat) simp_all
  then have "rnd (of_nat 10584000) \<le>
      rnd (3024000 + rnd (rnd (rnd (of_nat (unat p)) / rnd (of_nat (unat t))) * 7560000))"
    by (rule rnd_mono)
  then show ?thesis by (subst (asm) rnd_of_nat) (simp_all add: lock_value_def min_def)
qed

text \<open>
  The adaptive exit lock, with every rounding of its binary64 computation: it always lies
  between the two-week minimum and the seven-week maximum, it never shrinks when more validators
  queue to exit, it is the minimum when nobody does (or there is no validator), and it is the
  maximum as soon as the queue is as long as the validator set.
\<close>

theorem exit_lock_bounded_monotone:
  "MIN_EXIT_LOCK_BLOCKS \<le> adaptive_exit_lock p t \<and> adaptive_exit_lock p t \<le> MAX_EXIT_LOCK_BLOCKS
   \<and> (p \<le> p' \<longrightarrow> adaptive_exit_lock p t \<le> adaptive_exit_lock p' t)
   \<and> adaptive_exit_lock 0 t = MIN_EXIT_LOCK_BLOCKS
   \<and> (t \<noteq> 0 \<and> t \<le> p \<longrightarrow> adaptive_exit_lock p t = MAX_EXIT_LOCK_BLOCKS)"
proof (cases "t = 0")
  case True
  then show ?thesis by (simp add: adaptive_exit_lock_def exit_lock_values)
next
  case False
  have fl: "3024000 \<le> \<lfloor>lock_value p t\<rfloor>" "\<lfloor>lock_value p t\<rfloor> \<le> 10584000" for p
    using lock_value_bounds [of p t] by (simp_all add: le_floor_iff floor_le_iff)
  have u: "unat (adaptive_exit_lock p t) = nat \<lfloor>lock_value p t\<rfloor>" for p
  proof -
    define n where "n = nat \<lfloor>lock_value p t\<rfloor>"
    have n: "\<lfloor>lock_value p t\<rfloor> = int n" "n \<le> 10584000"
      unfolding n_def using fl [of p] by linarith+
    have "unat (of_nat n :: u64) = n" using n(2) by (intro unat_of_nat_exact) simp
    then show ?thesis by (simp only: adaptive_exit_lock_value [OF False] n of_int_of_nat_eq nat_int)
  qed
  have zero: "lock_value 0 t = 3024000"
  proof -
    have "rnd (of_nat 3024000) = (of_nat 3024000 :: rat)" by (rule rnd_of_nat) simp
    then show ?thesis by (simp add: lock_value_def)
  qed
  have "p \<le> p' \<longrightarrow> adaptive_exit_lock p t \<le> adaptive_exit_lock p' t"
    by (simp add: word_le_nat_alt u lock_value_mono floor_mono nat_mono)
  moreover have "MIN_EXIT_LOCK_BLOCKS \<le> adaptive_exit_lock p t"
    "adaptive_exit_lock p t \<le> MAX_EXIT_LOCK_BLOCKS"
    using nat_mono [OF fl(1) [of p]] nat_mono [OF fl(2) [of p]]
    by (simp_all add: word_le_nat_alt u exit_lock_values)
  moreover have "adaptive_exit_lock 0 t = MIN_EXIT_LOCK_BLOCKS"
    by (simp add: adaptive_exit_lock_value [OF False] zero exit_lock_values)
  moreover have "t \<le> p \<Longrightarrow> adaptive_exit_lock p t = MAX_EXIT_LOCK_BLOCKS"
    using False by (simp add: adaptive_exit_lock_value lock_value_full exit_lock_values)
  ultimately show ?thesis by blast
qed

theorem exit_lock_bounded_monotone_witness:
  "MIN_EXIT_LOCK_BLOCKS \<le> adaptive_exit_lock 3 10 \<and> adaptive_exit_lock 3 10 \<le> MAX_EXIT_LOCK_BLOCKS
   \<and> adaptive_exit_lock 3 10 \<le> adaptive_exit_lock 10 10 \<and> adaptive_exit_lock 0 10 = MIN_EXIT_LOCK_BLOCKS
   \<and> adaptive_exit_lock 10 10 = MAX_EXIT_LOCK_BLOCKS"
  using exit_lock_bounded_monotone [of 3 10 10] exit_lock_bounded_monotone [of 10 10 10] by simp

theorem emission_schedule_witness:
  "block_reward 2000000000 = TAIL_EMISSION \<and> block_reward 126144000 \<le> block_reward 0
   \<and> unat (block_reward 126144000) = 2000000"
  using emission_schedule [of 2000000000] emission_schedule [of 0] emission_schedule [of 126144000]
  by simp

end
