(* ===== verification/Chain.thy ===== *)
theory Chain
  imports Db Params
begin

text \<open>
  \<open>src/src/core/chain.rs\<close>: the chain state and its operations. Hash maps are partial maps, hash sets
  are sets; the order in which \<open>all_utxos\<close> lists the map and the order in which rayon visits the
  transactions of a block are arguments. \<open>append_block\<close> returns its result together with the state
  after the call, so that what an error leaves behind is part of the model.
\<close>

section \<open>State\<close>

datatype chain_error =
    HeightMismatch u64 u64
  | InvalidPrevHash
  | InvalidSignature
  | DoubleSpend string
  | InvalidTransaction string
  | BlockNotFound u64
  | StorageError string

record utxo_entry =
  ut_output :: stealth_output
  ut_block_height :: u64
  ut_tx_id :: tx_id
  ut_output_index :: u32

record exit_request =
  er_validator_commitment :: bytes
  er_request_height :: u64
  er_unlock_height :: u64
  er_stake_commitment :: pedersen_commitment

record 'd chain =
  blocks_by_hash :: "block_hash \<Rightarrow> block option"
  blocks_by_height :: "block_hash list"
  utxo_set :: "tx_id \<times> u32 \<Rightarrow> utxo_entry option"
  spent_key_images :: "key_image_bytes set"
  pending_exits :: "exit_request list"
  total_validators :: u64
  circulating_supply :: u64
  ch_height :: u64
  tip_hash :: block_hash
  ch_db :: "'d option"

interpretation spent_images: spent_set "\<lambda>s k. k \<in> s" insert
  by unfold_locales auto

definition chain_new :: "('p, 's) crates \<Rightarrow> i64 \<Rightarrow> 'd chain" where
  "chain_new e now =
     (let genesis_hash = block_hash_of e (genesis now) in
      \<lparr> blocks_by_hash = [genesis_hash \<mapsto> genesis now], blocks_by_height = [genesis_hash],
        utxo_set = Map.empty, spent_key_images = {}, pending_exits = [], total_validators = 1,
        circulating_supply = PREMINE * 1000000000, ch_height = 0, tip_hash = genesis_hash,
        ch_db = None \<rparr>)"

section \<open>Applying a block\<close>

definition add_output ::
  "tx_id \<Rightarrow> u64 \<Rightarrow> nat \<times> stealth_output \<Rightarrow> (tx_id \<times> u32 \<Rightarrow> utxo_entry option) \<Rightarrow>
   (tx_id \<times> u32 \<Rightarrow> utxo_entry option)" where
  "add_output txid h io m =
     (case io of (idx, out) \<Rightarrow>
        m((txid, of_nat idx) \<mapsto>
            \<lparr> ut_output = out, ut_block_height = h, ut_tx_id = txid, ut_output_index = of_nat idx \<rparr>))"

definition apply_tx :: "('p, 's) crates \<Rightarrow> u64 \<Rightarrow> transaction \<Rightarrow> 'd chain \<Rightarrow> 'd chain" where
  "apply_tx e h tx c =
     (let spent = fold insert (key_images tx) (spent_key_images c);
          utxos = fold (add_output (tx_ident e tx) h) (enumerate 0 (outputs tx)) (utxo_set c);
          supply = (if tx_type tx = Coinbase
                    then min (sat_add (circulating_supply c) (block_reward h)) (MAX_SUPPLY * 1000000000)
                    else circulating_supply c) in
      c\<lparr>spent_key_images := spent, utxo_set := utxos, circulating_supply := supply\<rparr>)"

definition apply_block :: "('p, 's) crates \<Rightarrow> block \<Rightarrow> 'd chain \<Rightarrow> 'd chain" where
  "apply_block e b c = fold (apply_tx e (hd_height (header b))) (transactions b) c"

section \<open>Validation\<close>

definition validate_transaction ::
  "('p::ab_group_add, 's::field) crates \<Rightarrow> 'd chain \<Rightarrow> transaction \<Rightarrow> chain_error + unit" where
  "validate_transaction e c tx =
     (case find (\<lambda>i. key_image i \<in> spent_key_images c) (inputs tx) of
        Some i \<Rightarrow> Inl (DoubleSpend (hex_encode e (key_image i)))
      | None \<Rightarrow>
          (if \<not> tx_verify e tx then Inl (InvalidTransaction ''cryptographic verification failed'')
           else Inr ()))"

text \<open>The first key image that the block uses twice.\<close>

fun repeated_key_image :: "key_image_bytes list \<Rightarrow> key_image_bytes set \<Rightarrow> key_image_bytes option" where
  "repeated_key_image [] seen = None"
| "repeated_key_image (k # ks) seen =
     (if k \<in> seen then Some k else repeated_key_image ks (insert k seen))"

text \<open>
  Rayon's \<open>try_for_each\<close>: the tasks run in the order \<open>sched\<close> (indices into the block) until one
  fails; every order that names each index is possible.
\<close>

fun try_for_each :: "('a \<Rightarrow> 'err + unit) \<Rightarrow> 'a list \<Rightarrow> nat list \<Rightarrow> 'err + unit" where
  "try_for_each f xs [] = Inr ()"
| "try_for_each f xs (i # sched) =
     (case f (xs ! i) of Inl err \<Rightarrow> Inl err | Inr _ \<Rightarrow> try_for_each f xs sched)"

definition schedule_for :: "'a list \<Rightarrow> nat list \<Rightarrow> bool" where
  "schedule_for xs sched \<longleftrightarrow> set sched = {..<length xs}"

definition coinbase_count :: "block \<Rightarrow> nat" where
  "coinbase_count b = length (filter (\<lambda>tx. tx_type tx = Coinbase) (transactions b))"

section \<open>Appending\<close>

text \<open>Both writes are attempted; a failure of either is only logged.\<close>

definition persist ::
  "('p, 's) crates \<Rightarrow> 'd rocks \<Rightarrow> block \<Rightarrow> u64 \<Rightarrow> block_hash \<Rightarrow> 'd option \<Rightarrow> 'd option" where
  "persist e R b h tip db =
     (case db of
        None \<Rightarrow> None
      | Some d \<Rightarrow> Some (snd (save_chain_state R (snd (put_block e R d b)) h tip)))"

definition append_block ::
  "('p::ab_group_add, 's::field) crates \<Rightarrow> 'd rocks \<Rightarrow> nat list \<Rightarrow> 'd chain \<Rightarrow> block \<Rightarrow>
   (chain_error + unit) \<times> 'd chain" where
  "append_block e R sched c b =
     (let expected_height = ch_height c + 1 in
      if hd_height (header b) \<noteq> expected_height
      then (Inl (HeightMismatch expected_height (hd_height (header b))), c)
      else if hd_prev_hash (header b) \<noteq> tip_hash c then (Inl InvalidPrevHash, c)
      else if 1 < coinbase_count b
      then (Inl (InvalidTransaction ''block contains more than one coinbase transaction''), c)
      else if coinbase_count b = 1 \<and>
          (case transactions b of [] \<Rightarrow> True | tx # _ \<Rightarrow> tx_type tx \<noteq> Coinbase)
      then (Inl (InvalidTransaction ''coinbase must be the first transaction in a block''), c)
      else
        (case repeated_key_image (block_key_images b) {} of
           Some k \<Rightarrow> (Inl (DoubleSpend (''within-block: '' @ hex_encode e k)), c)
         | None \<Rightarrow>
             (case try_for_each (validate_transaction e c) (transactions b) sched of
                Inl err \<Rightarrow> (Inl err, c)
              | Inr _ \<Rightarrow>
                  (let hash = block_hash_of e b; c1 = apply_block e b c in
                   (Inr (),
                    c1\<lparr>ch_height := expected_height, tip_hash := hash,
                       blocks_by_height := blocks_by_height c1 @ [hash],
                       blocks_by_hash := (blocks_by_hash c1)(hash \<mapsto> b),
                       ch_db := persist e R b expected_height hash (ch_db c1)\<rparr>)))))"

section \<open>Queries\<close>

definition tip :: "'d chain \<Rightarrow> block option" where
  "tip c = blocks_by_hash c (tip_hash c)"

definition block_at :: "'d chain \<Rightarrow> u64 \<Rightarrow> block option" where
  "block_at c h =
     (if unat h < length (blocks_by_height c) then blocks_by_hash c (blocks_by_height c ! unat h)
      else None)"

definition block_by_hash :: "'d chain \<Rightarrow> block_hash \<Rightarrow> block option" where
  "block_by_hash c hash = blocks_by_hash c hash"

definition calculate_exit_lock :: "'d chain \<Rightarrow> u64" where
  "calculate_exit_lock c =
     adaptive_exit_lock (of_nat (length (pending_exits c))) (total_validators c)"

text \<open>The values of the map in the order of its keys in \<open>ks\<close>.\<close>

definition all_utxos :: "(tx_id \<times> u32) list \<Rightarrow> 'd chain \<Rightarrow> utxo_entry list" where
  "all_utxos ks c = map (\<lambda>k. the (utxo_set c k)) ks"

record chain_stats =
  cs_height :: u64
  cs_tip_hash :: string
  cs_utxo_count :: nat
  cs_spent_outputs :: nat
  cs_pending_exits :: nat
  cs_total_validators :: u64
  cs_circulating_supply_cip :: u64
  cs_next_block_reward_cip :: u64
  cs_next_halving_block :: u64

definition stats :: "('p, 's) crates \<Rightarrow> 'd chain \<Rightarrow> chain_stats" where
  "stats e c =
     \<lparr> cs_height = ch_height c, cs_tip_hash = hex_encode e (tip_hash c),
       cs_utxo_count = card (dom (utxo_set c)), cs_spent_outputs = card (spent_key_images c),
       cs_pending_exits = length (pending_exits c), cs_total_validators = total_validators c,
       cs_circulating_supply_cip = circulating_supply c div 1000000000,
       cs_next_block_reward_cip = block_reward (ch_height c + 1) div 1000000000,
       cs_next_halving_block = (ch_height c div HALVING_INTERVAL + 1) * HALVING_INTERVAL \<rparr>"

section \<open>Opening a stored chain\<close>

text \<open>The replay loop, over the heights still to read.\<close>

fun replay ::
  "('p, 's) crates \<Rightarrow> 'd rocks \<Rightarrow> 'd \<Rightarrow> u64 list \<Rightarrow> 'd chain \<Rightarrow> 'd chain" where
  "replay e R d [] c = c"
| "replay e R d (h # hs) c =
     (case get_block_by_height e R d h of
        Inr (Some b) \<Rightarrow>
          (let hash = block_hash_of e b; c1 = apply_block e b c in
           replay e R d hs
             (c1\<lparr>ch_height := h, tip_hash := hash, blocks_by_height := blocks_by_height c1 @ [hash],
                 blocks_by_hash := (blocks_by_hash c1)(hash \<mapsto> b)\<rparr>))
      | Inr None \<Rightarrow> c
      | Inl _ \<Rightarrow> c)"

definition heights_up_to :: "u64 \<Rightarrow> u64 list" where
  "heights_up_to h = map of_nat [1..<Suc (unat h)]"

definition chain_open ::
  "('p, 's) crates \<Rightarrow> 'd rocks \<Rightarrow> string + 'd \<Rightarrow> i64 \<Rightarrow> 'd chain" where
  "chain_open e R opened now =
     (case opened of
        Inl _ \<Rightarrow> chain_new e now
      | Inr d \<Rightarrow>
          (let c = chain_new e now;
               c' = (case load_chain_state R d of
                       Inr (Some (stored_height, _)) \<Rightarrow>
                         (if 0 < stored_height then replay e R d (heights_up_to stored_height) c else c)
                     | Inr None \<Rightarrow> c
                     | Inl _ \<Rightarrow> c) in
           c'\<lparr>ch_db := Some d\<rparr>))"

end
