(* ===== verification/ChainProps.thy ===== *)
theory ChainProps
  imports Chain
begin

text \<open>
  What the chain guarantees: the exact acceptance condition of \<open>append_block\<close> and its atomicity,
  the invariants of every run of appends, the supply, and what the replay of a stored chain
  rebuilds. An accepted block acts on the in-memory state as \<open>extend_chain\<close>; a run of appends is a fold of
  \<open>extend_chain\<close> over the accepted blocks.
\<close>

section \<open>The acceptance condition\<close>

definition coinbase_ok :: "block \<Rightarrow> bool" where
  "coinbase_ok b \<longleftrightarrow>
     coinbase_count b = 0 \<or>
     coinbase_count b = 1 \<and> transactions b \<noteq> [] \<and> tx_type (hd (transactions b)) = Coinbase"

definition tx_acceptable :: "('p::ab_group_add, 's::field) crates \<Rightarrow> 'd chain \<Rightarrow> transaction \<Rightarrow> bool" where
  "tx_acceptable e c tx \<longleftrightarrow> set (key_images tx) \<inter> spent_key_images c = {} \<and> tx_verify e tx"

definition block_ok :: "('p::ab_group_add, 's::field) crates \<Rightarrow> 'd chain \<Rightarrow> block \<Rightarrow> bool" where
  "block_ok e c b \<longleftrightarrow>
     hd_height (header b) = ch_height c + 1 \<and> hd_prev_hash (header b) = tip_hash c \<and>
     coinbase_ok b \<and> distinct (block_key_images b) \<and>
     (\<forall>tx\<in>set (transactions b). tx_acceptable e c tx)"

text \<open>The state after an accepted block, apart from the store.\<close>

definition extend_chain :: "('p, 's) crates \<Rightarrow> block \<Rightarrow> 'd chain \<Rightarrow> 'd chain" where
  "extend_chain e b c =
     (let hash = block_hash_of e b; c1 = apply_block e b c in
      c1\<lparr>ch_height := hd_height (header b), tip_hash := hash,
         blocks_by_height := blocks_by_height c1 @ [hash],
         blocks_by_hash := (blocks_by_hash c1)(hash \<mapsto> b)\<rparr>)"

definition with_store ::
  "('p, 's) crates \<Rightarrow> 'd rocks \<Rightarrow> block \<Rightarrow> 'd chain \<Rightarrow> 'd chain" where
  "with_store e R b c = c\<lparr>ch_db := persist e R b (ch_height c) (tip_hash c) (ch_db c)\<rparr>"

lemma validate_transaction_ok:
  "validate_transaction e c tx = Inr () \<longleftrightarrow> tx_acceptable e c tx"
  by (auto simp: validate_transaction_def tx_acceptable_def key_images_def find_None_iff
      find_Some_iff split: option.splits dest: nth_mem)

lemma repeated_key_image_None:
  "repeated_key_image ks seen = None \<longleftrightarrow> distinct ks \<and> set ks \<inter> seen = {}"
  by (induction ks arbitrary: seen) auto

lemma try_for_each_ok:
  "try_for_each f xs sched = Inr () \<longleftrightarrow> (\<forall>i\<in>set sched. f (xs ! i) = Inr ())"
  by (induction sched) (auto split: sum.splits)

lemma try_for_each_error:
  "try_for_each f xs sched = Inl err \<Longrightarrow> \<exists>i\<in>set sched. f (xs ! i) = Inl err"
  by (induction sched) (auto split: sum.splits)

lemma try_for_each_schedule:
  assumes "schedule_for xs sched"
  shows "try_for_each f xs sched = Inr () \<longleftrightarrow> (\<forall>x\<in>set xs. f x = Inr ())"
  using assms by (auto simp: try_for_each_ok schedule_for_def all_set_conv_all_nth)

lemma apply_tx_frame [simp, frame_simps]:
  "ch_height (apply_tx e h tx c) = ch_height c" "tip_hash (apply_tx e h tx c) = tip_hash c"
  "blocks_by_height (apply_tx e h tx c) = blocks_by_height c"
  "blocks_by_hash (apply_tx e h tx c) = blocks_by_hash c"
  "ch_db (apply_tx e h tx c) = ch_db c" "pending_exits (apply_tx e h tx c) = pending_exits c"
  "total_validators (apply_tx e h tx c) = total_validators c"
  by (simp_all add: apply_tx_def Let_def)

lemma fold_apply_tx_frame:
  "ch_height (fold (apply_tx e h) txs c) = ch_height c"
  "tip_hash (fold (apply_tx e h) txs c) = tip_hash c"
  "blocks_by_height (fold (apply_tx e h) txs c) = blocks_by_height c"
  "blocks_by_hash (fold (apply_tx e h) txs c) = blocks_by_hash c"
  "ch_db (fold (apply_tx e h) txs c) = ch_db c"
  "pending_exits (fold (apply_tx e h) txs c) = pending_exits c"
  "total_validators (fold (apply_tx e h) txs c) = total_validators c"
  by (induction txs arbitrary: c) auto

lemma apply_block_frame [simp, frame_simps]:
  "ch_height (apply_block e b c) = ch_height c" "tip_hash (apply_block e b c) = tip_hash c"
  "blocks_by_height (apply_block e b c) = blocks_by_height c"
  "blocks_by_hash (apply_block e b c) = blocks_by_hash c"
  "ch_db (apply_block e b c) = ch_db c" "pending_exits (apply_block e b c) = pending_exits c"
  "total_validators (apply_block e b c) = total_validators c"
  by (simp_all add: apply_block_def fold_apply_tx_frame)

lemma coinbase_ok_checks:
  "coinbase_ok b \<longleftrightarrow> \<not> 1 < coinbase_count b \<and>
     \<not> (coinbase_count b = 1 \<and> (case transactions b of [] \<Rightarrow> True | tx # _ \<Rightarrow> tx_type tx \<noteq> Coinbase))"
proof (cases "transactions b")
  case Nil
  then show ?thesis by (simp add: coinbase_ok_def coinbase_count_def)
next
  case (Cons tx txs)
  then show ?thesis by (auto simp: coinbase_ok_def)
qed

lemma append_block_accepts:
  assumes "schedule_for (transactions b) sched"
  shows "append_block e R sched c b =
    (if block_ok e c b then (Inr (), with_store e R b (extend_chain e b c))
     else (fst (append_block e R sched c b), c))"
    and "fst (append_block e R sched c b) = Inr () \<longleftrightarrow> block_ok e c b"
proof -
  note v = try_for_each_schedule [OF assms, of "validate_transaction e c", unfolded validate_transaction_ok]
  have ok: "append_block e R sched c b = (Inr (), with_store e R b (extend_chain e b c))" if "block_ok e c b"
    using that v
    by (auto simp: append_block_def Let_def block_ok_def coinbase_ok_checks
        repeated_key_image_None [of _ "{}", simplified] extend_chain_def with_store_def
        split: option.splits sum.splits)
  have no: "\<exists>err. append_block e R sched c b = (Inl err, c)" if "\<not> block_ok e c b"
    using that v
    by (auto simp: append_block_def Let_def block_ok_def coinbase_ok_checks
        repeated_key_image_None [of _ "{}", simplified] split: option.splits sum.splits)
  show "append_block e R sched c b =
    (if block_ok e c b then (Inr (), with_store e R b (extend_chain e b c))
     else (fst (append_block e R sched c b), c))"
    using ok no by auto
  show "fst (append_block e R sched c b) = Inr () \<longleftrightarrow> block_ok e c b"
    using ok no by (cases "block_ok e c b") auto
qed

text \<open>
  C1. Appending a block is exact, atomic and deterministic: whatever the order in which the
  parallel validation visits the transactions, a block is accepted if and only if it has the next
  height, links to the tip, has at most one coinbase and that one first, uses no key image twice,
  spends no spent key image and all its transactions verify; an accepted block yields the same state
  for every order, and a refused one leaves the chain exactly as it was.
\<close>

theorem append_block_exact:
  assumes "schedule_for (transactions b) sched" "schedule_for (transactions b) sched'"
  shows "(fst (append_block e R sched c b) = Inr () \<longleftrightarrow> block_ok e c b) \<and>
    (\<forall>err. fst (append_block e R sched c b) = Inl err \<longrightarrow> snd (append_block e R sched c b) = c) \<and>
    snd (append_block e R sched c b) = snd (append_block e R sched' c b)"
proof (cases "block_ok e c b")
  case True
  then show ?thesis
    using append_block_accepts(1) [OF assms(1), of e R c] append_block_accepts(1) [OF assms(2), of e R c]
    by simp
next
  case False
  then show ?thesis
    using append_block_accepts [OF assms(1), of e R c] append_block_accepts(1) [OF assms(2), of e R c]
    by (metis snd_conv)
qed

theorem append_block_exact_witness:
  "let b = (demo_block 5)\<lparr>transactions := [coinbase_placeholder 5, coinbase_placeholder 6]\<rparr>;
       c = chain_new demo 3 in
    (fst (append_block demo mem_rocks [0, 1] c b) = Inr () \<longleftrightarrow> block_ok demo c b) \<and>
    (\<forall>err. fst (append_block demo mem_rocks [0, 1] c b) = Inl err \<longrightarrow>
       snd (append_block demo mem_rocks [0, 1] c b) = c) \<and>
    snd (append_block demo mem_rocks [0, 1] c b) = snd (append_block demo mem_rocks [1, 0] c b)"
  unfolding Let_def by (rule append_block_exact) (auto simp: schedule_for_def)

section \<open>Runs\<close>

type_synonym arrival = "nat list \<times> block"

definition chain_step ::
  "('p::ab_group_add, 's::field) crates \<Rightarrow> 'd rocks \<Rightarrow> 'd chain \<Rightarrow> arrival \<Rightarrow> 'd chain" where
  "chain_step e R c ev = snd (append_block e R (fst ev) c (snd ev))"

definition fair_arrivals :: "arrival list \<Rightarrow> bool" where
  "fair_arrivals evs \<longleftrightarrow> (\<forall>ev\<in>set evs. schedule_for (transactions (snd ev)) (fst ev))"

text \<open>The blocks that a run accepts, in order.\<close>

fun accepted ::
  "('p::ab_group_add, 's::field) crates \<Rightarrow> 'd rocks \<Rightarrow> 'd chain \<Rightarrow> arrival list \<Rightarrow> block list" where
  "accepted e R c [] = []"
| "accepted e R c (ev # evs) =
     (if fst (append_block e R (fst ev) c (snd ev)) = Inr ()
      then snd ev # accepted e R (chain_step e R c ev) evs
      else accepted e R (chain_step e R c ev) evs)"

definition in_memory :: "'d chain \<Rightarrow> 'd chain" where
  "in_memory c = c\<lparr>ch_db := None\<rparr>"

fun valid_blocks :: "('p::ab_group_add, 's::field) crates \<Rightarrow> 'd chain \<Rightarrow> block list \<Rightarrow> bool" where
  "valid_blocks e c [] = True"
| "valid_blocks e c (b # bs) = (block_ok e c b \<and> valid_blocks e (extend_chain e b c) bs)"

lemma block_ok_memory [simp]: "block_ok e (in_memory c) b = block_ok e c b"
  by (simp add: block_ok_def tx_acceptable_def in_memory_def)

lemma apply_tx_db: "apply_tx e h tx (c\<lparr>ch_db := d\<rparr>) = (apply_tx e h tx c)\<lparr>ch_db := d\<rparr>"
  by (simp add: apply_tx_def Let_def)

lemma apply_block_db: "apply_block e b (c\<lparr>ch_db := d\<rparr>) = (apply_block e b c)\<lparr>ch_db := d\<rparr>"
proof -
  have "fold (apply_tx e h) txs (c\<lparr>ch_db := d\<rparr>) = (fold (apply_tx e h) txs c)\<lparr>ch_db := d\<rparr>" for h txs
    by (induction txs arbitrary: c) (auto simp: apply_tx_db)
  then show ?thesis by (simp add: apply_block_def)
qed

lemma in_memory_extend: "in_memory (extend_chain e b c) = extend_chain e b (in_memory c)"
  by (simp add: in_memory_def extend_chain_def Let_def apply_block_db)

lemma in_memory_store [simp]: "in_memory (with_store e R b c) = in_memory c"
  by (simp add: in_memory_def with_store_def)

lemma chain_step_accepts:
  assumes "schedule_for (transactions (snd ev)) (fst ev)"
  shows "chain_step e R c ev =
    (if block_ok e c (snd ev) then with_store e R (snd ev) (extend_chain e (snd ev) c) else c)"
  using append_block_accepts(1) [OF assms, of e R c] by (simp add: chain_step_def) (metis snd_conv)

text \<open>A run is, in memory, the fold of the accepted blocks, each of them acceptable in its turn.\<close>

lemma run_is_fold:
  assumes "fair_arrivals evs"
  shows "in_memory (run (chain_step e R) c evs) = fold (extend_chain e) (accepted e R c evs) (in_memory c)"
    and "valid_blocks e (in_memory c) (accepted e R c evs)"
proof -
  from assms have "in_memory (run (chain_step e R) c evs) = fold (extend_chain e) (accepted e R c evs) (in_memory c)
      \<and> valid_blocks e (in_memory c) (accepted e R c evs)"
  proof (induction evs arbitrary: c)
    case (Cons ev evs)
    then have s: "schedule_for (transactions (snd ev)) (fst ev)" and f: "fair_arrivals evs"
      by (auto simp: fair_arrivals_def)
    note step = chain_step_accepts [OF s, of e R c] append_block_accepts(2) [OF s, of e R c]
    show ?case
      using Cons.IH [OF f, of "chain_step e R c ev"]
      by (cases "block_ok e c (snd ev)") (simp_all add: step in_memory_extend)
  qed simp
  then show "in_memory (run (chain_step e R) c evs) = fold (extend_chain e) (accepted e R c evs) (in_memory c)"
    and "valid_blocks e (in_memory c) (accepted e R c evs)" by auto
qed

lemma in_memory_fields [simp]:
  "ch_height (in_memory c) = ch_height c" "tip_hash (in_memory c) = tip_hash c"
  "blocks_by_height (in_memory c) = blocks_by_height c"
  "blocks_by_hash (in_memory c) = blocks_by_hash c"
  "spent_key_images (in_memory c) = spent_key_images c"
  "utxo_set (in_memory c) = utxo_set c" "circulating_supply (in_memory c) = circulating_supply c"
  "pending_exits (in_memory c) = pending_exits c" "total_validators (in_memory c) = total_validators c"
  by (simp_all add: in_memory_def)

section \<open>Spent key images\<close>

lemma fold_apply_tx_spent:
  "spent_key_images (fold (apply_tx e h) txs c) =
     spent_key_images c \<union> set (concat (map key_images txs))"
proof (induction txs arbitrary: c)
  case (Cons tx txs)
  have "spent_key_images (apply_tx e h tx c) = set (key_images tx) \<union> spent_key_images c"
    using spent_images.mem_fold [of _ "key_images tx" "spent_key_images c"]
    by (auto simp: apply_tx_def Let_def)
  with Cons show ?case by auto
qed simp

lemma extend_spent:
  "spent_key_images (extend_chain e b c) = spent_key_images c \<union> set (block_key_images b)"
  by (simp add: extend_chain_def Let_def apply_block_def fold_apply_tx_spent block_key_images_def)

lemma block_ok_fresh: "block_ok e c b \<Longrightarrow> set (block_key_images b) \<inter> spent_key_images c = {}"
  by (auto simp: block_ok_def tx_acceptable_def block_key_images_def)

lemma valid_blocks_spent:
  "valid_blocks e c bs \<Longrightarrow>
   spent_key_images (fold (extend_chain e) bs c) = spent_key_images c \<union> set (concat (map block_key_images bs))
   \<and> distinct (concat (map block_key_images bs))
   \<and> set (concat (map block_key_images bs)) \<inter> spent_key_images c = {}"
proof (induction bs arbitrary: c)
  case (Cons b bs)
  then have "block_ok e c b" and v: "valid_blocks e (extend_chain e b c) bs" by auto
  then have b: "distinct (block_key_images b)" "set (block_key_images b) \<inter> spent_key_images c = {}"
    using block_ok_fresh by (auto simp: block_ok_def)
  from Cons.IH [OF v] b show ?case by (auto simp: extend_spent)
qed simp

text \<open>
  C2. No double spend: along every run of appends, whatever the blocks offered and the order of the
  parallel checks, no key image occurs twice in the accepted history, neither inside a block nor
  across blocks, and the set of spent key images is exactly the set of those in the history.
\<close>

theorem no_double_spend:
  assumes "fair_arrivals evs"
  shows "let history = accepted e R (chain_new e now) evs; c = run (chain_step e R) (chain_new e now) evs in
    distinct (concat (map block_key_images history)) \<and>
    spent_key_images c = set (concat (map block_key_images history))"
proof -
  let ?c = "chain_new e now"
  have "spent_key_images (in_memory ?c) = {}" by (simp add: chain_new_def Let_def)
  with valid_blocks_spent [OF run_is_fold(2) [OF assms, of e ?c R]]
    run_is_fold(1) [OF assms, of e R ?c]
  show ?thesis
    by (metis (no_types, lifting) Un_empty_left in_memory_fields(5))
qed

theorem no_double_spend_witness:
  "let evs = [([0], (demo_block 1)\<lparr>transactions := [coinbase_placeholder 1]\<rparr>)];
       history = accepted demo mem_rocks (chain_new demo 3) evs;
       c = run (chain_step demo mem_rocks) (chain_new demo 3) evs in
    distinct (concat (map block_key_images history)) \<and>
    spent_key_images c = set (concat (map block_key_images history))"
  unfolding Let_def
  by (rule no_double_spend [unfolded Let_def]) (auto simp: fair_arrivals_def schedule_for_def)

end
