(* ===== verification/ChainHistory.thy ===== *)
theory ChainHistory
  imports ChainProps
begin

text \<open>
  The history of a chain: heights, links and lookups, the supply, the growth of the output set, and
  the equality of a restored chain with the one that was stored.
\<close>

section \<open>Histories\<close>

lemma valid_blocks_append:
  "valid_blocks e c (xs @ ys) \<longleftrightarrow> valid_blocks e c xs \<and> valid_blocks e (fold (extend_chain e) xs c) ys"
  by (induction xs arbitrary: c) auto

lemma extend_chain_fields [simp]:
  "ch_height (extend_chain e b c) = hd_height (header b)"
  "tip_hash (extend_chain e b c) = block_hash_of e b"
  "blocks_by_height (extend_chain e b c) = blocks_by_height c @ [block_hash_of e b]"
  "blocks_by_hash (extend_chain e b c) = (blocks_by_hash c)(block_hash_of e b \<mapsto> b)"
  by (simp_all add: extend_chain_def Let_def)

lemma fold_extend_height:
  "valid_blocks e c bs \<Longrightarrow> ch_height (fold (extend_chain e) bs c) = ch_height c + of_nat (length bs)"
  by (induction bs arbitrary: c) (auto simp: block_ok_def)

lemma fold_extend_tip:
  "tip_hash (fold (extend_chain e) bs c) = last (tip_hash c # map (block_hash_of e) bs)"
  by (induction bs rule: rev_induct) auto

lemma fold_extend_by_height:
  "blocks_by_height (fold (extend_chain e) bs c) = blocks_by_height c @ map (block_hash_of e) bs"
  by (induction bs rule: rev_induct) auto

lemma fold_extend_by_hash:
  "blocks_by_hash (fold (extend_chain e) bs c) =
     blocks_by_hash c ++ map_of (rev (map (\<lambda>b. (block_hash_of e b, b)) bs))"
  by (induction bs rule: rev_induct) (auto simp: map_add_def fun_eq_iff)

lemma valid_blocks_nth:
  assumes "valid_blocks e c bs" "i < length bs"
  shows "hd_height (header (bs ! i)) = ch_height c + of_nat (Suc i) \<and>
    hd_prev_hash (header (bs ! i)) = (tip_hash c # map (block_hash_of e) bs) ! i"
proof -
  have "bs = take i bs @ bs ! i # drop (Suc i) bs" using assms(2) by (rule id_take_nth_drop)
  with assms(1) have v: "valid_blocks e c (take i bs)"
    and b: "block_ok e (fold (extend_chain e) (take i bs) c) (bs ! i)"
    by (metis valid_blocks_append, metis valid_blocks_append valid_blocks.simps(2))
  have "last (tip_hash c # map (block_hash_of e) (take i bs)) = (tip_hash c # map (block_hash_of e) bs) ! i"
    using assms(2) by (cases i) (auto simp: take_Suc_conv_app_nth)
  with b v assms(2) show ?thesis
    by (simp add: block_ok_def fold_extend_height fold_extend_tip)
qed

text \<open>The state after a run of appends, read off its accepted blocks.\<close>

lemma run_index:
  fixes R :: "'d rocks"
  assumes "fair_arrivals evs"
  shows "let bs = genesis now # accepted e R (chain_new e now) evs;
             c = run (chain_step e R) (chain_new e now) evs in
    ch_height c = of_nat (length (accepted e R (chain_new e now) evs)) \<and>
    tip_hash c = block_hash_of e (last bs) \<and> blocks_by_height c = map (block_hash_of e) bs \<and>
    blocks_by_hash c = map_of (rev (map (\<lambda>b. (block_hash_of e b, b)) bs))"
proof -
  let ?start = "chain_new e now :: 'd chain"
  let ?hist = "accepted e R ?start evs"
  let ?bs = "genesis now # ?hist"
  let ?c = "run (chain_step e R) ?start evs"
  have fold: "in_memory ?c = fold (extend_chain e) ?hist (in_memory ?start)"
    and v: "valid_blocks e (in_memory ?start) ?hist"
    using run_is_fold [OF assms(1)] by blast+
  have new: "ch_height (in_memory ?start) = 0" "tip_hash (in_memory ?start) = block_hash_of e (genesis now)"
    "blocks_by_height (in_memory ?start) = [block_hash_of e (genesis now)]"
    "blocks_by_hash (in_memory ?start) = [block_hash_of e (genesis now) \<mapsto> genesis now]"
    by (simp_all add: chain_new_def Let_def)
  have height: "ch_height ?c = of_nat (length ?hist)"
    using fold_extend_height [OF v] fold new by (metis add_0 in_memory_fields(1))
  have tip: "tip_hash ?c = block_hash_of e (last ?bs)"
  proof -
    have "tip_hash ?c = last (map (block_hash_of e) ?bs)"
      using fold_extend_tip [of e ?hist "in_memory ?start"] fold new by (metis in_memory_fields(2) list.map(2))
    then show ?thesis by (simp only: last_map list.distinct not_False_eq_True)
  qed
  have by_height: "blocks_by_height ?c = map (block_hash_of e) ?bs"
    using fold_extend_by_height [of e ?hist "in_memory ?start"] fold new
    by (metis append_Cons append_Nil in_memory_fields(3) list.map(2))
  have "blocks_by_hash ?c = blocks_by_hash (fold (extend_chain e) ?hist (in_memory ?start))"
    by (simp only: fold [symmetric] in_memory_fields)
  also have "\<dots> = [block_hash_of e (genesis now) \<mapsto> genesis now] ++
      map_of (rev (map (\<lambda>b. (block_hash_of e b, b)) ?hist))"
    by (simp only: fold_extend_by_hash new)
  finally have "blocks_by_hash ?c = map_of (rev (map (\<lambda>b. (block_hash_of e b, b)) ?bs))" by simp
  with tip height by_height show ?thesis by (simp only: Let_def)
qed

text \<open>The lookups, when no two blocks of the history have the same hash.\<close>

lemma run_history:
  fixes R :: "'d rocks"
  assumes "fair_arrivals evs" "length (accepted e R (chain_new e now) evs) < 2 ^ 64 - 1"
    and "distinct (map (block_hash_of e) (genesis now # accepted e R (chain_new e now) evs))"
  shows "let bs = genesis now # accepted e R (chain_new e now) evs;
             c = run (chain_step e R) (chain_new e now) evs in
    ch_height c = of_nat (length (accepted e R (chain_new e now) evs)) \<and>
    tip_hash c = block_hash_of e (last bs) \<and> tip c = Some (last bs) \<and>
    (\<forall>i < length bs. block_at c (of_nat i) = Some (bs ! i))"
proof -
  let ?hist = "accepted e R (chain_new e now :: 'd chain) evs"
  let ?bs = "genesis now # ?hist"
  let ?c = "run (chain_step e R) (chain_new e now :: 'd chain) evs"
  note facts = run_index [OF assms(1), of now e R, unfolded Let_def]
  have tip: "tip_hash ?c = block_hash_of e (last ?bs)" and by_height: "blocks_by_height ?c = map (block_hash_of e) ?bs"
    and by_hash: "blocks_by_hash ?c = map_of (rev (map (\<lambda>b. (block_hash_of e b, b)) ?bs))"
    using facts by blast+
  have small: "unat (of_nat i :: u64) = i" if "i \<le> length ?hist" for i
    using that assms(2) by (intro unat_of_nat_exact) simp
  have look: "blocks_by_hash ?c (block_hash_of e b) = Some b" if "b \<in> set ?bs" for b
  proof -
    have "distinct (map fst (rev (map (\<lambda>b. (block_hash_of e b, b)) ?bs)))"
      using assms(3) by (simp add: rev_map [symmetric] comp_def)
    then show ?thesis using that unfolding by_hash by (intro map_of_is_SomeI) auto
  qed
  have at: "block_at ?c (of_nat i) = Some (?bs ! i)" if "i < length ?bs" for i
  proof -
    have "blocks_by_height ?c ! i = block_hash_of e (?bs ! i)" using that by (simp only: by_height nth_map)
    moreover have "?bs ! i \<in> set ?bs" using that by (rule nth_mem)
    moreover have "unat (of_nat i :: u64) = i" using that by (intro small) simp
    moreover have "length (blocks_by_height ?c) = length ?bs" by (simp only: by_height length_map)
    ultimately show ?thesis using that by (simp only: block_at_def look if_True)
  qed
  have "tip ?c = Some (last ?bs)"
    using look [of "last ?bs"] by (simp only: tip_def tip last_in_set list.distinct not_False_eq_True)
  then show ?thesis using facts at by (simp only: Let_def) blast
qed

lemma history_links:
  fixes R :: "'d rocks"
  assumes "fair_arrivals evs" "length (accepted e R (chain_new e now) evs) < 2 ^ 64 - 1"
    and "0 < i" "i < length (genesis now # accepted e R (chain_new e now) evs)"
  shows "let bs = genesis now # accepted e R (chain_new e now) evs in
    unat (hd_height (header (bs ! i))) = i \<and>
    hd_prev_hash (header (bs ! i)) = block_hash_of e (bs ! (i - 1))"
proof -
  let ?start = "chain_new e now :: 'd chain"
  let ?hist = "accepted e R ?start evs"
  obtain j where j: "i = Suc j" "j < length ?hist" using assms(3,4) by (cases i) auto
  have v: "valid_blocks e (in_memory ?start) ?hist" using run_is_fold(2) [OF assms(1)] .
  have new: "ch_height (in_memory ?start) = 0" "tip_hash (in_memory ?start) = block_hash_of e (genesis now)"
    by (simp_all add: chain_new_def Let_def)
  have "block_hash_of e (genesis now) # map (block_hash_of e) ?hist = map (block_hash_of e) (genesis now # ?hist)"
    by simp
  then have "(block_hash_of e (genesis now) # map (block_hash_of e) ?hist) ! j =
      block_hash_of e ((genesis now # ?hist) ! j)"
    using j(2) by (simp only: nth_map length_Cons less_SucI)
  moreover have "unat (of_nat (Suc j) :: u64) = Suc j"
    using j(2) assms(2) by (intro unat_of_nat_exact) simp
  ultimately show ?thesis
    using valid_blocks_nth [OF v j(2)] new j(1) by (simp del: of_nat_Suc)
qed

text \<open>The block that a chain expects next, around one transaction.\<close>

definition next_header :: "'d chain \<Rightarrow> block_header" where
  "next_header c = (header (genesis 0))\<lparr>hd_height := ch_height c + 1, hd_prev_hash := tip_hash c\<rparr>"

definition next_block :: "'d chain \<Rightarrow> transaction \<Rightarrow> block" where
  "next_block c tx = \<lparr> header = next_header c, transactions = [tx], signatures = [] \<rparr>"

lemma next_block_accepted:
  assumes "tx_type tx \<noteq> Coinbase" "distinct (key_images tx)" "tx_acceptable e c tx"
  shows "append_block e R [0] c (next_block c tx) =
    (Inr (), with_store e R (next_block c tx) (extend_chain e (next_block c tx) c))"
proof -
  have "block_ok e c (next_block c tx)"
    using assms by (simp add: block_ok_def next_block_def next_header_def coinbase_ok_def
        coinbase_count_def block_key_images_def)
  moreover have "schedule_for (transactions (next_block c tx)) [0]"
    by (auto simp: schedule_for_def next_block_def)
  ultimately show ?thesis using append_block_accepts(1) by (metis (no_types))
qed

text \<open>A history of one block on the demonstration instance.\<close>

definition demo_tx :: transaction where
  "demo_tx = (coinbase_placeholder 1)\<lparr>tx_type := Lite\<rparr>"

definition demo_history :: "i64 \<Rightarrow> arrival list" where
  "demo_history now =
     [([0], \<lparr> header = (header (genesis 0))\<lparr>hd_height := 1, hd_prev_hash := block_hash_of demo (genesis now)\<rparr>,
              transactions = [demo_tx], signatures = [] \<rparr>)]"

lemma demo_history_next: "demo_history now = [([0], next_block (chain_new demo now) demo_tx)]"
  by (simp add: demo_history_def next_block_def next_header_def chain_new_def Let_def)

lemma demo_history_facts:
  "fair_arrivals (demo_history now)"
  "accepted demo (R :: 'd rocks) (chain_new demo now) (demo_history now) = map snd (demo_history now)"
  "distinct (map (block_hash_of demo) (genesis now # map snd (demo_history now)))"
proof -
  show "fair_arrivals (demo_history now)"
    by (auto simp: fair_arrivals_def demo_history_def schedule_for_def)
  have "tx_acceptable demo (chain_new demo now :: 'd chain) demo_tx" "distinct (key_images demo_tx)" "tx_type demo_tx \<noteq> Coinbase"
    by (simp_all add: tx_acceptable_def demo_tx_def key_images_def coinbase_placeholder_def tx_verify_def)
  then show "accepted demo R (chain_new demo now) (demo_history now) = map snd (demo_history now)"
    by (simp add: demo_history_next [where 'a = 'd] next_block_accepted)
  have ser: "ser_header demo h = u64_to_le (hd_height h) @ u64_to_le (hd_timestamp h) @ hd_prev_hash h" for h
    by (simp add: demo_def)
  have "block_hash_of demo (genesis now) \<noteq> block_hash_of demo (snd (hd (demo_history now)))"
  proof
    assume "block_hash_of demo (genesis now) = block_hash_of demo (snd (hd (demo_history now)))"
    then have "\<exists>x y. pad_to 32 (u64_to_le 0 @ x) = pad_to 32 (u64_to_le 1 @ y)"
      by (simp add: block_hash_of_def header_hash_def ser demo_history_def genesis_def) blast
    then show False using pad_to_inject by fastforce
  qed
  then show "distinct (map (block_hash_of demo) (genesis now # map snd (demo_history now)))"
    by (simp add: demo_history_def)
qed

text \<open>
  C9. The chain is a chain: after every run of appends from the genesis block that accepts fewer than
  \<open>2^64 - 1\<close> blocks, the blocks accepted have the heights 1, 2, 3 and so on, each names the hash of
  its predecessor, the height and the tip's hash are those of the last one, and the height index lists
  the hashes of the genesis block and of the accepted blocks, in order; and when moreover these hashes
  are distinct, \<open>block_at\<close> returns at every height exactly the block accepted there, and \<open>tip\<close> the
  last one.
\<close>

theorem chain_links:
  fixes R :: "'d rocks"
  assumes "fair_arrivals evs" "length (accepted e R (chain_new e now) evs) < 2 ^ 64 - 1"
  shows "let bs = genesis now # accepted e R (chain_new e now) evs;
             c = run (chain_step e R) (chain_new e now) evs in
    unat (ch_height c) = length bs - 1 \<and> tip_hash c = block_hash_of e (last bs) \<and>
    blocks_by_height c = map (block_hash_of e) bs \<and>
    (\<forall>i. 0 < i \<and> i < length bs \<longrightarrow>
       unat (hd_height (header (bs ! i))) = i \<and>
       hd_prev_hash (header (bs ! i)) = block_hash_of e (bs ! (i - 1))) \<and>
    (distinct (map (block_hash_of e) bs) \<longrightarrow>
       (\<forall>i < length bs. block_at c (of_nat i) = Some (bs ! i)) \<and> tip c = Some (last bs))"
proof -
  let ?hist = "accepted e R (chain_new e now) evs"
  have "unat (of_nat (length ?hist) :: u64) = length ?hist"
    using assms(2) by (intro unat_of_nat_exact) simp
  then show ?thesis
    using run_index [OF assms(1), of now e R, unfolded Let_def] history_links [OF assms(1,2), unfolded Let_def]
      run_history [OF assms(1,2), unfolded Let_def]
    unfolding Let_def by (intro conjI) (simp_all only: length_Cons diff_Suc_1, blast+)
qed

text \<open>The witness is a history of one block that is accepted on top of the genesis block.\<close>

theorem chain_links_witness:
  "let b = next_block (chain_new demo 3 :: unit chain) demo_tx;
       c = run (chain_step demo mem_rocks) (chain_new demo 3) [([0], b)] in
    unat (ch_height c) = 1 \<and> tip_hash c = block_hash_of demo b \<and>
    blocks_by_height c = [block_hash_of demo (genesis 3), block_hash_of demo b] \<and>
    unat (hd_height (header b)) = 1 \<and> hd_prev_hash (header b) = block_hash_of demo (genesis 3) \<and>
    block_at c 0 = Some (genesis 3) \<and> block_at c 1 = Some b \<and> tip c = Some b"
proof -
  let ?b = "next_block (chain_new demo 3 :: unit chain) demo_tx"
  let ?R = "mem_rocks :: (cf \<times> bytes \<Rightarrow> bytes option) rocks"
  have hist: "demo_history 3 = [([0], ?b)]" by (rule demo_history_next)
  have acc: "accepted demo ?R (chain_new demo 3) [([0], ?b)] = [?b]"
    using demo_history_facts(2) [of ?R 3] unfolding hist by simp
  have fair: "fair_arrivals [([0], ?b)]" using demo_history_facts(1) [of 3] unfolding hist .
  have distinct: "distinct (map (block_hash_of demo) [genesis 3, ?b])"
    using demo_history_facts(3) [of 3] unfolding hist by simp
  have len: "length (accepted demo ?R (chain_new demo 3) [([0], ?b)]) < 2 ^ 64 - 1" by (simp add: acc)
  note facts = chain_links [OF fair len, unfolded acc Let_def]
  have at: "block_at (run (chain_step demo ?R) (chain_new demo 3) [([0], ?b)]) (of_nat i) = Some ([genesis 3, ?b] ! i)"
    if "i < 2" for i
    using facts distinct that by (metis length_Cons list.size(3) One_nat_def Suc_1)
  have link: "unat (hd_height (header ([genesis 3, ?b] ! 1))) = 1 \<and>
      hd_prev_hash (header ([genesis 3, ?b] ! 1)) = block_hash_of demo ([genesis 3, ?b] ! (1 - 1))"
    using facts by (metis length_Cons lessI list.size(3) One_nat_def zero_less_one)
  show ?thesis
    using facts distinct at [of 0] at [of 1] link unfolding Let_def by simp
qed

section \<open>Supply\<close>

definition cap_ncip :: nat where
  "cap_ncip = 18400000000000000"

lemma cap_value: "unat (MAX_SUPPLY * 1000000000) = cap_ncip"
  by (simp add: MAX_SUPPLY_def cap_ncip_def)

lemma apply_tx_supply:
  assumes "unat (circulating_supply c) \<le> cap_ncip"
  shows "unat (circulating_supply (apply_tx e h tx c)) =
    min (unat (circulating_supply c) + (if tx_type tx = Coinbase then reward_spec (unat h) else 0)) cap_ncip"
proof -
  have "unat (circulating_supply c) + reward_spec (unat h) \<le> 2 ^ 64 - 1"
    using assms reward_spec_bounds(2) [of "unat h"] by (simp add: cap_ncip_def)
  then show ?thesis
    using assms by (auto simp: apply_tx_def Let_def unat_min unat_sat_add cap_value block_reward_exact)
qed

lemma fold_apply_tx_supply:
  "unat (circulating_supply c) \<le> cap_ncip \<Longrightarrow>
   unat (circulating_supply (fold (apply_tx e h) txs c)) =
     min (unat (circulating_supply c)
       + length (filter (\<lambda>tx. tx_type tx = Coinbase) txs) * reward_spec (unat h)) cap_ncip"
proof (induction txs arbitrary: c)
  case (Cons tx txs)
  then have "unat (circulating_supply (apply_tx e h tx c)) \<le> cap_ncip"
    by (simp add: apply_tx_supply)
  from Cons.IH [OF this] Cons.prems show ?case by (auto simp: apply_tx_supply)
qed simp

definition block_emission :: "block \<Rightarrow> nat" where
  "block_emission b = coinbase_count b * reward_spec (unat (hd_height (header b)))"

lemma extend_chain_supply:
  "unat (circulating_supply c) \<le> cap_ncip \<Longrightarrow>
   unat (circulating_supply (extend_chain e b c)) =
     min (unat (circulating_supply c) + block_emission b) cap_ncip"
  by (simp add: extend_chain_def Let_def apply_block_def fold_apply_tx_supply block_emission_def
      coinbase_count_def)

lemma fold_extend_supply:
  "unat (circulating_supply c) \<le> cap_ncip \<Longrightarrow>
   unat (circulating_supply (fold (extend_chain e) bs c)) =
     min (unat (circulating_supply c) + sum_list (map block_emission bs)) cap_ncip"
proof (induction bs arbitrary: c)
  case (Cons b bs)
  then have "unat (circulating_supply (extend_chain e b c)) \<le> cap_ncip"
    by (simp add: extend_chain_supply)
  from Cons.IH [OF this] Cons.prems show ?case by (auto simp: extend_chain_supply)
qed simp

lemma valid_block_emission:
  "valid_blocks e c bs \<Longrightarrow> b \<in> set bs \<Longrightarrow> block_emission b \<le> reward_spec (unat (hd_height (header b)))"
  by (induction bs arbitrary: c)
    (auto simp: block_ok_def coinbase_ok_def block_emission_def)

text \<open>
  C10. The supply of every reachable chain is the premine plus the scheduled reward of each accepted
  block that has a coinbase (never more than one per block), cut at the cap of 18.4 million CIP; in
  particular no sequence of blocks overflows it or pushes it above the cap.
\<close>

theorem supply_exact:
  fixes R :: "'d rocks"
  assumes "fair_arrivals evs"
  shows "let bs = accepted e R (chain_new e now) evs;
             c = run (chain_step e R) (chain_new e now) evs in
    unat (circulating_supply c) =
      min (2000000000000 + sum_list (map block_emission bs)) 18400000000000000 \<and>
    (\<forall>b\<in>set bs. block_emission b = 0 \<or> block_emission b = unat (block_reward (hd_height (header b))))"
proof -
  let ?start = "chain_new e now :: 'd chain"
  let ?bs = "accepted e R ?start evs"
  have fold: "in_memory (run (chain_step e R) ?start evs) = fold (extend_chain e) ?bs (in_memory ?start)"
    and v: "valid_blocks e (in_memory ?start) ?bs"
    using run_is_fold [OF assms] by blast+
  have start: "unat (circulating_supply ?start) = 2000000000000"
    by (simp add: chain_new_def Let_def PREMINE_def)
  have "unat (circulating_supply (run (chain_step e R) ?start evs)) =
      unat (circulating_supply (in_memory (run (chain_step e R) ?start evs)))" by simp
  also have "\<dots> = min (2000000000000 + sum_list (map block_emission ?bs)) cap_ncip"
    unfolding fold by (subst fold_extend_supply) (simp_all add: start cap_ncip_def)
  finally have total: "unat (circulating_supply (run (chain_step e R) ?start evs)) =
      min (2000000000000 + sum_list (map block_emission ?bs)) cap_ncip" .
  have "block_emission b = 0 \<or> block_emission b = unat (block_reward (hd_height (header b)))"
    if "b \<in> set ?bs" for b
    using valid_block_emission [OF v that] reward_spec_bounds(1) [of "unat (hd_height (header b))"]
    by (cases "coinbase_count b") (auto simp: block_emission_def block_reward_exact)
  with total show ?thesis by (simp add: Let_def cap_ncip_def)
qed

theorem supply_exact_witness:
  "let evs = [([0], (demo_block 1)\<lparr>transactions := [coinbase_placeholder 1]\<rparr>)];
       bs = accepted demo mem_rocks (chain_new demo 3) evs;
       c = run (chain_step demo mem_rocks) (chain_new demo 3) evs in
    unat (circulating_supply c) =
      min (2000000000000 + sum_list (map block_emission bs)) 18400000000000000 \<and>
    (\<forall>b\<in>set bs. block_emission b = 0 \<or> block_emission b = unat (block_reward (hd_height (header b))))"
  using supply_exact [of "[([0], (demo_block 1)\<lparr>transactions := [coinbase_placeholder 1]\<rparr>)]"
      demo mem_rocks 3]
  by (simp add: fair_arrivals_def schedule_for_def lessThan_Suc)

section \<open>What an append cannot undo\<close>

lemma fold_add_output_dom: "dom m \<subseteq> dom (fold (add_output txid h) ios m)"
proof (induction ios arbitrary: m)
  case (Cons io ios)
  have "dom m \<subseteq> dom (add_output txid h io m)" by (cases io) (auto simp: add_output_def)
  from order_trans [OF this Cons.IH] show ?case by simp
qed simp

lemma fold_apply_tx_utxo: "dom (utxo_set c) \<subseteq> dom (utxo_set (fold (apply_tx e h) txs c))"
proof (induction txs arbitrary: c)
  case (Cons tx txs)
  have "dom (utxo_set c) \<subseteq> dom (utxo_set (apply_tx e h tx c))"
    by (simp add: apply_tx_def Let_def fold_add_output_dom)
  from order_trans [OF this Cons.IH] show ?case by simp
qed simp

lemma extend_chain_utxo: "dom (utxo_set c) \<subseteq> dom (utxo_set (extend_chain e b c))"
  by (simp add: extend_chain_def Let_def apply_block_def fold_apply_tx_utxo)

lemma with_store_frame [simp, frame_simps]:
  "utxo_set (with_store e R b c) = utxo_set c"
  "spent_key_images (with_store e R b c) = spent_key_images c"
  "circulating_supply (with_store e R b c) = circulating_supply c"
  by (simp_all add: with_store_def)

definition fair_step :: "'d chain \<Rightarrow> arrival \<Rightarrow> bool" where
  "fair_step c ev \<longleftrightarrow> schedule_for (transactions (snd ev)) (fst ev)"

definition supply_capped :: "'d chain \<Rightarrow> bool" where
  "supply_capped c \<longleftrightarrow> unat (circulating_supply c) \<le> cap_ncip"

interpretation spent_machine: mono_machine
  "chain_step e R" fair_step supply_capped "\<lambda>c. (spent_key_images c :: key_image_bytes set)"
  for e :: "('p::ab_group_add, 's::field) crates" and R :: "'d rocks"
proof unfold_locales
  fix c :: "'d chain" and ev
  assume "supply_capped c" "fair_step c ev"
  then show "supply_capped (chain_step e R c ev)" "spent_key_images c \<le> spent_key_images (chain_step e R c ev)"
    by (auto simp: fair_step_def supply_capped_def chain_step_accepts extend_chain_supply extend_spent)
qed

interpretation utxo_machine: mono_machine
  "chain_step e R" fair_step supply_capped "\<lambda>c. dom (utxo_set c)"
  for e :: "('p::ab_group_add, 's::field) crates" and R :: "'d rocks"
proof unfold_locales
  fix c :: "'d chain" and ev
  assume "fair_step c ev"
  then show "dom (utxo_set c) \<le> dom (utxo_set (chain_step e R c ev))"
    using extend_chain_utxo [of c e "snd ev"] by (auto simp: fair_step_def chain_step_accepts)
qed

end
