(* ===== verification/ChainRestore.thy ===== *)
theory ChainRestore
  imports ChainHistory
begin

text \<open>
  \<open>Chain::open\<close>: replaying the blocks that a chain stored rebuilds its state.
\<close>

section \<open>The store of a running chain\<close>

definition stored_extend :: "('p, 's) crates \<Rightarrow> 'd rocks \<Rightarrow> block \<Rightarrow> 'd chain \<Rightarrow> 'd chain" where
  "stored_extend e R b c = with_store e R b (extend_chain e b c)"

lemma run_is_stored_fold:
  "fair_arrivals evs \<Longrightarrow>
   run (chain_step e R) c evs = fold (stored_extend e R) (accepted e R c evs) c"
proof (induction evs arbitrary: c)
  case (Cons ev evs)
  then have s: "schedule_for (transactions (snd ev)) (fst ev)" and f: "fair_arrivals evs"
    by (auto simp: fair_arrivals_def)
  note step = chain_step_accepts [OF s, of e R c] append_block_accepts(2) [OF s, of e R c]
  show ?case
    using Cons.IH [OF f, of "chain_step e R c ev"]
    by (cases "block_ok e c (snd ev)") (simp_all add: step stored_extend_def)
qed simp

lemma in_memory_stored: "in_memory (stored_extend e R b c) = extend_chain e b (in_memory c)"
  by (simp add: stored_extend_def in_memory_extend)

lemma in_memory_stored_fold:
  "in_memory (fold (stored_extend e R) bs c) = fold (extend_chain e) bs (in_memory c)"
  by (induction bs arbitrary: c) (auto simp: in_memory_stored)

text \<open>The store holds the blocks of the history under heights \<open>1, 2, \<dots>\<close> and the tip.\<close>

definition holds :: "('p, 's) crates \<Rightarrow> 'd rocks \<Rightarrow> 'd \<Rightarrow> block list \<Rightarrow> bool" where
  "holds e R d bs \<longleftrightarrow>
     (\<forall>i < length bs.
        rk_get R d BLOCKS_BY_HEIGHT (u64_to_le (of_nat (Suc i))) = Inr (Some (block_hash_of e (bs ! i))) \<and>
        rk_get R d BLOCKS_BY_HASH (block_hash_of e (bs ! i)) = Inr (Some (ser_block e (bs ! i)))) \<and>
     (bs \<noteq> [] \<longrightarrow>
        rk_get R d CHAIN_STATE KEY_HEIGHT = Inr (Some (u64_to_le (of_nat (length bs)))) \<and>
        rk_get R d CHAIN_STATE KEY_TIP = Inr (Some (block_hash_of e (last bs))))"

lemma of_nat_u64_inject:
  assumes "i < 2 ^ 64" "j < 2 ^ 64"
  shows "(of_nat i :: u64) = of_nat j \<longleftrightarrow> i = j"
proof
  assume "(of_nat i :: u64) = of_nat j"
  then have "unat (of_nat i :: u64) = unat (of_nat j :: u64)" by (rule arg_cong)
  moreover have "unat (of_nat i :: u64) = i" "unat (of_nat j :: u64) = j"
    using assms by (simp_all add: unat_of_nat_exact)
  ultimately show "i = j" by simp
qed simp

lemma holds_step:
  assumes "rocks_laws R" "rocks_writable R" "holds e R d bs"
    and "hd_height (header b) = of_nat (Suc (length bs))" "Suc (length bs) < 2 ^ 64"
    and "block_hash_of e b \<notin> block_hash_of e ` set bs"
  shows "holds e R (snd (save_chain_state R (snd (put_block e R d b)) (hd_height (header b))
    (block_hash_of e b))) (bs @ [b])"
proof -
  let ?d1 = "snd (put_block e R d b)"
  let ?d2 = "snd (save_chain_state R ?d1 (hd_height (header b)) (block_hash_of e b))"
  note put = put_block_reads [OF assms(1) writes_succeed(1) [OF assms(2), of e d b]]
  note save = save_chain_state_reads [OF assms(1)
      writes_succeed(2) [OF assms(2), of ?d1 "hd_height (header b)" "block_hash_of e b"]]
  have idx: "(of_nat (Suc i) :: u64) = of_nat (Suc (length bs)) \<longleftrightarrow> i = length bs" if "i \<le> length bs" for i
    using that assms(5) by (subst of_nat_u64_inject) auto
  have "rk_get R ?d2 BLOCKS_BY_HEIGHT (u64_to_le (of_nat (Suc i))) =
        Inr (Some (block_hash_of e ((bs @ [b]) ! i))) \<and>
      rk_get R ?d2 BLOCKS_BY_HASH (block_hash_of e ((bs @ [b]) ! i)) =
        Inr (Some (ser_block e ((bs @ [b]) ! i)))" if i: "i < length (bs @ [b])" for i
  proof (cases "i = length bs")
    case True
    then show ?thesis by (simp add: save put flip: assms(4) del: of_nat_Suc)
  next
    case False
    with i have lt: "i < length bs" by simp
    then have hne: "block_hash_of e (bs ! i) \<noteq> block_hash_of e b"
      using assms(6) by (metis imageI nth_mem)
    have ne: "u64_to_le (of_nat (Suc i)) \<noteq> u64_to_le (hd_height (header b))"
      using idx [OF less_imp_le [OF lt]] False by (simp only: codec_inject assms(4)) blast
    have old: "rk_get R d BLOCKS_BY_HEIGHT (u64_to_le (of_nat (Suc i))) = Inr (Some (block_hash_of e (bs ! i)))"
      "rk_get R d BLOCKS_BY_HASH (block_hash_of e (bs ! i)) = Inr (Some (ser_block e (bs ! i)))"
      using assms(3) lt unfolding holds_def by blast+
    have bi: "(bs @ [b]) ! i = bs ! i" using lt by (simp add: nth_append)
    show ?thesis unfolding bi using hne ne old by (simp add: save(3) put del: of_nat_Suc)
  qed
  then show ?thesis
    unfolding holds_def by (simp add: save flip: assms(4) del: of_nat_Suc)
qed

lemma stored_fold_holds:
  assumes "rocks_laws R" "rocks_writable R" "ch_height c = 0" "ch_db c = Some d"
  shows "valid_blocks e (in_memory c) bs \<Longrightarrow> length bs < 2 ^ 64 - 1 \<Longrightarrow>
    distinct (map (block_hash_of e) bs) \<Longrightarrow>
    \<exists>d'. ch_db (fold (stored_extend e R) bs c) = Some d' \<and> holds e R d' bs \<and> (bs = [] \<longrightarrow> d' = d)"
proof (induction bs rule: rev_induct)
  case Nil
  then show ?case using assms(4) by (simp add: holds_def)
next
  case (snoc b bs)
  let ?c = "fold (stored_extend e R) bs c"
  from snoc.prems have v: "valid_blocks e (in_memory c) bs"
    and b: "block_ok e (fold (extend_chain e) bs (in_memory c)) b"
    by (auto simp: valid_blocks_append)
  then obtain d' where d': "ch_db ?c = Some d'" "holds e R d' bs"
    using snoc by auto
  have "ch_height (fold (extend_chain e) bs (in_memory c)) = of_nat (length bs)"
    using fold_extend_height [OF v] assms(3) by simp
  with b have h: "hd_height (header b) = of_nat (Suc (length bs))"
    by (simp add: block_ok_def)
  have "ch_db (stored_extend e R b ?c) =
      Some (snd (save_chain_state R (snd (put_block e R d' b)) (hd_height (header b)) (block_hash_of e b)))"
    by (simp add: stored_extend_def with_store_def persist_def extend_chain_def Let_def d')
  moreover have "holds e R (snd (save_chain_state R (snd (put_block e R d' b)) (hd_height (header b))
      (block_hash_of e b))) (bs @ [b])"
    using snoc.prems h by (intro holds_step assms d') auto
  ultimately show ?case by simp
qed

section \<open>The replay\<close>

text \<open>Two chains that agree on everything a block changes, except the genesis they started from.\<close>

definition same_state :: "'d chain \<Rightarrow> 'd chain \<Rightarrow> bool" where
  "same_state c c' \<longleftrightarrow>
     ch_height c = ch_height c' \<and> utxo_set c = utxo_set c' \<and>
     spent_key_images c = spent_key_images c' \<and> circulating_supply c = circulating_supply c' \<and>
     pending_exits c = pending_exits c' \<and> total_validators c = total_validators c'"

lemma apply_tx_same: "same_state c c' \<Longrightarrow> same_state (apply_tx e h tx c) (apply_tx e h tx c')"
  by (simp add: same_state_def apply_tx_def Let_def)

lemma fold_apply_tx_same:
  "same_state c c' \<Longrightarrow> same_state (fold (apply_tx e h) txs c) (fold (apply_tx e h) txs c')"
  by (induction txs arbitrary: c c') (auto intro: apply_tx_same)

lemma extend_chain_same: "same_state c c' \<Longrightarrow> same_state (extend_chain e b c) (extend_chain e b c')"
  using fold_apply_tx_same [of c c' e "hd_height (header b)" "transactions b"]
  by (simp add: same_state_def extend_chain_def Let_def apply_block_def fold_apply_tx_frame)

lemma fold_extend_same:
  "same_state c c' \<Longrightarrow> same_state (fold (extend_chain e) bs c) (fold (extend_chain e) bs c')"
  by (induction bs arbitrary: c c') (auto intro: extend_chain_same)

lemma holds_reads:
  assumes "holds e R d bs" "i < length bs" "\<forall>b\<in>set bs. de_block e (ser_block e b) = Inr b"
    and "\<forall>x. length (sha3_256 e x) = 32"
  shows "get_block_by_height e R d (of_nat (Suc i)) = Inr (Some (bs ! i))"
proof -
  have "length (block_hash_of e b) = 32" for b
    using assms(4) by (simp add: block_hash_of_def header_hash_def)
  then show ?thesis
    using assms(1-3) by (simp add: get_block_by_height_def get_block_by_hash_def holds_def del: of_nat_Suc)
qed

lemma replay_step:
  "get_block_by_height e R d h = Inr (Some b) \<Longrightarrow> hd_height (header b) = h \<Longrightarrow>
   replay e R d (h # hs) c = replay e R d hs (extend_chain e b c)"
  by (simp add: extend_chain_def Let_def)

lemma replay_fold:
  assumes "\<And>i. i < length bs \<Longrightarrow> get_block_by_height e R d (of_nat (Suc (k + i))) = Inr (Some (bs ! i))"
    and "\<And>i. i < length bs \<Longrightarrow> hd_height (header (bs ! i)) = of_nat (Suc (k + i))"
  shows "replay e R d (map of_nat [Suc k..<Suc k + length bs]) c = fold (extend_chain e) bs c"
  using assms
proof (induction bs arbitrary: k c)
  case (Cons b bs)
  have b: "get_block_by_height e R d (of_nat (Suc k)) = Inr (Some b)"
    and h: "hd_height (header b) = of_nat (Suc k)"
    using Cons.prems(1) [of 0] Cons.prems(2) [of 0] by simp_all
  have up: "[Suc k..<Suc k + length (b # bs)] = Suc k # [Suc (Suc k)..<Suc (Suc k) + length bs]"
    by (simp add: upt_conv_Cons del: upt_Suc)
  have "replay e R d (map of_nat [Suc (Suc k)..<Suc (Suc k) + length bs]) (extend_chain e b c) =
      fold (extend_chain e) bs (extend_chain e b c)"
    using Cons.prems(1) [of "Suc i" for i] Cons.prems(2) [of "Suc i" for i] by (intro Cons.IH) auto
  then show ?case
    unfolding up by (simp only: list.map replay_step [OF b h] fold_Cons comp_apply)
qed simp

text \<open>
  C13. Restarting a node restores its chain: after any run of appends on a node that started with an
  empty store, opening the store rebuilds the same height, the same output set, the same set of
  spent key images and the same supply, and, once a block was accepted, the same tip. Assumed are a
  store whose writes succeed, that \<open>bincode\<close> decodes what it encoded for the stored blocks, and that
  their hashes are distinct.
\<close>

theorem restart_restores_chain:
  fixes R :: "'d rocks"
  assumes "rocks_laws R" "rocks_writable R" "rk_get R d CHAIN_STATE KEY_HEIGHT = Inr None"
    and "fair_arrivals evs" "start = (chain_new e now)\<lparr>ch_db := Some d\<rparr>"
    and "bs = accepted e R start evs" "length bs < 2 ^ 64 - 1"
    and "\<forall>b\<in>set bs. de_block e (ser_block e b) = Inr b" "\<forall>x. length (sha3_256 e x) = 32"
    and "distinct (map (block_hash_of e) bs)"
  shows "\<exists>d'. ch_db (run (chain_step e R) start evs) = Some d' \<and>
    (let c = run (chain_step e R) start evs; c' = chain_open e R (Inr d') now' in
     ch_db c' = Some d' \<and> ch_height c' = ch_height c \<and> utxo_set c' = utxo_set c \<and>
     spent_key_images c' = spent_key_images c \<and> circulating_supply c' = circulating_supply c \<and>
     (bs \<noteq> [] \<longrightarrow> tip_hash c' = tip_hash c))"
proof -
  let ?c = "run (chain_step e R) start evs" and ?new = "chain_new e now' :: 'd chain"
  have c: "?c = fold (stored_extend e R) bs start"
    unfolding assms(6) by (rule run_is_stored_fold [OF assms(4)])
  have mem: "in_memory ?c = fold (extend_chain e) bs (in_memory start)"
    by (simp only: c in_memory_stored_fold)
  have v: "valid_blocks e (in_memory start) bs"
    unfolding assms(6) by (rule run_is_fold(2) [OF assms(4)])
  have start: "ch_height start = 0" "ch_db start = Some d" "same_state (in_memory start) ?new"
    by (simp_all add: assms(5) chain_new_def Let_def same_state_def in_memory_def)
  obtain d' where d': "ch_db ?c = Some d'" "holds e R d' bs" "bs = [] \<longrightarrow> d' = d"
    using stored_fold_holds [OF assms(1,2) start(1,2) v assms(7,10)] by (auto simp: c)
  have "same_state (in_memory ?c) (fold (extend_chain e) bs ?new)"
    unfolding mem by (rule fold_extend_same [OF start(3)])
  then have same: "same_state ?c (fold (extend_chain e) bs ?new)" by (simp add: same_state_def)
  have reopened: "chain_open e R (Inr d') now' = (fold (extend_chain e) bs ?new)\<lparr>ch_db := Some d'\<rparr>"
  proof (cases "bs = []")
    case True
    then show ?thesis
      using d'(3) assms(3) by (simp add: chain_open_def load_chain_state_def Let_def)
  next
    case False
    have n: "unat (of_nat (length bs) :: u64) = length bs"
      using assms(7) by (intro unat_of_nat_exact) simp
    have pos: "0 < (of_nat (length bs) :: u64)"
      using False by (simp only: word_less_nat_alt n) simp
    have "load_chain_state R d' = Inr (Some (of_nat (length bs), block_hash_of e (last bs)))"
      using False d'(2) assms(9)
      by (simp add: load_chain_state_def holds_def u64_le.dec_enc block_hash_of_def header_hash_def)
    moreover have "replay e R d' (heights_up_to (of_nat (length bs))) ?new = fold (extend_chain e) bs ?new"
    proof -
      have "replay e R d' (map of_nat [Suc 0..<Suc 0 + length bs]) ?new = fold (extend_chain e) bs ?new"
        using holds_reads [OF d'(2) _ assms(8,9)] valid_blocks_nth [OF v] start(1)
        by (intro replay_fold) (simp_all del: of_nat_Suc)
      then show ?thesis by (simp add: heights_up_to_def n)
    qed
    ultimately show ?thesis using pos by (simp add: chain_open_def Let_def)
  qed
  have "tip_hash ?c = tip_hash (fold (extend_chain e) bs ?new)" if "bs \<noteq> []"
  proof -
    have "tip_hash ?c = last (tip_hash (in_memory start) # map (block_hash_of e) bs)"
      by (metis mem fold_extend_tip in_memory_fields(2))
    with that show ?thesis by (simp add: fold_extend_tip)
  qed
  with d'(1) same show ?thesis
    by (auto simp: Let_def reopened same_state_def)
qed

definition demo_next :: "u64 \<Rightarrow> block_hash \<Rightarrow> block" where
  "demo_next h prev = (demo_block h)\<lparr>header := (header (demo_block h))\<lparr>hd_prev_hash := prev\<rparr>\<rparr>"

theorem restart_restores_chain_witness:
  "let b = demo_next 1 (block_hash_of demo (genesis 3));
       e = demo_with [b];
       start = (chain_new e 3)\<lparr>ch_db := Some (\<lambda>_. None)\<rparr>;
       evs = [([], b)] in
   \<exists>d'. ch_db (run (chain_step e mem_rocks) start evs) = Some d' \<and>
    (let c = run (chain_step e mem_rocks) start evs; c' = chain_open e mem_rocks (Inr d') 99 in
     ch_db c' = Some d' \<and> ch_height c' = ch_height c \<and> utxo_set c' = utxo_set c \<and>
     spent_key_images c' = spent_key_images c \<and> circulating_supply c' = circulating_supply c \<and>
     (accepted e mem_rocks start evs \<noteq> [] \<longrightarrow> tip_hash c' = tip_hash c))"
proof -
  define b where "b = demo_next 1 (block_hash_of demo (genesis 3))"
  define e where "e = demo_with [b]"
  define start where "start = (chain_new e 3)\<lparr>ch_db := Some (\<lambda>_ :: cf \<times> bytes. None :: bytes option)\<rparr>"
  let ?evs = "[([], b)] :: arrival list"
  have fair: "fair_arrivals ?evs"
    by (simp add: fair_arrivals_def schedule_for_def b_def demo_next_def demo_block_def genesis_def)
  have sub: "set (accepted e mem_rocks start ?evs) \<subseteq> {b}" "length (accepted e mem_rocks start ?evs) \<le> 1"
    by auto
  have dec: "de_block e (ser_block e b) = Inr b"
    by (simp add: e_def demo_with_def demo_codec_def)
  have empty: "rk_get mem_rocks (\<lambda>_. None) CHAIN_STATE KEY_HEIGHT = Inr None" by (simp add: mem_rocks_def)
  have len: "length (accepted e mem_rocks start ?evs) < 2 ^ 64 - 1"
    by (rule le_less_trans [OF sub(2)]) simp
  have d: "distinct (map (block_hash_of e) (accepted e mem_rocks start ?evs))" by simp
  have all: "\<forall>b\<in>set (accepted e mem_rocks start ?evs). de_block e (ser_block e b) = Inr b"
    using sub(1) dec by auto
  have sha: "\<forall>x. length (sha3_256 e x) = 32" by (simp add: e_def demo_with_def)
  show ?thesis
    unfolding Let_def b_def [symmetric] e_def [symmetric] start_def [symmetric]
    by (rule restart_restores_chain [OF mem_rocks_laws empty fair start_def refl len all sha d, unfolded Let_def])
qed

end
