(* ===== verification/ChainUtxo.thy ===== *)
theory ChainUtxo
  imports ChainHistory
begin

text \<open>
  The contents of the output set of a chain: which keys it has and where each entry comes from.
\<close>

type_synonym utxo_key = "tx_id \<times> u32"

definition output_entry :: "('p, 's) crates \<Rightarrow> u64 \<Rightarrow> transaction \<Rightarrow> nat \<Rightarrow> utxo_key \<times> utxo_entry" where
  "output_entry e h tx j =
     ((tx_ident e tx, of_nat j),
      \<lparr> ut_output = outputs tx ! j, ut_block_height = h, ut_tx_id = tx_ident e tx, ut_output_index = of_nat j \<rparr>)"

text \<open>The entries that a transaction and a block call for.\<close>

definition tx_entries :: "('p, 's) crates \<Rightarrow> u64 \<Rightarrow> transaction \<Rightarrow> (utxo_key \<times> utxo_entry) set" where
  "tx_entries e h tx = output_entry e h tx ` {..<length (outputs tx)}"

definition block_entries :: "('p, 's) crates \<Rightarrow> block \<Rightarrow> (utxo_key \<times> utxo_entry) set" where
  "block_entries e b = (\<Union>tx\<in>set (transactions b). tx_entries e (hd_height (header b)) tx)"

text \<open>The map \<open>m'\<close> is \<open>m\<close> with exactly the keys of \<open>E\<close> added, and entries from \<open>E\<close> where it differs.\<close>

definition adds_entries ::
  "(utxo_key \<times> utxo_entry) set \<Rightarrow> (utxo_key \<Rightarrow> utxo_entry option) \<Rightarrow> (utxo_key \<Rightarrow> utxo_entry option) \<Rightarrow> bool" where
  "adds_entries E m m' \<longleftrightarrow>
     dom m' = dom m \<union> fst ` E \<and> (\<forall>k u. m' k = Some u \<longrightarrow> m k = Some u \<or> (k, u) \<in> E)"

lemma adds_entries_refl: "adds_entries {} m m"
  by (simp add: adds_entries_def)

lemma adds_entries_trans: "adds_entries E m m' \<Longrightarrow> adds_entries F m' m'' \<Longrightarrow> adds_entries (E \<union> F) m m''"
proof -
  assume E: "adds_entries E m m'" and F: "adds_entries F m' m''"
  have "dom m'' = dom m \<union> fst ` (E \<union> F)"
    using E F by (simp add: adds_entries_def image_Un Un_assoc)
  moreover have "m k = Some u \<or> (k, u) \<in> E \<union> F" if "m'' k = Some u" for k u
    using E F that unfolding adds_entries_def by (metis UnCI)
  ultimately show "adds_entries (E \<union> F) m m''" by (simp add: adds_entries_def)
qed

lemma add_output_entries:
  "j < length (outputs tx) \<Longrightarrow>
   adds_entries {output_entry e h tx j} m (add_output (tx_ident e tx) h (j, outputs tx ! j) m)"
  by (auto simp: adds_entries_def add_output_def output_entry_def)

lemma enumerate_nth: "enumerate 0 xs = map (\<lambda>j. (j, xs ! j)) [0..<length xs]"
  by (rule nth_equalityI) (simp_all add: nth_enumerate_eq)

lemma fold_outputs_entries:
  "\<forall>j\<in>set js. j < length (outputs tx) \<Longrightarrow>
   adds_entries (output_entry e h tx ` set js) m
     (fold (add_output (tx_ident e tx) h) (map (\<lambda>j. (j, outputs tx ! j)) js) m)"
proof (induction js arbitrary: m)
  case (Cons j js)
  let ?m = "add_output (tx_ident e tx) h (j, outputs tx ! j) m"
  have "adds_entries {output_entry e h tx j} m ?m"
    using Cons.prems by (intro add_output_entries) simp
  from adds_entries_trans [OF this Cons.IH [of ?m]] Cons.prems show ?case by simp
qed (simp add: adds_entries_refl)

lemma apply_tx_entries: "adds_entries (tx_entries e h tx) (utxo_set c) (utxo_set (apply_tx e h tx c))"
  using fold_outputs_entries [of "[0..<length (outputs tx)]" tx e h "utxo_set c"]
  by (simp add: apply_tx_def Let_def enumerate_nth tx_entries_def lessThan_atLeast0)

lemma fold_apply_tx_entries:
  "adds_entries (\<Union>tx\<in>set txs. tx_entries e h tx) (utxo_set c) (utxo_set (fold (apply_tx e h) txs c))"
proof (induction txs arbitrary: c)
  case (Cons tx txs)
  from adds_entries_trans [OF apply_tx_entries [of e h tx c] Cons.IH [of "apply_tx e h tx c"]]
  show ?case by simp
qed (simp add: adds_entries_refl)

lemma extend_chain_entries: "adds_entries (block_entries e b) (utxo_set c) (utxo_set (extend_chain e b c))"
  using fold_apply_tx_entries [of e "hd_height (header b)" "transactions b" c]
  by (simp add: extend_chain_def apply_block_def block_entries_def Let_def)

lemma fold_extend_entries:
  "adds_entries (\<Union>b\<in>set bs. block_entries e b) (utxo_set c) (utxo_set (fold (extend_chain e) bs c))"
proof (induction bs arbitrary: c)
  case (Cons b bs)
  from adds_entries_trans [OF extend_chain_entries [of e b c] Cons.IH [of "extend_chain e b c"]]
  show ?case by simp
qed (simp add: adds_entries_refl)

text \<open>
  C23. The output set is well-typed and complete: after every run of appends, the set has exactly the keys
  of the outputs of the accepted history (two outputs share a key only when the ids of their
  transactions and their 32-bit indices agree), and each entry is that of an output of an accepted
  block: it lies under its own transaction id and index and carries the output and the height of its
  block. Nothing is ever removed from the set, spent or not.
\<close>

theorem utxo_set_typed:
  fixes R :: "'d rocks"
  assumes "fair_arrivals evs"
  shows "let entries = (\<Union>b\<in>set (accepted e R (chain_new e now) evs). block_entries e b);
             utxos = utxo_set (run (chain_step e R) (chain_new e now) evs) in
    dom utxos = fst ` entries \<and>
    (\<forall>k u. utxos k = Some u \<longrightarrow> (k, u) \<in> entries \<and> k = (ut_tx_id u, ut_output_index u))"
proof -
  let ?c = "chain_new e now :: 'd chain"
  let ?bs = "accepted e R ?c evs"
  have "utxo_set (run (chain_step e R) ?c evs) = utxo_set (in_memory (run (chain_step e R) ?c evs))"
    by simp
  also have "\<dots> = utxo_set (fold (extend_chain e) ?bs (in_memory ?c))"
    by (simp only: run_is_fold(1) [OF assms])
  finally have fold: "utxo_set (run (chain_step e R) ?c evs) = utxo_set (fold (extend_chain e) ?bs (in_memory ?c))" .
  have "utxo_set (in_memory ?c) = Map.empty" by (simp add: chain_new_def Let_def)
  then have adds: "adds_entries (\<Union>b\<in>set ?bs. block_entries e b) Map.empty (utxo_set (run (chain_step e R) ?c evs))"
    using fold_extend_entries [of e ?bs "in_memory ?c"] by (simp only: fold)
  have typed: "k = (ut_tx_id u, ut_output_index u)" if "(k, u) \<in> block_entries e b" for k u b
    using that by (auto simp: block_entries_def tx_entries_def output_entry_def)
  have keys: "dom (utxo_set (run (chain_step e R) ?c evs)) = fst ` (\<Union>b\<in>set ?bs. block_entries e b)"
    using adds by (simp add: adds_entries_def)
  have mem: "(k, u) \<in> (\<Union>b\<in>set ?bs. block_entries e b)"
    if "utxo_set (run (chain_step e R) ?c evs) k = Some u" for k u
    using adds that unfolding adds_entries_def by blast
  show ?thesis
    unfolding Let_def
  proof (intro conjI allI impI)
    fix k u
    assume u: "utxo_set (run (chain_step e R) ?c evs) k = Some u"
    from mem [OF this] obtain b where "(k, u) \<in> block_entries e b" by blast
    then show "k = (ut_tx_id u, ut_output_index u)" by (rule typed)
    from u show "(k, u) \<in> (\<Union>b\<in>set ?bs. block_entries e b)" by (rule mem)
  qed (rule keys)
qed

theorem utxo_set_typed_witness:
  "let evs = [([0], (demo_block 1)\<lparr>transactions := [coinbase_placeholder 1]\<rparr>)];
       entries = (\<Union>b\<in>set (accepted demo mem_rocks (chain_new demo 3) evs). block_entries demo b);
       utxos = utxo_set (run (chain_step demo mem_rocks) (chain_new demo 3) evs) in
    dom utxos = fst ` entries \<and>
    (\<forall>k u. utxos k = Some u \<longrightarrow> (k, u) \<in> entries \<and> k = (ut_tx_id u, ut_output_index u))"
  unfolding Let_def
  by (rule utxo_set_typed [unfolded Let_def]) (auto simp: fair_arrivals_def schedule_for_def)

end
