(* ===== verification/Pool.thy ===== *)
theory Pool
  imports Tx
begin

text \<open>
  \<open>src/src/core/mempool.rs\<close>: the pending transactions and the key images they claim. The order in
  which the hash map lists its entries is an argument of \<open>get_for_block\<close>. Operations return their
  result with the state after the call.
\<close>

definition MAX_MEMPOOL_SIZE :: nat where
  "MAX_MEMPOOL_SIZE = 50000"

record mempool =
  mp_txs :: "tx_id \<Rightarrow> transaction option"
  mp_key_images :: "key_image_bytes \<Rightarrow> tx_id option"

definition mempool_new :: mempool where
  "mempool_new = \<lparr> mp_txs = Map.empty, mp_key_images = Map.empty \<rparr>"

definition mp_size :: "mempool \<Rightarrow> nat" where
  "mp_size m = card (dom (mp_txs m))"

definition mp_is_empty :: "mempool \<Rightarrow> bool" where
  "mp_is_empty m = (mp_size m = 0)"

text \<open>Registering the key images of a transaction, in input order.\<close>

definition claim_image :: "tx_id \<Rightarrow> key_image_bytes \<Rightarrow> (key_image_bytes \<Rightarrow> tx_id option) \<Rightarrow>
   (key_image_bytes \<Rightarrow> tx_id option)" where
  "claim_image txid k m = m(k \<mapsto> txid)"

definition release_image :: "key_image_bytes \<Rightarrow> (key_image_bytes \<Rightarrow> tx_id option) \<Rightarrow>
   (key_image_bytes \<Rightarrow> tx_id option)" where
  "release_image k m = m(k := None)"

interpretation pending_images: spent_set "\<lambda>m k. k \<in> dom m" "claim_image txid" for txid
  by unfold_locales (auto simp: claim_image_def)

definition mp_add ::
  "('p::ab_group_add, 's::field) crates \<Rightarrow> mempool \<Rightarrow> transaction \<Rightarrow> (string + tx_id) \<times> mempool" where
  "mp_add e m tx =
     (if MAX_MEMPOOL_SIZE \<le> mp_size m then (Inl ''Mempool full'', m)
      else
        (case find (\<lambda>k. mp_key_images m k \<noteq> None) (key_images tx) of
           Some k \<Rightarrow>
             (Inl (''Key image already in mempool (tx: '' @ hex_encode e (the (mp_key_images m k)) @ '')''), m)
         | None \<Rightarrow>
             (if \<not> tx_verify e tx then (Inl ''Transaction verification failed'', m)
              else
                (let txid = tx_ident e tx in
                 (Inr txid,
                  m\<lparr>mp_key_images := fold (claim_image txid) (key_images tx) (mp_key_images m),
                    mp_txs := (mp_txs m)(txid \<mapsto> tx)\<rparr>)))))"

definition mp_remove :: "mempool \<Rightarrow> tx_id \<Rightarrow> mempool" where
  "mp_remove m txid =
     (case mp_txs m txid of
        None \<Rightarrow> m
      | Some tx \<Rightarrow>
          m\<lparr>mp_txs := (mp_txs m)(txid := None),
            mp_key_images := fold release_image (key_images tx) (mp_key_images m)\<rparr>)"

definition mp_get_for_block :: "tx_id list \<Rightarrow> mempool \<Rightarrow> nat \<Rightarrow> transaction list" where
  "mp_get_for_block order m limit = take limit (map (\<lambda>k. the (mp_txs m k)) order)"

definition mp_purge_spent :: "mempool \<Rightarrow> key_image_bytes list \<Rightarrow> mempool" where
  "mp_purge_spent m spent = fold (\<lambda>txid m. mp_remove m txid) (List.map_filter (mp_key_images m) spent) m"

section \<open>The invariant\<close>

text \<open>
  Every pending transaction verifies and is stored under its id, the claimed key images are exactly
  those of the pending transactions, each claimed by the transaction that uses it, and no two
  pending transactions use the same one.
\<close>

definition mempool_inv :: "('p::ab_group_add, 's::field) crates \<Rightarrow> mempool \<Rightarrow> bool" where
  "mempool_inv e m \<longleftrightarrow>
     finite (dom (mp_txs m)) \<and>
     (\<forall>txid tx. mp_txs m txid = Some tx \<longrightarrow> txid = tx_ident e tx \<and> tx_verify e tx) \<and>
     (\<forall>k txid. mp_key_images m k = Some txid \<longleftrightarrow>
        (\<exists>tx. mp_txs m txid = Some tx \<and> k \<in> set (key_images tx)))"

lemma fold_claim: "fold (claim_image txid) ks m k = (if k \<in> set ks then Some txid else m k)"
  by (induction ks arbitrary: m) (auto simp: claim_image_def)

lemma fold_release: "fold release_image ks m k = (if k \<in> set ks then None else m k)"
  by (induction ks arbitrary: m) (auto simp: release_image_def)

lemma mempool_new_inv: "mempool_inv e mempool_new"
  by (simp add: mempool_inv_def mempool_new_def)

text \<open>
  A new id: no different pending transaction has the same id (which needs a hash collision), and a
  transaction without inputs may replace only itself.
\<close>

definition fresh_id :: "('p, 's) crates \<Rightarrow> mempool \<Rightarrow> transaction \<Rightarrow> bool" where
  "fresh_id e m tx \<longleftrightarrow> (\<forall>tx'. mp_txs m (tx_ident e tx) = Some tx' \<longrightarrow> tx' = tx)"

lemma mp_add_cases:
  "mp_add e m tx =
     (if mp_size m < MAX_MEMPOOL_SIZE \<and> set (key_images tx) \<inter> dom (mp_key_images m) = {} \<and> tx_verify e tx
      then (Inr (tx_ident e tx),
            m\<lparr>mp_key_images := fold (claim_image (tx_ident e tx)) (key_images tx) (mp_key_images m),
              mp_txs := (mp_txs m)(tx_ident e tx \<mapsto> tx)\<rparr>)
      else (Inl (projl (fst (mp_add e m tx))), m))"
proof -
  have "find (\<lambda>k. mp_key_images m k \<noteq> None) (key_images tx) = None \<longleftrightarrow>
      set (key_images tx) \<inter> dom (mp_key_images m) = {}"
    by (auto simp: find_None_iff)
  then show ?thesis
    by (cases "find (\<lambda>k. mp_key_images m k \<noteq> None) (key_images tx)") (auto simp: mp_add_def Let_def)
qed

lemma mp_add_inv:
  assumes "mempool_inv e m" "fresh_id e m tx"
  shows "mempool_inv e (snd (mp_add e m tx))"
proof (cases "mp_size m < MAX_MEMPOOL_SIZE \<and> set (key_images tx) \<inter> dom (mp_key_images m) = {} \<and> tx_verify e tx")
  case True
  then have add: "snd (mp_add e m tx) =
      m\<lparr>mp_key_images := fold (claim_image (tx_ident e tx)) (key_images tx) (mp_key_images m),
        mp_txs := (mp_txs m)(tx_ident e tx \<mapsto> tx)\<rparr>"
    by (subst mp_add_cases) simp
  have new: "mp_key_images m k = None" if "k \<in> set (key_images tx)" for k
    using True that by auto
  have images: "mp_key_images m k = Some txid \<longleftrightarrow> (\<exists>t. mp_txs m txid = Some t \<and> k \<in> set (key_images t))" for k txid
    using assms(1) by (simp add: mempool_inv_def)
  have same: "t = tx" if "mp_txs m (tx_ident e tx) = Some t" for t
    using that assms(2) by (simp add: fresh_id_def)
  have "(if k \<in> set (key_images tx) then Some (tx_ident e tx) else mp_key_images m k) = Some txid \<longleftrightarrow>
      (\<exists>t. ((mp_txs m)(tx_ident e tx \<mapsto> tx)) txid = Some t \<and> k \<in> set (key_images t))" for k txid
    using new [of k] images [of k txid] images [of k "tx_ident e tx"] same
    by (cases "k \<in> set (key_images tx)"; cases "txid = tx_ident e tx") auto
  then show ?thesis
    using assms(1) True unfolding mempool_inv_def add by (simp add: fold_claim)
next
  case False
  then show ?thesis by (subst mp_add_cases) (simp only: if_False snd_conv assms(1))
qed

lemma mp_remove_inv: "mempool_inv e m \<Longrightarrow> mempool_inv e (mp_remove m txid)"
proof (cases "mp_txs m txid")
  case (Some tx)
  assume inv: "mempool_inv e m"
  have images: "mp_key_images m k = Some i \<longleftrightarrow> (\<exists>t. mp_txs m i = Some t \<and> k \<in> set (key_images t))" for k i
    using inv by (simp add: mempool_inv_def)
  have "(if k \<in> set (key_images tx) then None else mp_key_images m k) = Some i \<longleftrightarrow>
      (\<exists>t. ((mp_txs m)(txid := None)) i = Some t \<and> k \<in> set (key_images t))" for k i
    using images [of k i] images [of k txid] Some
    by (cases "k \<in> set (key_images tx)"; cases "i = txid") auto
  then show ?thesis
    using inv unfolding mempool_inv_def mp_remove_def Some by (simp add: fold_release)
qed (simp add: mp_remove_def)

lemma mp_purge_inv: "mempool_inv e m \<Longrightarrow> mempool_inv e (mp_purge_spent m spent)"
proof -
  have "mempool_inv e m \<Longrightarrow> mempool_inv e (fold (\<lambda>txid m. mp_remove m txid) ids m)" for ids m
    by (induction ids arbitrary: m) (auto intro: mp_remove_inv)
  then show "mempool_inv e m \<Longrightarrow> mempool_inv e (mp_purge_spent m spent)"
    by (simp add: mp_purge_spent_def)
qed

datatype pool_event = PoolAdd transaction | PoolRemove tx_id | PoolPurge "key_image_bytes list"

fun pool_step :: "('p::ab_group_add, 's::field) crates \<Rightarrow> mempool \<Rightarrow> pool_event \<Rightarrow> mempool" where
  "pool_step e m (PoolAdd tx) = snd (mp_add e m tx)"
| "pool_step e m (PoolRemove txid) = mp_remove m txid"
| "pool_step e m (PoolPurge ks) = mp_purge_spent m ks"

fun pool_ok :: "('p, 's) crates \<Rightarrow> mempool \<Rightarrow> pool_event \<Rightarrow> bool" where
  "pool_ok e m (PoolAdd tx) = fresh_id e m tx"
| "pool_ok e m (PoolRemove txid) = True"
| "pool_ok e m (PoolPurge ks) = True"

interpretation pool_machine: inv_machine "pool_step e" "pool_ok e" "mempool_inv e"
  for e :: "('p::ab_group_add, 's::field) crates"
proof unfold_locales
  fix m :: mempool and ev
  assume "mempool_inv e m" "pool_ok e m ev"
  then show "mempool_inv e (pool_step e m ev)"
    by (cases ev) (auto intro: mp_add_inv mp_remove_inv mp_purge_inv)
qed

lemma purge_removes:
  assumes "mempool_inv e m" "mp_txs (mp_purge_spent m spent) txid = Some tx"
  shows "set (key_images tx) \<inter> set spent = {} \<and> mp_txs m txid = Some tx"
proof -
  have gone: "mp_txs (fold (\<lambda>i m. mp_remove m i) ids m) i = (if i \<in> set ids then None else mp_txs m i)" for ids m i
    by (induction ids arbitrary: m) (auto simp: mp_remove_def split: option.splits)
  let ?ids = "List.map_filter (mp_key_images m) spent"
  from assms(2) have keep: "txid \<notin> set ?ids" "mp_txs m txid = Some tx"
    by (auto simp: mp_purge_spent_def gone split: if_splits)
  have "k \<notin> set spent" if "k \<in> set (key_images tx)" for k
  proof
    assume "k \<in> set spent"
    have "mp_key_images m k = Some txid"
      using assms(1) keep(2) that unfolding mempool_inv_def by blast
    with \<open>k \<in> set spent\<close> have "txid \<in> set ?ids"
      by (auto simp: List.map_filter_def intro!: image_eqI [where x = k])
    with keep(1) show False by simp
  qed
  with keep show ?thesis by auto
qed

text \<open>
  C34. The mempool is consistent: starting empty, after every sequence of additions, removals and
  purges the claimed key images are exactly those of the pending transactions, so two pending
  transactions never share one, each pending transaction passed verification and sits under its own
  id, and after a purge no pending transaction uses a purged key image. The guard of the run says
  that no two different transactions with the same id are offered.
\<close>

theorem mempool_consistent:
  assumes "run_ok (pool_step e) (pool_ok e) mempool_new evs"
  shows "let m = run (pool_step e) mempool_new evs in
    (\<forall>txid tx. mp_txs m txid = Some tx \<longrightarrow> txid = tx_ident e tx \<and> tx_verify e tx) \<and>
    (\<forall>k. k \<in> dom (mp_key_images m) \<longleftrightarrow> (\<exists>tx \<in> ran (mp_txs m). k \<in> set (key_images tx))) \<and>
    (\<forall>i tx i' tx' k. mp_txs m i = Some tx \<and> mp_txs m i' = Some tx' \<and> k \<in> set (key_images tx) \<and>
       k \<in> set (key_images tx') \<longrightarrow> i = i') \<and>
    (\<forall>spent i tx. mp_txs (mp_purge_spent m spent) i = Some tx \<longrightarrow> set (key_images tx) \<inter> set spent = {})"
proof -
  let ?m = "run (pool_step e) mempool_new evs"
  have inv: "mempool_inv e ?m" using mempool_new_inv assms by (rule pool_machine.run_inv)
  then have images: "mp_key_images ?m k = Some i \<longleftrightarrow> (\<exists>t. mp_txs ?m i = Some t \<and> k \<in> set (key_images t))" for k i
    by (simp add: mempool_inv_def)
  have "i = i'" if "mp_txs ?m i = Some tx" "mp_txs ?m i' = Some tx'" "k \<in> set (key_images tx)"
    "k \<in> set (key_images tx')" for i i' tx tx' k
    using that images [of k i] images [of k i'] by auto
  moreover have "k \<in> dom (mp_key_images ?m) \<longleftrightarrow> (\<exists>tx \<in> ran (mp_txs ?m). k \<in> set (key_images tx))" for k
    using images [of k] by (auto simp: ran_def dom_def)
  moreover have "\<forall>txid tx. mp_txs ?m txid = Some tx \<longrightarrow> txid = tx_ident e tx \<and> tx_verify e tx"
    using inv by (simp add: mempool_inv_def)
  ultimately show ?thesis
    using purge_removes [OF inv] unfolding Let_def by blast
qed

theorem mempool_consistent_witness:
  "let evs = [PoolAdd (coinbase_placeholder 3), PoolPurge [zeros 32], PoolRemove [1]];
       m = run (pool_step demo) mempool_new evs in
    (\<forall>txid tx. mp_txs m txid = Some tx \<longrightarrow> txid = tx_ident demo tx \<and> tx_verify demo tx) \<and>
    (\<forall>k. k \<in> dom (mp_key_images m) \<longleftrightarrow> (\<exists>tx \<in> ran (mp_txs m). k \<in> set (key_images tx))) \<and>
    (\<forall>i tx i' tx' k. mp_txs m i = Some tx \<and> mp_txs m i' = Some tx' \<and> k \<in> set (key_images tx) \<and>
       k \<in> set (key_images tx') \<longrightarrow> i = i') \<and>
    (\<forall>spent i tx. mp_txs (mp_purge_spent m spent) i = Some tx \<longrightarrow> set (key_images tx) \<inter> set spent = {})"
  unfolding Let_def
  by (rule mempool_consistent [unfolded Let_def]) (simp add: fresh_id_def mempool_new_def)

end
