(* ===== verification/Tendermint.thy ===== *)
theory Tendermint
  imports Merkle
begin

text \<open>
  \<open>src/src/consensus/tendermint.rs\<close>: the consensus engine of a validator. Instants and durations are
  milliseconds; an operation that reads the clock takes the current instant \<open>now\<close>. The order in
  which the hash map of votes is listed in a finalization is the argument \<open>ls\<close>. Every operation
  returns its output with the engine after the call.
\<close>

section \<open>Timeouts\<close>

record timeouts =
  to_propose :: nat
  to_prevote :: nat
  to_precommit :: nat
  to_round_delta :: nat

definition timeouts_default :: timeouts where
  "timeouts_default = \<lparr> to_propose = 200, to_prevote = 100, to_precommit = 100, to_round_delta = 50 \<rparr>"

definition propose_for_round :: "timeouts \<Rightarrow> u32 \<Rightarrow> nat" where
  "propose_for_round t r = to_propose t + to_round_delta t * unat r"

definition prevote_for_round :: "timeouts \<Rightarrow> u32 \<Rightarrow> nat" where
  "prevote_for_round t r = to_prevote t + to_round_delta t * unat r"

definition precommit_for_round :: "timeouts \<Rightarrow> u32 \<Rightarrow> nat" where
  "precommit_for_round t r = to_precommit t + to_round_delta t * unat r"

section \<open>Votes and proposals\<close>

datatype vote_type = Prevote | Precommit

record vote =
  vt_type :: vote_type
  vt_height :: u64
  vt_round :: u32
  vt_block_hash :: "block_hash option"
  vt_nullifier :: bytes
  vt_pubkey :: bytes
  vt_signature :: bytes
  vt_power :: u64

fun vote_tag :: "vote_type \<Rightarrow> string" where
  "vote_tag Prevote = ''PREVOTE''"
| "vote_tag Precommit = ''PRECOMMIT''"

definition vote_sign_bytes :: "vote \<Rightarrow> bytes" where
  "vote_sign_bytes v =
     str_bytes (vote_tag (vt_type v)) @ u64_to_le (vt_height v) @ u32_to_le (vt_round v)
     @ (case vt_block_hash v of Some h \<Rightarrow> h | None \<Rightarrow> zeros 32)"

definition vote_verify_signature :: "('p, 's) crates \<Rightarrow> vote \<Rightarrow> bool" where
  "vote_verify_signature e v =
     (if vt_signature v = [] then True
      else if length (vt_signature v) \<noteq> 64 then False
      else if \<not> ed_key_ok e (vt_pubkey v) then False
      else ed_verify e (vt_pubkey v) (vote_sign_bytes v) (vt_signature v))"

record proposal =
  pr_height :: u64
  pr_round :: u32
  pr_block :: block
  pr_nullifier :: bytes
  pr_signature :: bytes
  pr_validator_proof :: validator_commitment

definition proposal_sign_bytes :: "('p, 's) crates \<Rightarrow> proposal \<Rightarrow> bytes" where
  "proposal_sign_bytes e p =
     str_bytes ''PROPOSAL'' @ u64_to_le (pr_height p) @ u32_to_le (pr_round p)
     @ block_hash_of e (pr_block p)"

definition proposal_verify :: "('p, 's) crates \<Rightarrow> proposal \<Rightarrow> bool" where
  "proposal_verify e p =
     (if \<not> vc_verify (pr_validator_proof p) then False
      else if pr_signature p = [] then True
      else vc_verify_signature e (pr_validator_proof p) (proposal_sign_bytes e p) (pr_signature p))"

section \<open>Vote sets\<close>

record vote_set =
  vs_votes :: "bytes \<Rightarrow> vote option"
  vs_quorum :: u64
  vs_power :: "block_hash option \<Rightarrow> u64 option"

definition vote_set_new :: "u64 \<Rightarrow> vote_set" where
  "vote_set_new validators =
     \<lparr> vs_votes = Map.empty, vs_quorum = validators * 2 div 3 + 1, vs_power = Map.empty \<rparr>"

definition vote_set_add :: "vote_set \<Rightarrow> vote \<Rightarrow> block_hash option option \<times> vote_set" where
  "vote_set_add s v =
     (if vs_votes s (vt_nullifier v) \<noteq> None then (None, s)
      else
        (let bh = vt_block_hash v;
             acc = (case vs_power s bh of None \<Rightarrow> 0 | Some a \<Rightarrow> a) + vt_power v;
             s' = s\<lparr>vs_votes := (vs_votes s)(vt_nullifier v \<mapsto> v), vs_power := (vs_power s)(bh \<mapsto> acc)\<rparr> in
         (if vs_quorum s \<le> acc then Some bh else None, s')))"

definition vote_set_count :: "vote_set \<Rightarrow> nat" where
  "vote_set_count s = card (dom (vs_votes s))"

definition vote_set_existing :: "vote_set \<Rightarrow> bytes \<Rightarrow> vote option" where
  "vote_set_existing s nullifier = vs_votes s nullifier"

section \<open>The engine\<close>

record evidence =
  ev_height :: u64
  ev_round :: u32
  ev_vote_type :: vote_type
  ev_vote_a :: vote
  ev_vote_b :: vote

datatype consensus_step = NewHeight | StepPropose | StepPrevote | StepPrecommit | StepCommit

datatype consensus_error =
    InvalidProposal u64 u32
  | WrongHeight u64 u64
  | UnauthorizedProposer

datatype consensus_output =
    BroadcastVote vote
  | BroadcastProposal proposal
  | FinalizedBlock block "vote list"
  | SlashEvidence evidence
  | Pending

record engine =
  en_height :: u64
  en_round :: u32
  en_step :: consensus_step
  en_total_validators :: u64
  en_our_nullifier :: "bytes option"
  en_our_commitment :: "validator_commitment option"
  en_signing_key :: "bytes option"
  en_current_proposal :: "proposal option"
  en_locked_block :: "(block_hash \<times> u32) option"
  en_valid_block :: "(block_hash \<times> u32) option"
  en_prevote_sets :: "u32 \<Rightarrow> vote_set option"
  en_precommit_sets :: "u32 \<Rightarrow> vote_set option"
  en_validator_nullifiers :: "bytes list"
  en_equivocations :: "evidence list"
  en_timeouts :: timeouts
  en_step_start :: nat

definition engine_new ::
  "nat \<Rightarrow> u64 \<Rightarrow> u64 \<Rightarrow> bytes list \<Rightarrow> bytes option \<Rightarrow> validator_commitment option \<Rightarrow> engine" where
  "engine_new now h validators nullifiers our_null our_comm =
     \<lparr> en_height = h, en_round = 0, en_step = NewHeight, en_total_validators = validators,
       en_our_nullifier = our_null, en_our_commitment = our_comm, en_signing_key = None,
       en_current_proposal = None, en_locked_block = None, en_valid_block = None,
       en_prevote_sets = Map.empty, en_precommit_sets = Map.empty,
       en_validator_nullifiers = nullifiers, en_equivocations = [],
       en_timeouts = timeouts_default, en_step_start = now \<rparr>"

definition with_signing_key :: "engine \<Rightarrow> bytes \<Rightarrow> engine" where
  "with_signing_key g sk = g\<lparr>en_signing_key := Some sk\<rparr>"

definition proposer_for_round :: "engine \<Rightarrow> u32 \<Rightarrow> bytes option" where
  "proposer_for_round g r =
     (if en_validator_nullifiers g = [] then None
      else Some (en_validator_nullifiers g !
        (unat (en_height g + ucast r) mod length (en_validator_nullifiers g))))"

definition is_proposer :: "engine \<Rightarrow> bool" where
  "is_proposer g =
     (case (en_our_nullifier g, proposer_for_round g (en_round g)) of
        (Some a, Some b) \<Rightarrow> a = b
      | _ \<Rightarrow> False)"

definition make_vote :: "('p, 's) crates \<Rightarrow> engine \<Rightarrow> vote_type \<Rightarrow> block_hash option \<Rightarrow> vote" where
  "make_vote e g ty bh =
     (let v = \<lparr> vt_type = ty, vt_height = en_height g, vt_round = en_round g, vt_block_hash = bh,
                vt_nullifier = (case en_our_nullifier g of Some n \<Rightarrow> n | None \<Rightarrow> zeros 32),
                vt_pubkey = (case en_our_commitment g of Some c \<Rightarrow> vc_public_key c | None \<Rightarrow> zeros 32),
                vt_signature = [], vt_power = 1 \<rparr> in
      case en_signing_key g of
        Some sk \<Rightarrow> v\<lparr>vt_signature := ed_sign e sk (vote_sign_bytes v)\<rparr>
      | None \<Rightarrow> v)"

definition enter_propose :: "nat \<Rightarrow> engine \<Rightarrow> consensus_output \<times> engine" where
  "enter_propose now g = (Pending, g\<lparr>en_step := StepPropose, en_step_start := now\<rparr>)"

definition start_height :: "nat \<Rightarrow> engine \<Rightarrow> u64 \<Rightarrow> consensus_output \<times> engine" where
  "start_height now g h =
     enter_propose now
       (g\<lparr>en_height := h, en_round := 0, en_current_proposal := None, en_locked_block := None,
          en_valid_block := None, en_prevote_sets := Map.empty, en_precommit_sets := Map.empty\<rparr>)"

definition submit_proposal ::
  "('p, 's) crates \<Rightarrow> engine \<Rightarrow> block \<Rightarrow> (consensus_error + consensus_output) \<times> engine" where
  "submit_proposal e g b =
     (if \<not> is_proposer g then (Inl UnauthorizedProposer, g)
      else
        (let p = \<lparr> pr_height = en_height g, pr_round = en_round g, pr_block = b,
                   pr_nullifier = the (en_our_nullifier g), pr_signature = [],
                   pr_validator_proof =
                     (case en_our_commitment g of Some c \<Rightarrow> c | None \<Rightarrow> vc_placeholder) \<rparr>;
             p' = (case en_signing_key g of
                     Some sk \<Rightarrow> p\<lparr>pr_signature := ed_sign e sk (proposal_sign_bytes e p)\<rparr>
                   | None \<Rightarrow> p) in
         (Inr (BroadcastProposal p'), g\<lparr>en_current_proposal := Some p'\<rparr>)))"

definition decide_prevote :: "('p, 's) crates \<Rightarrow> engine \<Rightarrow> block_hash option" where
  "decide_prevote e g =
     (case en_locked_block g of
        Some (locked, _) \<Rightarrow> Some locked
      | None \<Rightarrow> map_option (\<lambda>p. block_hash_of e (pr_block p)) (en_current_proposal g))"

definition enter_prevote :: "('p, 's) crates \<Rightarrow> nat \<Rightarrow> engine \<Rightarrow> consensus_output \<times> engine" where
  "enter_prevote e now g =
     (let g' = g\<lparr>en_step := StepPrevote, en_step_start := now\<rparr> in
      (BroadcastVote (make_vote e g' Prevote (decide_prevote e g')), g'))"

definition receive_proposal ::
  "('p, 's) crates \<Rightarrow> nat \<Rightarrow> engine \<Rightarrow> proposal \<Rightarrow> (consensus_error + consensus_output) \<times> engine" where
  "receive_proposal e now g p =
     (if pr_height p \<noteq> en_height g \<or> pr_round p \<noteq> en_round g
      then (Inl (InvalidProposal (pr_height p) (pr_round p)), g)
      else if proposer_for_round g (en_round g) \<noteq> Some (pr_nullifier p)
      then (Inl UnauthorizedProposer, g)
      else if \<not> proposal_verify e p
      then (Inl (InvalidProposal (pr_height p) (pr_round p)), g)
      else
        (case enter_prevote e now (g\<lparr>en_current_proposal := Some p\<rparr>) of (out, g') \<Rightarrow> (Inr out, g')))"

definition enter_precommit ::
  "('p, 's) crates \<Rightarrow> nat \<Rightarrow> engine \<Rightarrow> bool \<Rightarrow> consensus_output \<times> engine" where
  "enter_precommit e now g has_block =
     (let g' = g\<lparr>en_step := StepPrecommit, en_step_start := now\<rparr>;
          vote_for = (if has_block then map_option fst (en_locked_block g') else None) in
      (BroadcastVote (make_vote e g' Precommit vote_for), g'))"

definition start_new_round :: "nat \<Rightarrow> engine \<Rightarrow> engine" where
  "start_new_round now g =
     g\<lparr>en_round := en_round g + 1, en_current_proposal := None, en_step := StepPropose,
       en_step_start := now\<rparr>"

definition set_for_round :: "(u32 \<Rightarrow> vote_set option) \<Rightarrow> u64 \<Rightarrow> u32 \<Rightarrow> vote_set" where
  "set_for_round sets validators r =
     (case sets r of Some s \<Rightarrow> s | None \<Rightarrow> vote_set_new validators)"

definition update_lock :: "(block_hash \<times> u32) option \<Rightarrow> block_hash \<Rightarrow> u32 \<Rightarrow> (block_hash \<times> u32) option" where
  "update_lock locked bh r =
     (case locked of
        None \<Rightarrow> Some (bh, r)
      | Some (h, r') \<Rightarrow> if h = bh then Some (bh, r) else locked)"

definition handle_prevote ::
  "('p, 's) crates \<Rightarrow> nat \<Rightarrow> engine \<Rightarrow> vote \<Rightarrow> consensus_output \<times> engine" where
  "handle_prevote e now g v =
     (let r = vt_round v in
      case vote_set_add (set_for_round (en_prevote_sets g) (en_total_validators g) r) v of
        (quorum, s') \<Rightarrow>
          (let g1 = g\<lparr>en_prevote_sets := (en_prevote_sets g)(r \<mapsto> s')\<rparr> in
           case quorum of
             Some (Some bh) \<Rightarrow>
               enter_precommit e now
                 (g1\<lparr>en_valid_block := Some (bh, r),
                     en_locked_block := update_lock (en_locked_block g) bh r\<rparr>) True
           | Some None \<Rightarrow> enter_precommit e now g1 False
           | None \<Rightarrow> (Pending, g1)))"

definition handle_precommit ::
  "('p, 's) crates \<Rightarrow> ((bytes \<Rightarrow> vote option) \<Rightarrow> vote list) \<Rightarrow> nat \<Rightarrow> engine \<Rightarrow> vote \<Rightarrow>
   consensus_output \<times> engine" where
  "handle_precommit e ls now g v =
     (let r = vt_round v in
      case vote_set_add (set_for_round (en_precommit_sets g) (en_total_validators g) r) v of
        (quorum, s') \<Rightarrow>
          (let g1 = g\<lparr>en_precommit_sets := (en_precommit_sets g)(r \<mapsto> s')\<rparr> in
           case quorum of
             Some (Some bh) \<Rightarrow>
               (case en_current_proposal g1 of
                  Some p \<Rightarrow>
                    (if block_hash_of e (pr_block p) = bh
                     then (FinalizedBlock (pr_block p) (ls (vs_votes s')), g1\<lparr>en_step := StepCommit\<rparr>)
                     else (Pending, g1))
                | None \<Rightarrow> (Pending, g1))
           | Some None \<Rightarrow> enter_propose now (start_new_round now g1)
           | None \<Rightarrow> (Pending, g1)))"

definition detect_equivocation :: "engine \<Rightarrow> vote \<Rightarrow> evidence option" where
  "detect_equivocation g v =
     (let sets = (case vt_type v of Prevote \<Rightarrow> en_prevote_sets g | Precommit \<Rightarrow> en_precommit_sets g) in
      case sets (vt_round v) of
        None \<Rightarrow> None
      | Some s \<Rightarrow>
          (case vote_set_existing s (vt_nullifier v) of
             None \<Rightarrow> None
           | Some old \<Rightarrow>
               (if vt_block_hash old \<noteq> vt_block_hash v
                then Some \<lparr> ev_height = en_height g, ev_round = en_round g, ev_vote_type = vt_type v,
                            ev_vote_a = old, ev_vote_b = v \<rparr>
                else None)))"

definition receive_vote ::
  "('p, 's) crates \<Rightarrow> ((bytes \<Rightarrow> vote option) \<Rightarrow> vote list) \<Rightarrow> nat \<Rightarrow> engine \<Rightarrow> vote \<Rightarrow>
   (consensus_error + consensus_output) \<times> engine" where
  "receive_vote e ls now g v =
     (if vt_height v \<noteq> en_height g then (Inl (WrongHeight (en_height g) (vt_height v)), g)
      else if \<not> vote_verify_signature e v then (Inr Pending, g)
      else
        (case detect_equivocation g v of
           Some ev \<Rightarrow> (Inr (SlashEvidence ev), g\<lparr>en_equivocations := en_equivocations g @ [ev]\<rparr>)
         | None \<Rightarrow>
             (case (case vt_type v of
                      Prevote \<Rightarrow> handle_prevote e now g v
                    | Precommit \<Rightarrow> handle_precommit e ls now g v) of
                (out, g') \<Rightarrow> (Inr out, g'))))"

definition check_timeout :: "('p, 's) crates \<Rightarrow> nat \<Rightarrow> engine \<Rightarrow> consensus_output option \<times> engine" where
  "check_timeout e now g =
     (let elapsed = now - en_step_start g in
      case en_step g of
        StepPropose \<Rightarrow>
          (if propose_for_round (en_timeouts g) (en_round g) < elapsed
           then (Some (BroadcastVote (make_vote e g Prevote None)), g) else (None, g))
      | StepPrevote \<Rightarrow>
          (if prevote_for_round (en_timeouts g) (en_round g) < elapsed
           then (case enter_precommit e now g False of (out, g') \<Rightarrow> (Some out, g')) else (None, g))
      | StepPrecommit \<Rightarrow>
          (if precommit_for_round (en_timeouts g) (en_round g) < elapsed
           then (case enter_propose now (start_new_round now g) of (out, g') \<Rightarrow> (Some out, g'))
           else (None, g))
      | _ \<Rightarrow> (None, g))"

end
