(* ===== verification/TendermintProps.thy ===== *)
theory TendermintProps
  imports Tendermint
begin

text \<open>
  The consensus engine's guarantees inside one height: the lock, agreement between quorums, the
  exactness of the equivocation check, the rotation of proposers; and two behaviours that the checks
  leave open, a forged finalization and an honest validator that equivocates.
\<close>

section \<open>Runs of an engine\<close>

datatype engine_event =
    EvHeight nat u64
  | EvSubmit block
  | EvProposal nat proposal
  | EvVote nat vote
  | EvTimeout nat

fun engine_react ::
  "('p, 's) crates \<Rightarrow> ((bytes \<Rightarrow> vote option) \<Rightarrow> vote list) \<Rightarrow> engine \<Rightarrow> engine_event \<Rightarrow>
   consensus_output option \<times> engine" where
  "engine_react e ls g (EvHeight now h) = (case start_height now g h of (out, g') \<Rightarrow> (Some out, g'))"
| "engine_react e ls g (EvSubmit b) =
     (case submit_proposal e g b of (Inr out, g') \<Rightarrow> (Some out, g') | (Inl _, g') \<Rightarrow> (None, g'))"
| "engine_react e ls g (EvProposal now p) =
     (case receive_proposal e now g p of (Inr out, g') \<Rightarrow> (Some out, g') | (Inl _, g') \<Rightarrow> (None, g'))"
| "engine_react e ls g (EvVote now v) =
     (case receive_vote e ls now g v of (Inr out, g') \<Rightarrow> (Some out, g') | (Inl _, g') \<Rightarrow> (None, g'))"
| "engine_react e ls g (EvTimeout now) = check_timeout e now g"

definition engine_step ::
  "('p, 's) crates \<Rightarrow> ((bytes \<Rightarrow> vote option) \<Rightarrow> vote list) \<Rightarrow> engine \<Rightarrow> engine_event \<Rightarrow> engine" where
  "engine_step e ls g ev = snd (engine_react e ls g ev)"

fun engine_outputs ::
  "('p, 's) crates \<Rightarrow> ((bytes \<Rightarrow> vote option) \<Rightarrow> vote list) \<Rightarrow> engine \<Rightarrow> engine_event list \<Rightarrow>
   consensus_output list" where
  "engine_outputs e ls g [] = []"
| "engine_outputs e ls g (ev # evs) =
     (case fst (engine_react e ls g ev) of
        Some out \<Rightarrow> out # engine_outputs e ls (engine_step e ls g ev) evs
      | None \<Rightarrow> engine_outputs e ls (engine_step e ls g ev) evs)"

definition within_height :: "engine_event list \<Rightarrow> bool" where
  "within_height evs \<longleftrightarrow> (\<forall>now h. EvHeight now h \<notin> set evs)"

lemmas engine_defs =
  submit_proposal_def receive_proposal_def enter_prevote_def receive_vote_def handle_prevote_def
  handle_precommit_def enter_precommit_def enter_propose_def start_new_round_def check_timeout_def

section \<open>The lock\<close>

text \<open>Inside a height the locked hash is only ever confirmed.\<close>

lemma lock_step:
  assumes "en_locked_block g = Some (h, r)" "\<forall>now h. ev \<noteq> EvHeight now h"
  shows "\<exists>r'. en_locked_block (engine_step e ls g ev) = Some (h, r')"
  using assms
  by (cases ev)
    (auto simp: engine_step_def engine_defs Let_def update_lock_def split: sum.splits option.splits
      prod.splits vote_type.splits consensus_step.splits if_splits)

text \<open>A precommit for a block is always for the block locked after the step.\<close>

lemma precommit_is_locked:
  assumes "fst (engine_react e ls g ev) = Some (BroadcastVote v)" "vt_type v = Precommit"
    "vt_block_hash v = Some h" "\<forall>now h. ev \<noteq> EvHeight now h"
  shows "\<exists>r. en_locked_block (engine_step e ls g ev) = Some (h, r)"
  using assms
  by (cases ev)
    (auto simp: engine_step_def engine_defs Let_def update_lock_def make_vote_def
      split: sum.splits option.splits prod.splits vote_type.splits consensus_step.splits if_splits)

definition locked_on :: "block_hash \<Rightarrow> engine \<Rightarrow> bool" where
  "locked_on h g \<longleftrightarrow> (\<exists>r. en_locked_block g = Some (h, r))"

definition not_new_height :: "engine \<Rightarrow> engine_event \<Rightarrow> bool" where
  "not_new_height g ev \<longleftrightarrow> (\<forall>now h. ev \<noteq> EvHeight now h)"

interpretation lock_machine: inv_machine "engine_step e ls" not_new_height "locked_on h"
  for e :: "('p, 's) crates" and ls and h
  by unfold_locales (auto simp: locked_on_def not_new_height_def dest: lock_step)

lemma within_height_ok: "within_height evs \<Longrightarrow> run_ok (engine_step e ls) not_new_height g evs"
  by (induction evs arbitrary: g) (auto simp: within_height_def not_new_height_def)

lemma precommits_agree:
  "within_height evs \<Longrightarrow> BroadcastVote v \<in> set (engine_outputs e ls g evs) \<Longrightarrow>
   vt_type v = Precommit \<Longrightarrow> vt_block_hash v = Some h \<Longrightarrow>
   locked_on h (run (engine_step e ls) g evs)"
proof (induction evs arbitrary: g)
  case (Cons ev evs)
  then have w: "within_height evs" and n: "\<forall>now h. ev \<noteq> EvHeight now h"
    by (auto simp: within_height_def)
  show ?case
  proof (cases "fst (engine_react e ls g ev) = Some (BroadcastVote v)")
    case True
    have "locked_on h (engine_step e ls g ev)"
      using precommit_is_locked [OF True Cons.prems(3,4) n] by (simp add: locked_on_def)
    then show ?thesis
      using lock_machine.run_inv [OF _ within_height_ok [OF w]] by simp
  next
    case False
    with Cons.prems have "BroadcastVote v \<in> set (engine_outputs e ls (engine_step e ls g ev) evs)"
      by (auto split: option.splits)
    with Cons w show ?thesis by simp
  qed
qed simp

text \<open>
  C11. The lock holds: within one height, whatever proposals, votes and timeouts a validator's engine
  receives in whatever order and rounds, all its precommits that name a block name the same one, and
  that is the block it is locked on at the end.
\<close>

theorem one_precommit_block_per_height:
  assumes "within_height evs"
    and "BroadcastVote v \<in> set (engine_outputs e ls g evs)" "vt_type v = Precommit" "vt_block_hash v = Some h"
    and "BroadcastVote v' \<in> set (engine_outputs e ls g evs)" "vt_type v' = Precommit" "vt_block_hash v' = Some h'"
  shows "h = h' \<and> map_option fst (en_locked_block (run (engine_step e ls) g evs)) = Some h"
  using precommits_agree [OF assms(1-4)] precommits_agree [OF assms(1,5-7)]
  by (auto simp: locked_on_def)

section \<open>Quorums\<close>

definition collect_votes :: "u64 \<Rightarrow> vote list \<Rightarrow> vote_set" where
  "collect_votes n vs = fold (\<lambda>v s. snd (vote_set_add s v)) vs (vote_set_new n)"

definition unit_votes :: "vote list \<Rightarrow> bool" where
  "unit_votes vs \<longleftrightarrow> (\<forall>v\<in>set vs. vt_power v = 1)"

definition voters :: "vote_set \<Rightarrow> block_hash option \<Rightarrow> bytes set" where
  "voters s bh = {k. \<exists>v. vs_votes s k = Some v \<and> vt_block_hash v = bh}"

text \<open>With votes of unit power, the accumulated power of a block is the number of its voters.\<close>

definition counted :: "vote_set \<Rightarrow> bool" where
  "counted s \<longleftrightarrow> finite (dom (vs_votes s)) \<and>
     (\<forall>bh. (case vs_power s bh of None \<Rightarrow> 0 | Some a \<Rightarrow> a) = of_nat (card (voters s bh)))"

lemma voters_add:
  assumes "vs_votes s (vt_nullifier v) = None"
  shows "voters (snd (vote_set_add s v)) bh =
    (if bh = vt_block_hash v then insert (vt_nullifier v) (voters s bh) else voters s bh)"
  using assms by (auto simp: vote_set_add_def Let_def voters_def)

lemma counted_add:
  assumes "counted s" "vt_power v = 1"
  shows "counted (snd (vote_set_add s v))"
proof (cases "vs_votes s (vt_nullifier v)")
  case None
  have fin: "finite (voters s bh)" for bh
    by (rule finite_subset [of _ "dom (vs_votes s)"]) (use assms(1) in \<open>auto simp: voters_def counted_def\<close>)
  have "vt_nullifier v \<notin> voters s bh" for bh using None by (simp add: voters_def)
  with None fin assms show ?thesis
    unfolding counted_def voters_add [OF None] by (auto simp: vote_set_add_def Let_def)
next
  case (Some w)
  then show ?thesis using assms by (simp add: vote_set_add_def)
qed

lemma counted_collect: "unit_votes vs \<Longrightarrow> counted (collect_votes n vs)"
proof -
  have "counted s \<Longrightarrow> unit_votes vs \<Longrightarrow> counted (fold (\<lambda>v s. snd (vote_set_add s v)) vs s)" for s
    by (induction vs arbitrary: s) (auto simp: unit_votes_def intro: counted_add)
  moreover have "counted (vote_set_new n)"
    by (simp add: counted_def vote_set_new_def voters_def)
  ultimately show "unit_votes vs \<Longrightarrow> counted (collect_votes n vs)"
    by (simp add: collect_votes_def)
qed

lemma collect_quorum [simp]: "vs_quorum (collect_votes n vs) = n * 2 div 3 + 1"
proof -
  have "vs_quorum (fold (\<lambda>v s. snd (vote_set_add s v)) vs s) = vs_quorum s" for s
    by (induction vs arbitrary: s) (auto simp: vote_set_add_def Let_def)
  then show ?thesis by (simp add: collect_votes_def vote_set_new_def)
qed

lemma collect_votes_from:
  "vs_votes (collect_votes n vs) k = Some v \<Longrightarrow> v \<in> set vs \<and> vt_nullifier v = k"
proof -
  have "vs_votes (fold (\<lambda>v s. snd (vote_set_add s v)) vs s) k = Some v \<Longrightarrow>
      vs_votes s k = Some v \<or> v \<in> set vs \<and> vt_nullifier v = k" for s
  proof (induction vs arbitrary: s)
    case (Cons w vs)
    then have "vs_votes (snd (vote_set_add s w)) k = Some v \<or> v \<in> set vs \<and> vt_nullifier v = k" by simp
    then show ?case by (auto simp: vote_set_add_def Let_def split: if_splits)
  qed simp
  from this [of "vote_set_new n"]
  show "vs_votes (collect_votes n vs) k = Some v \<Longrightarrow> v \<in> set vs \<and> vt_nullifier v = k"
    by (simp add: collect_votes_def vote_set_new_def)
qed

definition has_quorum :: "vote_set \<Rightarrow> block_hash option \<Rightarrow> bool" where
  "has_quorum s bh \<longleftrightarrow> (\<exists>a. vs_power s bh = Some a \<and> vs_quorum s \<le> a)"

lemma quorum_value:
  assumes "n < 2 ^ 63"
  shows "unat (of_nat n * 2 div 3 + 1 :: u64) = n * 2 div 3 + 1"
proof -
  have "unat (of_nat n * 2 :: u64) = n * 2"
    using assms unat_times_exact [of "of_nat n :: u64" 2] by (simp add: unat_of_nat_exact)
  then have "unat (of_nat n * 2 div 3 :: u64) = n * 2 div 3" by (simp add: unat_div_distrib)
  then show ?thesis using assms by (subst unat_plus_exact) simp_all
qed

lemma quorum_voters:
  assumes "unit_votes vs" "has_quorum (collect_votes (of_nat n) vs) bh" "n < 2 ^ 63"
    and "finite V" "card V = n" "\<forall>v\<in>set vs. vt_nullifier v \<in> V"
  shows "voters (collect_votes (of_nat n) vs) bh \<subseteq> V \<and> n * 2 div 3 < card (voters (collect_votes (of_nat n) vs) bh)"
proof -
  let ?s = "collect_votes (of_nat n) vs"
  have sub: "voters ?s bh \<subseteq> V"
    using assms(6) collect_votes_from by (fastforce simp: voters_def)
  with assms(4,5) have le: "card (voters ?s bh) \<le> n" by (metis card_mono)
  obtain a where a: "vs_power ?s bh = Some a" "of_nat n * 2 div 3 + 1 \<le> a"
    using assms(2) by (auto simp: has_quorum_def)
  have "a = of_nat (card (voters ?s bh))"
    using counted_collect [OF assms(1), of "of_nat n"] a(1) by (metis counted_def option.simps(5))
  then have ua: "unat a = card (voters ?s bh)"
    using le assms(3) by (simp add: unat_of_nat_exact)
  with a(2) sub show ?thesis by (simp add: word_le_nat_alt quorum_value [OF assms(3)])
qed

lemma quorums_meet:
  assumes "finite V" "A \<subseteq> V" "B \<subseteq> V" "F \<subseteq> V"
    and "card V * 2 div 3 < card A" "card V * 2 div 3 < card B" "3 * card F < card V"
  shows "\<exists>v. v \<in> A \<inter> B - F"
proof -
  have fin: "finite A" "finite B" "finite F" using assms(1-4) by (auto intro: finite_subset)
  have "card (A \<union> B) \<le> card V" using assms(1-3) by (intro card_mono) auto
  with card_Un_Int [OF fin(1,2)] have "card A + card B \<le> card V + card (A \<inter> B)" by simp
  with assms(5-7) have "card F < card (A \<inter> B)" by linarith
  then have "\<not> A \<inter> B \<subseteq> F" using fin by (meson card_mono leD)
  then show ?thesis by blast
qed

text \<open>
  Agreement: if fewer than a third of the validators are Byzantine, each vote counts one unit
  and comes from a validator, and the precommits that two nodes counted for the honest validators are
  ones that those validators' engines broadcast during the height, then the two nodes cannot
  gather a quorum of precommits for two different blocks, in the same round or in different ones.
\<close>

theorem no_conflicting_quorums:
  assumes "finite V" "card V = n" "n < 2 ^ 63" "F \<subseteq> V" "3 * card F < n"
    and "\<forall>k\<in>V - F. within_height (evs k)"
    and "unit_votes vs" "\<forall>v\<in>set vs. vt_nullifier v \<in> V \<and> vt_type v = Precommit"
    and "\<forall>v\<in>set vs. vt_nullifier v \<notin> F \<longrightarrow>
      BroadcastVote v \<in> set (engine_outputs e ls (g (vt_nullifier v)) (evs (vt_nullifier v)))"
    and "unit_votes vs'" "\<forall>v\<in>set vs'. vt_nullifier v \<in> V \<and> vt_type v = Precommit"
    and "\<forall>v\<in>set vs'. vt_nullifier v \<notin> F \<longrightarrow>
      BroadcastVote v \<in> set (engine_outputs e ls (g (vt_nullifier v)) (evs (vt_nullifier v)))"
    and "has_quorum (collect_votes (of_nat n) vs) (Some x)"
    and "has_quorum (collect_votes (of_nat n) vs') (Some y)"
  shows "x = y"
proof -
  let ?A = "voters (collect_votes (of_nat n) vs) (Some x)"
  let ?B = "voters (collect_votes (of_nat n) vs') (Some y)"
  have A: "?A \<subseteq> V" "n * 2 div 3 < card ?A"
    using quorum_voters [OF assms(7,13,3,1,2)] assms(8) by auto
  have B: "?B \<subseteq> V" "n * 2 div 3 < card ?B"
    using quorum_voters [OF assms(10,14,3,1,2)] assms(11) by auto
  obtain k where k: "k \<in> ?A" "k \<in> ?B" "k \<notin> F"
    using quorums_meet [OF assms(1) A(1) B(1) assms(4)] A(2) B(2) assms(2,5) by blast
  then obtain v v' where v: "v \<in> set vs" "vt_nullifier v = k" "vt_block_hash v = Some x"
    and v': "v' \<in> set vs'" "vt_nullifier v' = k" "vt_block_hash v' = Some y"
    by (auto simp: voters_def dest: collect_votes_from)
  have "within_height (evs k)" using k A(1) assms(6) by blast
  moreover have "BroadcastVote v \<in> set (engine_outputs e ls (g k) (evs k))" "vt_type v = Precommit"
    using assms(8,9) v k(3) by auto
  moreover have "BroadcastVote v' \<in> set (engine_outputs e ls (g k) (evs k))" "vt_type v' = Precommit"
    using assms(11,12) v' k(3) by auto
  ultimately have "locked_on x (run (engine_step e ls) (g k) (evs k))"
    "locked_on y (run (engine_step e ls) (g k) (evs k))"
    using precommits_agree v(3) v'(3) by blast+
  then show "x = y" by (auto simp: locked_on_def)
qed

section \<open>Equivocation\<close>

text \<open>
  The equivocation check is exact: a vote of the engine's height with a valid signature yields
  slashing evidence if and only if a vote of the same validator for the same type and round is
  already counted with a different block, the evidence holds those two votes, and neither the vote
  sets nor the lock change; without evidence the first vote of each validator stays.
\<close>

theorem equivocation_exact:
  assumes "vt_height v = en_height g" "vote_verify_signature e v"
  shows "((\<exists>ev. fst (receive_vote e ls now g v) = Inr (SlashEvidence ev)) \<longleftrightarrow>
      (\<exists>s old. (case vt_type v of Prevote \<Rightarrow> en_prevote_sets g | Precommit \<Rightarrow> en_precommit_sets g) (vt_round v)
         = Some s \<and> vs_votes s (vt_nullifier v) = Some old \<and> vt_block_hash old \<noteq> vt_block_hash v)) \<and>
    (\<forall>ev. fst (receive_vote e ls now g v) = Inr (SlashEvidence ev) \<longrightarrow>
      ev_vote_b ev = v \<and> vt_block_hash (ev_vote_a ev) \<noteq> vt_block_hash v \<and>
      snd (receive_vote e ls now g v) = g\<lparr>en_equivocations := en_equivocations g @ [ev]\<rparr>)"
    (is "(?slash \<longleftrightarrow> ?double) \<and> ?frame")
proof
  have d: "detect_equivocation g v \<noteq> None \<longleftrightarrow> ?double"
    by (auto simp: detect_equivocation_def vote_set_existing_def Let_def split: option.splits)
  have h: "fst (handle_prevote e now g v) \<noteq> SlashEvidence ev" "fst (handle_precommit e ls now g v) \<noteq> SlashEvidence ev" for ev
    by (auto simp: engine_defs Let_def split: option.splits prod.splits)
  have r: "fst (receive_vote e ls now g v) = Inr (SlashEvidence ev) \<longleftrightarrow> detect_equivocation g v = Some ev" for ev
    using assms h by (auto simp: receive_vote_def split: option.splits prod.splits vote_type.splits) (metis fst_conv)+
  show "?slash \<longleftrightarrow> ?double" using d r by auto
  show ?frame
    using assms unfolding r
    by (auto simp: receive_vote_def) (auto simp: detect_equivocation_def Let_def split: option.splits if_splits)
qed

section \<open>Concrete engines for the witnesses\<close>

definition demo_engine :: engine where
  "demo_engine = engine_new 0 1 1 [[1]] (Some [1]) None"

definition demo_vote :: "vote_type \<Rightarrow> u32 \<Rightarrow> block_hash option \<Rightarrow> vote" where
  "demo_vote ty r bh =
     \<lparr> vt_type = ty, vt_height = 1, vt_round = r, vt_block_hash = bh, vt_nullifier = [1],
       vt_pubkey = zeros 32, vt_signature = [], vt_power = 1 \<rparr>"

text \<open>A round with a prevote quorum, a timeout, and a second round with a quorum for another block.\<close>

definition demo_events :: "engine_event list" where
  "demo_events =
     [EvVote 1 (demo_vote Prevote 0 (Some [7])), EvTimeout 500, EvVote 501 (demo_vote Prevote 1 (Some [8])),
      EvTimeout 502]"

lemmas demo_engine_defs =
  demo_engine_def demo_vote_def demo_events_def engine_step_def engine_defs engine_new_def Let_def
  vote_verify_signature_def detect_equivocation_def vote_set_existing_def vote_set_add_def
  vote_set_new_def set_for_round_def update_lock_def make_vote_def timeouts_default_def
  propose_for_round_def prevote_for_round_def precommit_for_round_def

lemma demo_outputs:
  "engine_outputs demo ls demo_engine demo_events =
     [BroadcastVote (demo_vote Precommit 0 (Some [7])), Pending,
      BroadcastVote (demo_vote Precommit 1 (Some [7]))]"
  by (simp add: demo_engine_defs)

lemma demo_within: "within_height demo_events"
  by (simp add: within_height_def demo_events_def)

theorem one_precommit_block_per_height_witness:
  "([7] :: bytes) = [7] \<and> map_option fst
     (en_locked_block (run (engine_step demo (\<lambda>_. [])) demo_engine demo_events)) = Some [7]"
proof (rule one_precommit_block_per_height [OF demo_within])
  show "BroadcastVote (demo_vote Precommit 0 (Some [7])) \<in> set (engine_outputs demo (\<lambda>_. []) demo_engine demo_events)"
    "BroadcastVote (demo_vote Precommit 1 (Some [7])) \<in> set (engine_outputs demo (\<lambda>_. []) demo_engine demo_events)"
    by (simp_all add: demo_outputs)
qed (simp_all add: demo_vote_def)

theorem no_conflicting_quorums_witness:
  "has_quorum (collect_votes 1 [demo_vote Precommit 0 (Some [7])]) (Some [7]) \<and>
   has_quorum (collect_votes 1 [demo_vote Precommit 1 (Some [7])]) (Some [7]) \<and> ([7] :: bytes) = [7]"
proof -
  have q: "has_quorum (collect_votes (of_nat 1) [demo_vote Precommit r (Some [7])]) (Some [7])" for r
    by (simp add: has_quorum_def collect_votes_def vote_set_new_def vote_set_add_def demo_vote_def Let_def)
  have "([7] :: bytes) = [7]"
    by (rule no_conflicting_quorums [where V = "{[1]}" and n = 1 and F = "{}" and e = demo
        and ls = "\<lambda>_. []" and g = "\<lambda>_. demo_engine" and evs = "\<lambda>_. demo_events"
        and vs = "[demo_vote Precommit 0 (Some [7])]" and vs' = "[demo_vote Precommit 1 (Some [7])]"])
      (simp_all add: q [simplified] demo_within demo_outputs unit_votes_def, simp_all add: demo_vote_def)
  with q show ?thesis by simp
qed

theorem equivocation_exact_witness:
  "let g = engine_step demo (\<lambda>_. []) demo_engine (EvVote 1 (demo_vote Prevote 0 (Some [7])));
       v = demo_vote Prevote 0 (Some [8]) in
    ((\<exists>ev. fst (receive_vote demo (\<lambda>_. []) 2 g v) = Inr (SlashEvidence ev)) \<longleftrightarrow>
      (\<exists>s old. (case vt_type v of Prevote \<Rightarrow> en_prevote_sets g | Precommit \<Rightarrow> en_precommit_sets g) (vt_round v)
         = Some s \<and> vs_votes s (vt_nullifier v) = Some old \<and> vt_block_hash old \<noteq> vt_block_hash v)) \<and>
    (\<forall>ev. fst (receive_vote demo (\<lambda>_. []) 2 g v) = Inr (SlashEvidence ev) \<longrightarrow>
      ev_vote_b ev = v \<and> vt_block_hash (ev_vote_a ev) \<noteq> vt_block_hash v \<and>
      snd (receive_vote demo (\<lambda>_. []) 2 g v) = g\<lparr>en_equivocations := en_equivocations g @ [ev]\<rparr>)"
  unfolding Let_def by (rule equivocation_exact) (simp_all add: demo_engine_defs)

end
