(* ===== verification/Slashing.thy ===== *)
theory Slashing
  imports Data F64
begin

text \<open>
  \<open>src/src/consensus/slashing.rs\<close> and \<open>src/src/consensus/validator.rs\<close>: the penalties, with the
  downtime ratio in the binary64 arithmetic of theory \<open>F64\<close>. The literals \<open>0.05\<close>, \<open>0.20\<close> and
  \<open>0.50\<close> are the nearest binary64 values.
\<close>

datatype slash_reason =
    DoubleSigning block_hash block_hash
  | SurroundVoting
  | Downtime u64 u64

record slash_event =
  sl_validator_nullifier :: bytes
  sl_reason :: slash_reason
  sl_percentage :: u8
  sl_burned :: bool
  sl_banned :: bool
  sl_block_height :: u64

definition compute_slash :: "slash_reason \<Rightarrow> u8 \<times> bool \<times> bool" where
  "compute_slash reason =
     (case reason of
        DoubleSigning _ _ \<Rightarrow> (100, True, True)
      | SurroundVoting \<Rightarrow> (100, True, True)
      | Downtime missed_blocks window \<Rightarrow>
          (let ratio = f64_div (u64_as_f64 missed_blocks) (u64_as_f64 window) in
           if f64_less ratio (f64_of (5 / 100)) then (0, False, False)
           else if f64_less ratio (f64_of (20 / 100)) then (10, False, False)
           else if f64_less ratio (f64_of (50 / 100)) then (50, False, True)
           else (100, True, True)))"

datatype validator_status = Active | PendingExit u64 | Slashed | Banned

record validator =
  va_commitment :: validator_commitment
  va_stake_commitment :: pedersen_commitment
  va_status :: validator_status
  va_activated_at :: u64
  va_missed_blocks :: u64
  va_window_blocks :: u64

section \<open>The downtime table\<close>

definition downtime_ratio :: "u64 \<Rightarrow> u64 \<Rightarrow> rat" where
  "downtime_ratio m w = rnd (rnd (of_nat (unat m)) / rnd (of_nat (unat w)))"

lemma f64_ratio:
  assumes "w \<noteq> 0"
  shows "f64_div (u64_as_f64 m) (u64_as_f64 w) = Fin (downtime_ratio m w)"
proof -
  have w: "1 \<le> rnd (of_nat (unat w))" using assms by (rule rnd_u64_positive)
  have "rnd (of_nat (unat m)) \<le> 2 ^ 64" by (rule rnd_u64)
  moreover have "rnd (of_nat (unat m)) / rnd (of_nat (unat w)) \<le> rnd (of_nat (unat m))"
    using w rnd_nonneg [of "of_nat (unat m)"] by (simp add: divide_le_eq mult_le_cancel_left1)
  ultimately have "rnd (of_nat (unat m)) / rnd (of_nat (unat w)) \<le> 2 ^ 64" by (rule order_trans [rotated])
  then have "rnd (of_nat (unat m)) / rnd (of_nat (unat w)) \<le> 2 ^ 1023"
    by (rule order_trans) simp
  then show ?thesis
    using w by (simp add: u64_as_f64_Fin f64_of_small downtime_ratio_def)
qed

lemma f64_fraction: "x \<le> 1 \<Longrightarrow> f64_of x = Fin (rnd x)"
  by (rule f64_of_small) (simp add: order_trans [OF _ one_le_power])

lemma compute_slash_downtime:
  assumes "w \<noteq> 0"
  shows "compute_slash (Downtime m w) =
    (if downtime_ratio m w < rnd (1 / 20) then (0, False, False)
     else if downtime_ratio m w < rnd (1 / 5) then (10, False, False)
     else if downtime_ratio m w < rnd (1 / 2) then (50, False, True)
     else (100, True, True))"
  using assms by (simp add: compute_slash_def f64_ratio f64_fraction Let_def)

lemma downtime_ratio_mono: "m \<le> m' \<Longrightarrow> downtime_ratio m w \<le> downtime_ratio m' w"
  unfolding downtime_ratio_def
  by (intro rnd_mono divide_right_mono rnd_nonneg) (simp add: word_le_nat_alt del: of_nat_unat)

lemma downtime_ratio_exact:
  assumes "unat m < 2 ^ 53" "unat w < 2 ^ 53"
  shows "downtime_ratio m w = rnd (of_nat (unat m) / of_nat (unat w))"
  using assms by (simp add: downtime_ratio_def rnd_of_nat del: of_nat_unat)

text \<open>
  Downtime penalties are progressive and never lenient: the penalty never shrinks when more
  blocks are missed in the same window; missing none costs nothing; missing at least a twentieth, a
  fifth, a half of the window costs at least 10, 50, 100 percent in spite of the binary64 rounding; a
  penalty of 100 percent always burns and bans. With an empty window the ratio is not a number (or
  infinite) and every comparison fails, so even a validator that missed nothing loses its whole
  stake.
\<close>

theorem downtime_penalties:
  assumes "unat m' < 2 ^ 53" "unat w < 2 ^ 53" "m \<le> m'" "w \<noteq> 0"
  shows "fst (compute_slash (Downtime m w)) \<le> fst (compute_slash (Downtime m' w)) \<and>
    compute_slash (Downtime 0 w) = (0, False, False) \<and>
    (unat w \<le> 20 * unat m' \<longrightarrow> 10 \<le> fst (compute_slash (Downtime m' w))) \<and>
    (unat w \<le> 5 * unat m' \<longrightarrow> 50 \<le> fst (compute_slash (Downtime m' w))) \<and>
    (unat w \<le> 2 * unat m' \<longrightarrow> compute_slash (Downtime m' w) = (100, True, True)) \<and>
    compute_slash (Downtime m' 0) = (100, True, True)"
proof -
  have w: "(0 :: rat) < of_nat (unat w)" using assms(4) by (simp add: unat_gt_0 del: of_nat_unat)
  have steps: "rnd (1 / 20) \<le> rnd (1 / 5)" "rnd (1 / 5) \<le> rnd (1 / 2)" by (simp_all add: rnd_mono)
  have reach: "rnd (1 / of_nat k) \<le> downtime_ratio m' w" if "unat w \<le> k * unat m'" "0 < k" for k
  proof -
    have "(of_nat (unat w) :: rat) \<le> of_nat k * of_nat (unat m')"
      using that(1) by (metis of_nat_le_iff of_nat_mult)
    then have "1 / of_nat k \<le> of_nat (unat m') / (of_nat (unat w) :: rat)"
      using w that(2) by (simp add: field_simps del: of_nat_unat)
    then show ?thesis unfolding downtime_ratio_exact [OF assms(1,2)] by (rule rnd_mono)
  qed
  have zero: "compute_slash (Downtime 0 w) = (0, False, False)"
  proof -
    have "0 < rnd (1 / 20)"
      using rnd_mono [of "2 powi - 5" "1 / 20"] rnd_powi [of "- 5"]
      by (simp add: power_int_def power_divide)
    then show ?thesis by (simp add: compute_slash_downtime [OF assms(4)] downtime_ratio_def)
  qed
  have empty: "compute_slash (Downtime m' 0) = (100, True, True)"
    by (simp add: compute_slash_def u64_as_f64_Fin f64_fraction Let_def)
  have mono: "fst (compute_slash (Downtime m w)) \<le> fst (compute_slash (Downtime m' w))"
    using downtime_ratio_mono [OF assms(3), of w] steps by (simp add: compute_slash_downtime [OF assms(4)])
  note table = compute_slash_downtime [OF assms(4), of m']
  have "unat w \<le> 20 * unat m' \<longrightarrow> 10 \<le> fst (compute_slash (Downtime m' w))"
    using reach [of 20] by (auto simp: table)
  moreover have "unat w \<le> 5 * unat m' \<longrightarrow> 50 \<le> fst (compute_slash (Downtime m' w))"
    using reach [of 5] order_trans [OF steps(1), of "downtime_ratio m' w"] by (auto simp: table not_less)
  moreover have "unat w \<le> 2 * unat m' \<longrightarrow> compute_slash (Downtime m' w) = (100, True, True)"
    using reach [of 2] order_trans [OF steps(2), of "downtime_ratio m' w"]
      order_trans [OF order_trans [OF steps], of "downtime_ratio m' w"]
    by (auto simp: table not_less)
  ultimately show ?thesis using mono zero empty by blast
qed

theorem downtime_penalties_witness:
  "fst (compute_slash (Downtime 10 100)) \<le> fst (compute_slash (Downtime 60 100)) \<and>
    compute_slash (Downtime 0 100) = (0, False, False) \<and>
    10 \<le> fst (compute_slash (Downtime 60 100)) \<and> 50 \<le> fst (compute_slash (Downtime 60 100)) \<and>
    compute_slash (Downtime 60 100) = (100, True, True) \<and>
    compute_slash (Downtime 60 0) = (100, True, True)"
proof -
  have "unat (60 :: u64) < 2 ^ 53" "unat (100 :: u64) < 2 ^ 53" "(10 :: u64) \<le> 60" "(100 :: u64) \<noteq> 0"
    by simp_all
  note downtime_penalties [OF this]
  moreover have "unat (100 :: u64) \<le> 20 * unat (60 :: u64)" "unat (100 :: u64) \<le> 5 * unat (60 :: u64)"
    "unat (100 :: u64) \<le> 2 * unat (60 :: u64)" by simp_all
  ultimately show ?thesis by blast
qed

end
