(* ===== verification/TendermintGaps.thy ===== *)
theory TendermintGaps
  imports TendermintProps Slashing
begin

text \<open>
  Proposer rotation, and two behaviours of the consensus engine that its checks leave open.
\<close>

section \<open>Rotation\<close>

text \<open>
  Proposers rotate fairly: among any as many consecutive rounds of a height as there are
  validators, every validator is the proposer of exactly one, and nobody else ever is (heights and
  rounds below the 64-bit wrap-around).
\<close>

theorem proposer_rotation:
  assumes "en_validator_nullifiers g \<noteq> []" "distinct (en_validator_nullifiers g)"
    and "n = length (en_validator_nullifiers g)" "unat r + n < 2 ^ 32"
    and "unat (en_height g) + unat r + n < 2 ^ 64"
  shows "bij_betw (\<lambda>i. the (proposer_for_round g (r + of_nat i))) {..<n} (set (en_validator_nullifiers g))"
proof -
  let ?vs = "en_validator_nullifiers g" and ?b = "unat (en_height g) + unat r"
  have n: "0 < n" using assms(1,3) by simp
  have idx: "the (proposer_for_round g (r + of_nat i)) = ?vs ! ((?b + i) mod n)" if i: "i < n" for i
  proof -
    have "unat (r + of_nat i) = unat r + i"
      using i assms(4) by (subst unat_plus_exact) (simp_all add: unat_of_nat_exact)
    then have u: "unat (ucast (r + of_nat i) :: u64) = unat r + i"
      using i assms(4) by (simp add: unsigned_ucast_eq take_bit_nat_eq_self)
    have "unat (en_height g + ucast (r + of_nat i)) = ?b + i"
      using i assms(5) by (subst unat_plus_exact) (simp_all add: u)
    then show ?thesis using assms(1,3) by (simp add: proposer_for_round_def)
  qed
  have inj: "inj_on (\<lambda>i. (?b + i) mod n) {..<n}"
  proof (rule inj_onI)
    fix i j assume ij: "i \<in> {..<n}" "j \<in> {..<n}" "(?b + i) mod n = (?b + j) mod n"
    then show "i = j" using mod_shift_inject [of ?b i n j] mod_shift_inject [of ?b j n i]
      by (metis diff_le_self le_less_trans lessThan_iff linorder_neqE_nat)
  qed
  have "(\<lambda>i. (?b + i) mod n) ` {..<n} = {..<n}"
    using inj n by (intro card_subset_eq) (auto simp: card_image)
  with inj have "bij_betw (\<lambda>i. (?b + i) mod n) {..<n} {..<n}" by (simp add: bij_betw_def)
  moreover have "bij_betw ((!) ?vs) {..<n} (set ?vs)"
    using assms(2,3) by (intro bij_betw_nth) simp_all
  ultimately have "bij_betw ((!) ?vs \<circ> (\<lambda>i. (?b + i) mod n)) {..<n} (set ?vs)" by (rule bij_betw_trans)
  then show ?thesis
    by (rule iffD1 [OF bij_betw_cong, rotated]) (simp add: idx)
qed

theorem proposer_rotation_witness:
  "bij_betw (\<lambda>i. the (proposer_for_round
      (engine_new 0 5 3 [[1], [2], [3]] (Some [2]) None) (7 + of_nat i))) {..<3} (set [[1], [2], [3]])"
  using proposer_rotation [of "engine_new 0 5 3 [[1], [2], [3]] (Some [2]) None" 3 7]
  by (simp add: engine_new_def)

section \<open>Forged finalization\<close>

text \<open>
  C36. Votes are not tied to validators: on an engine that holds a proposal and has seen no
  precommit in the round, one precommit without signature, from an arbitrary nullifier that need not
  belong to any validator, finalizes the proposed block, because the vote brings its own voting
  power and an empty signature is accepted.
\<close>

theorem forged_vote_finalizes:
  assumes "en_current_proposal g = Some p" "en_precommit_sets g r = None"
  shows "\<exists>v. vt_signature v = [] \<and> vt_nullifier v = stranger \<and> vt_type v = Precommit \<and>
    (\<exists>votes. fst (receive_vote e ls now g v) = Inr (FinalizedBlock (pr_block p) votes)) \<and>
    en_step (snd (receive_vote e ls now g v)) = StepCommit"
proof -
  let ?v = "\<lparr> vt_type = Precommit, vt_height = en_height g, vt_round = r,
      vt_block_hash = Some (block_hash_of e (pr_block p)), vt_nullifier = stranger,
      vt_pubkey = [], vt_signature = [], vt_power = - 1 \<rparr>"
  have "x \<le> (- 1 :: u64)" for x by simp
  then show ?thesis
    using assms
    by (intro exI [of _ ?v])
      (simp add: receive_vote_def vote_verify_signature_def detect_equivocation_def handle_precommit_def
        set_for_round_def vote_set_new_def vote_set_add_def Let_def)
qed

theorem forged_vote_finalizes_witness:
  "let g = demo_engine\<lparr>en_current_proposal := Some \<lparr> pr_height = 1, pr_round = 0, pr_block = genesis 3,
        pr_nullifier = [1], pr_signature = [], pr_validator_proof = vc_placeholder \<rparr>\<rparr> in
   \<exists>v. vt_signature v = [] \<and> vt_nullifier v = [66] \<and> vt_type v = Precommit \<and>
    (\<exists>votes. fst (receive_vote demo (\<lambda>_. []) 0 g v) = Inr (FinalizedBlock (genesis 3) votes)) \<and>
    en_step (snd (receive_vote demo (\<lambda>_. []) 0 g v)) = StepCommit"
  using forged_vote_finalizes [of "demo_engine\<lparr>en_current_proposal := Some \<lparr> pr_height = 1, pr_round = 0,
      pr_block = genesis 3, pr_nullifier = [1], pr_signature = [], pr_validator_proof = vc_placeholder \<rparr>\<rparr>"
      _ 0 "[66]" demo "\<lambda>_. []" 0]
  by (simp add: demo_engine_def engine_new_def)

section \<open>An honest validator that equivocates\<close>

text \<open>
  C35. Following the protocol can get a validator slashed: a validator in the propose step whose
  propose timeout fires and which then receives the (valid) proposal broadcasts two prevotes of the
  same height and round, first nil and then for the block, since the timeout leaves the step
  unchanged. A node that receives both reports the pair as equivocation, whose penalty is the whole
  stake and a ban.
\<close>

theorem honest_validator_equivocates:
  assumes "en_step g = StepPropose" "en_locked_block g = None" "en_signing_key g = None"
    and "propose_for_round (en_timeouts g) (en_round g) < t - en_step_start g"
    and "pr_height p = en_height g" "pr_round p = en_round g"
    and "proposer_for_round g (en_round g) = Some (pr_nullifier p)" "proposal_verify e p"
    and "en_height g' = en_height g" "en_prevote_sets g' (en_round g) = None" "2 \<le> en_total_validators g'"
    and "en_total_validators g' < 2 ^ 62"
  shows "\<exists>v w ev. engine_outputs e ls g [EvTimeout t, EvProposal t' p] = [BroadcastVote v, BroadcastVote w] \<and>
    vt_type v = Prevote \<and> vt_type w = Prevote \<and> vt_height v = vt_height w \<and> vt_round v = vt_round w \<and>
    vt_nullifier v = vt_nullifier w \<and> vt_block_hash v \<noteq> vt_block_hash w \<and>
    engine_outputs e ls g' [EvVote s v, EvVote s' w] = [Pending, SlashEvidence ev] \<and>
    compute_slash (DoubleSigning a b) = (100, True, True)"
proof -
  let ?v = "make_vote e g Prevote None"
  let ?w = "make_vote e (g\<lparr>en_current_proposal := Some p, en_step := StepPrevote, en_step_start := t'\<rparr>) Prevote
      (Some (block_hash_of e (pr_block p)))"
  have outs: "engine_outputs e ls g [EvTimeout t, EvProposal t' p] = [BroadcastVote ?v, BroadcastVote ?w]"
    using assms by (simp add: engine_step_def engine_defs decide_prevote_def Let_def)
  have shape: "vt_type ?v = Prevote" "vt_type ?w = Prevote" "vt_height ?v = en_height g"
    "vt_height ?w = en_height g" "vt_round ?v = en_round g" "vt_round ?w = en_round g"
    "vt_nullifier ?w = vt_nullifier ?v" "vt_block_hash ?v = None"
    "vt_block_hash ?w = Some (block_hash_of e (pr_block p))" "vt_power ?v = 1"
    "vt_signature ?v = []" "vt_signature ?w = []"
    using assms(3) by (simp_all add: make_vote_def Let_def)
  have two: "\<not> en_total_validators g' * 2 div 3 + 1 \<le> (1 :: u64)"
  proof -
    have u: "2 \<le> unat (en_total_validators g')" "unat (en_total_validators g') < 2 ^ 62"
      using assms(11,12) by (simp_all add: word_le_nat_alt word_less_nat_alt)
    then have "unat (en_total_validators g' * 2) = unat (en_total_validators g') * 2"
      by (subst unat_times_exact) simp_all
    then have "unat (en_total_validators g' * 2 div 3) = unat (en_total_validators g') * 2 div 3"
      by (simp add: unat_div_distrib)
    then have "unat (en_total_validators g' * 2 div 3 + 1) = unat (en_total_validators g') * 2 div 3 + 1"
      using u by (subst unat_plus_exact) simp_all
    with u show ?thesis by (simp add: word_le_nat_alt)
  qed
  let ?s = "snd (vote_set_add (vote_set_new (en_total_validators g')) ?v)"
  let ?g1 = "g'\<lparr>en_prevote_sets := (en_prevote_sets g')(en_round g \<mapsto> ?s)\<rparr>"
  have first: "engine_react e ls g' (EvVote s ?v) = (Some Pending, ?g1)"
    using assms(9,10) shape two
    by (simp add: receive_vote_def vote_verify_signature_def detect_equivocation_def handle_prevote_def
        set_for_round_def vote_set_new_def vote_set_add_def Let_def)
  let ?ev = "\<lparr> ev_height = en_height ?g1, ev_round = en_round ?g1, ev_vote_type = Prevote,
      ev_vote_a = ?v, ev_vote_b = ?w \<rparr>"
  have "fst (engine_react e ls ?g1 (EvVote s' ?w)) = Some (SlashEvidence ?ev)"
    using assms(9) shape
    by (simp add: receive_vote_def vote_verify_signature_def detect_equivocation_def
        vote_set_existing_def vote_set_new_def vote_set_add_def Let_def)
  with first have "engine_outputs e ls g' [EvVote s ?v, EvVote s' ?w] = [Pending, SlashEvidence ?ev]"
    by (simp add: engine_step_def del: engine_react.simps)
  with outs shape show ?thesis
    by (intro exI [of _ ?v] exI [of _ ?w] exI [of _ ?ev]) (simp add: compute_slash_def)
qed

theorem honest_validator_equivocates_witness:
  "let g = snd (start_height 0 (engine_new 0 1 4 [[1], [2], [3], [4]] (Some [1]) None) 4);
       p = \<lparr> pr_height = 4, pr_round = 0, pr_block = genesis 3, pr_nullifier = [1], pr_signature = [],
             pr_validator_proof = vc_placeholder \<rparr> in
   \<exists>v w ev. engine_outputs demo (\<lambda>_. []) g [EvTimeout 300, EvProposal 310 p] = [BroadcastVote v, BroadcastVote w] \<and>
    vt_type v = Prevote \<and> vt_type w = Prevote \<and> vt_height v = vt_height w \<and> vt_round v = vt_round w \<and>
    vt_nullifier v = vt_nullifier w \<and> vt_block_hash v \<noteq> vt_block_hash w \<and>
    engine_outputs demo (\<lambda>_. []) g [EvVote 320 v, EvVote 330 w] = [Pending, SlashEvidence ev] \<and>
    compute_slash (DoubleSigning [] []) = (100, True, True)"
  unfolding Let_def
  by (rule honest_validator_equivocates)
    (simp_all add: start_height_def enter_propose_def engine_new_def timeouts_default_def
      propose_for_round_def proposer_for_round_def proposal_verify_def vc_verify_def)

end
