(* ===== verification/TendermintLive.thy ===== *)
theory TendermintLive
  imports TendermintProps
begin

text \<open>
  What a round achieves when it is not disturbed: an engine that holds the proposal and receives
  votes for it, in any order and with repetitions, precommits when more than two thirds have
  prevoted and finalizes when more than two thirds have precommitted.
\<close>

section \<open>Collected votes for one block\<close>

lemma collect_votes_snoc: "collect_votes n (vs @ [v]) = snd (vote_set_add (collect_votes n vs) v)"
  by (simp add: collect_votes_def)

lemma collect_votes_dom: "dom (vs_votes (collect_votes n vs)) = vt_nullifier ` set vs"
proof (induction vs rule: rev_induct)
  case (snoc v vs)
  have "dom (vs_votes (snd (vote_set_add s v))) = insert (vt_nullifier v) (dom (vs_votes s))" for s
    by (auto simp: vote_set_add_def Let_def)
  with snoc show ?case by (simp add: collect_votes_snoc)
qed (simp add: collect_votes_def vote_set_new_def)

lemma collect_votes_voters:
  assumes "\<forall>v\<in>set vs. vt_block_hash v = bh"
  shows "voters (collect_votes n vs) bh = vt_nullifier ` set vs"
proof -
  have "vt_block_hash v = bh" if "vs_votes (collect_votes n vs) k = Some v" for k v
    using collect_votes_from [OF that] assms by blast
  then have "voters (collect_votes n vs) bh = dom (vs_votes (collect_votes n vs))"
    by (auto simp: voters_def)
  then show ?thesis by (simp only: collect_votes_dom)
qed

text \<open>When a new vote for the block is added, the quorum is reported if there is one.\<close>

lemma collect_add_quorum:
  assumes "\<forall>w\<in>set (vs @ [v]). vt_block_hash w = bh \<and> vt_power w = 1 \<and> vt_nullifier w \<in> V"
    and "finite V" "card V = n" "n < 2 ^ 63" "vt_nullifier v \<notin> vt_nullifier ` set vs"
  shows "fst (vote_set_add (collect_votes (of_nat n) vs) v) =
    (if n * 2 div 3 < card (vt_nullifier ` set (vs @ [v])) then Some bh else None)"
proof -
  let ?s = "collect_votes (of_nat n) vs" and ?s' = "collect_votes (of_nat n) (vs @ [v])"
  have new: "vs_votes ?s (vt_nullifier v) = None" using assms(5) collect_votes_dom by (metis domIff)
  have "vt_nullifier ` set (vs @ [v]) \<subseteq> V" using assms(1) by auto
  then have le: "card (vt_nullifier ` set (vs @ [v])) \<le> n" using assms(2,3) by (metis card_mono)
  have "unit_votes (vs @ [v])" using assms(1) by (simp add: unit_votes_def)
  then have "(case vs_power ?s' bh of None \<Rightarrow> 0 | Some a \<Rightarrow> a) = of_nat (card (vt_nullifier ` set (vs @ [v])))"
    using counted_collect collect_votes_voters [of "vs @ [v]" bh] assms(1) by (metis counted_def)
  then have acc: "(case vs_power ?s bh of None \<Rightarrow> 0 | Some a \<Rightarrow> a) + 1 =
      (of_nat (card (vt_nullifier ` set (vs @ [v]))) :: u64)"
    using new assms(1) by (simp add: collect_votes_snoc vote_set_add_def Let_def)
  have "of_nat n * 2 div 3 + 1 \<le> (of_nat (card (vt_nullifier ` set (vs @ [v]))) :: u64) \<longleftrightarrow>
      n * 2 div 3 < card (vt_nullifier ` set (vs @ [v]))"
    using le assms(4) quorum_value [OF assms(4)] by (simp add: word_le_nat_alt unat_of_nat_exact Suc_le_eq)
  with new acc assms(1) show ?thesis by (simp add: vote_set_add_def Let_def)
qed

section \<open>An undisturbed round\<close>

definition votes_of :: "vote_type \<Rightarrow> (nat \<times> vote) list \<Rightarrow> vote list" where
  "votes_of ty evs = filter (\<lambda>v. vt_type v = ty) (map snd evs)"

definition vote_events :: "(nat \<times> vote) list \<Rightarrow> engine_event list" where
  "vote_events evs = map (\<lambda>(t, v). EvVote t v) evs"

definition quorum_of :: "nat \<Rightarrow> vote list \<Rightarrow> bool" where
  "quorum_of n vs \<longleftrightarrow> n * 2 div 3 < card (vt_nullifier ` set vs)"

text \<open>A vote of a validator for the block, in the engine's round, that verifies.\<close>

definition round_vote :: "('p, 's) crates \<Rightarrow> bytes set \<Rightarrow> engine \<Rightarrow> block_hash \<Rightarrow> vote \<Rightarrow> bool" where
  "round_vote e V g bh v \<longleftrightarrow>
     vt_height v = en_height g \<and> vt_round v = en_round g \<and> vt_block_hash v = Some bh \<and>
     vt_power v = 1 \<and> vt_nullifier v \<in> V \<and> vote_verify_signature e v"

text \<open>The engine \<open>g'\<close> after the votes \<open>evs\<close> of the round of \<open>g\<close>.\<close>

definition in_round :: "nat \<Rightarrow> block_hash \<Rightarrow> engine \<Rightarrow> (nat \<times> vote) list \<Rightarrow> engine \<Rightarrow> bool" where
  "in_round n bh g evs g' \<longleftrightarrow>
     en_height g' = en_height g \<and> en_round g' = en_round g \<and> en_total_validators g' = of_nat n \<and>
     en_current_proposal g' = en_current_proposal g \<and>
     (en_locked_block g' = None \<or> (\<exists>r. en_locked_block g' = Some (bh, r))) \<and>
     set_for_round (en_prevote_sets g') (of_nat n) (en_round g) = collect_votes (of_nat n) (votes_of Prevote evs) \<and>
     set_for_round (en_precommit_sets g') (of_nat n) (en_round g) = collect_votes (of_nat n) (votes_of Precommit evs)"

definition round_ready :: "('p, 's) crates \<Rightarrow> nat \<Rightarrow> engine \<Rightarrow> proposal \<Rightarrow> bool" where
  "round_ready e n g p \<longleftrightarrow>
     en_current_proposal g = Some p \<and> en_total_validators g = of_nat n \<and>
     (en_locked_block g = None \<or> (\<exists>r. en_locked_block g = Some (block_hash_of e (pr_block p), r))) \<and>
     en_prevote_sets g (en_round g) = None \<and> en_precommit_sets g (en_round g) = None"

lemma round_ready_in_round: "round_ready e n g p \<Longrightarrow> in_round n (block_hash_of e (pr_block p)) g [] g"
  by (auto simp: round_ready_def in_round_def set_for_round_def votes_of_def collect_votes_def)

lemma votes_of_snoc:
  "votes_of ty (evs @ [(t, v)]) = (if vt_type v = ty then votes_of ty evs @ [v] else votes_of ty evs)"
  by (simp add: votes_of_def)

lemma in_round_no_evidence:
  assumes "in_round n bh g evs g'" "\<forall>v\<in>set (map snd evs). vt_block_hash v = Some bh"
    and "vt_round v = en_round g" "vt_block_hash v = Some bh"
  shows "detect_equivocation g' v = None"
proof -
  have same: "vt_block_hash w = Some bh" if "vs_votes (collect_votes (of_nat n) (votes_of ty evs)) k = Some w" for ty k w
    using collect_votes_from [OF that] assms(2) by (auto simp: votes_of_def)
  let ?sets = "case vt_type v of Prevote \<Rightarrow> en_prevote_sets g' | Precommit \<Rightarrow> en_precommit_sets g'"
  have "s = collect_votes (of_nat n) (votes_of (vt_type v) evs)" if "?sets (vt_round v) = Some s" for s
    using assms(1,3) that by (cases "vt_type v") (auto simp: in_round_def set_for_round_def)
  then show ?thesis
    using same assms(4)
    by (auto simp: detect_equivocation_def vote_set_existing_def Let_def split: option.split)
qed

text \<open>What the engine may answer to a vote of the round, and what it must answer.\<close>

fun round_output :: "block_hash \<Rightarrow> block \<Rightarrow> vote_type \<Rightarrow> consensus_output \<Rightarrow> bool" where
  "round_output bh b ty Pending = True"
| "round_output bh b ty (BroadcastVote v) = (ty = Prevote \<and> vt_type v = Precommit \<and> vt_block_hash v = Some bh)"
| "round_output bh b ty (FinalizedBlock b' vs) = (ty = Precommit \<and> b' = b)"
| "round_output bh b ty out = False"

lemma round_output_cases:
  "round_output bh b Prevote out \<Longrightarrow> out \<noteq> Pending \<Longrightarrow> \<exists>v. out = BroadcastVote v"
  "round_output bh b Precommit out \<Longrightarrow> out \<noteq> Pending \<Longrightarrow> \<exists>vs. out = FinalizedBlock b vs"
  by (cases out; simp)+

lemma set_for_round_update: "set_for_round (m(r \<mapsto> s)) n r = s"
  by (simp add: set_for_round_def)

lemma vote_set_add_known:
  "vt_nullifier v \<in> dom (vs_votes s) \<Longrightarrow> vote_set_add s v = (None, s)"
  by (auto simp: vote_set_add_def)

lemma in_round_prevote:
  assumes "in_round n bh g evs g'" "vt_type v = Prevote" "vt_round v = en_round g"
    and "vote_set_add (collect_votes (of_nat n) (votes_of Prevote evs)) v = (q, s)" "q = None \<or> q = Some (Some bh)"
  shows "\<exists>out g''. handle_prevote e t g' v = (out, g'') \<and> in_round n bh g (evs @ [(t, v)]) g'' \<and>
    round_output bh b Prevote out \<and> (q \<noteq> None \<longrightarrow> out \<noteq> Pending)"
  using assms
  by (auto simp: in_round_def handle_prevote_def Let_def enter_precommit_def make_vote_def votes_of_snoc
      collect_votes_snoc set_for_round_update update_lock_def split: option.split)

lemma in_round_precommit:
  assumes "in_round n bh g evs g'" "vt_type v = Precommit" "vt_round v = en_round g"
    and "vote_set_add (collect_votes (of_nat n) (votes_of Precommit evs)) v = (q, s)" "q = None \<or> q = Some (Some bh)"
    and "en_current_proposal g = Some p" "bh = block_hash_of e (pr_block p)"
  shows "\<exists>out g''. handle_precommit e ls t g' v = (out, g'') \<and> in_round n bh g (evs @ [(t, v)]) g'' \<and>
    round_output bh (pr_block p) Precommit out \<and> (q \<noteq> None \<longrightarrow> out \<noteq> Pending)"
  using assms
  by (auto simp: in_round_def handle_precommit_def Let_def votes_of_snoc collect_votes_snoc set_for_round_update)

lemma in_round_vote:
  assumes "in_round n bh g evs g'" "\<forall>w\<in>set (map snd (evs @ [(t, v)])). round_vote e V g bh w"
    and "finite V" "card V = n" "n < 2 ^ 63" "en_current_proposal g = Some p" "bh = block_hash_of e (pr_block p)"
  shows "\<exists>out g''. receive_vote e ls t g' v = (Inr out, g'') \<and> in_round n bh g (evs @ [(t, v)]) g'' \<and>
    round_output bh (pr_block p) (vt_type v) out \<and>
    (\<not> quorum_of n (votes_of (vt_type v) evs) \<and> quorum_of n (votes_of (vt_type v) (evs @ [(t, v)])) \<longrightarrow> out \<noteq> Pending)"
proof -
  let ?vs = "votes_of (vt_type v) evs"
  let ?add = "vote_set_add (collect_votes (of_nat n) ?vs) v"
  have v: "vt_height v = en_height g" "vt_round v = en_round g" "vt_block_hash v = Some bh" "vote_verify_signature e v"
    using assms(2) by (auto simp: round_vote_def)
  have all: "\<forall>w\<in>set (?vs @ [v]). vt_block_hash w = Some bh \<and> vt_power w = 1 \<and> vt_nullifier w \<in> V"
    using assms(2) by (auto simp: votes_of_def round_vote_def)
  obtain q s where q: "?add = (q, s)" by fastforce
  have qv: "q = None \<or> q = Some (Some bh)"
    and hit: "\<not> quorum_of n ?vs \<and> quorum_of n (votes_of (vt_type v) (evs @ [(t, v)])) \<longrightarrow> q \<noteq> None"
  proof -
    show "q = None \<or> q = Some (Some bh)"
      using q v(3) by (auto simp: vote_set_add_def Let_def split: if_splits)
    show "\<not> quorum_of n ?vs \<and> quorum_of n (votes_of (vt_type v) (evs @ [(t, v)])) \<longrightarrow> q \<noteq> None"
    proof (cases "vt_nullifier v \<in> vt_nullifier ` set ?vs")
      case True
      then show ?thesis by (simp add: quorum_of_def votes_of_snoc insert_absorb)
    next
      case False
      from collect_add_quorum [OF all assms(3-5) this] q show ?thesis
        by (auto simp: quorum_of_def votes_of_snoc)
    qed
  qed
  have none: "detect_equivocation g' v = None"
    using assms(2) v by (intro in_round_no_evidence [OF assms(1)]) (auto simp: round_vote_def)
  have height: "vt_height v = en_height g'" using assms(1) v(1) by (simp add: in_round_def)
  show ?thesis
  proof (cases "vt_type v")
    case Prevote
    with q have "vote_set_add (collect_votes (of_nat n) (votes_of Prevote evs)) v = (q, s)" by simp
    from in_round_prevote [OF assms(1) Prevote v(2) this qv, of e t "pr_block p"] hit
    show ?thesis using height none v(4) Prevote by (auto simp: receive_vote_def)
  next
    case Precommit
    with q have "vote_set_add (collect_votes (of_nat n) (votes_of Precommit evs)) v = (q, s)" by simp
    from in_round_precommit [OF assms(1) Precommit v(2) this qv assms(6,7), of ls t] hit
    show ?thesis using height none v(4) Precommit by (auto simp: receive_vote_def)
  qed
qed

section \<open>The outcome\<close>

lemma engine_outputs_snoc:
  "engine_outputs e ls g (xs @ [x]) = engine_outputs e ls g xs @
     (case fst (engine_react e ls (run (engine_step e ls) g xs) x) of Some out \<Rightarrow> [out] | None \<Rightarrow> [])"
  by (induction xs arbitrary: g) (auto split: option.split)

lemma vote_events_snoc: "vote_events (evs @ [(t, v)]) = vote_events evs @ [EvVote t v]"
  by (simp add: vote_events_def)

lemma round_run:
  assumes "round_ready e n g p" "bh = block_hash_of e (pr_block p)" "finite V" "card V = n" "n < 2 ^ 63"
    and "\<forall>w\<in>set (map snd evs). round_vote e V g bh w"
  shows "in_round n bh g evs (run (engine_step e ls) g (vote_events evs)) \<and>
    (\<forall>out\<in>set (engine_outputs e ls g (vote_events evs)). \<exists>ty. round_output bh (pr_block p) ty out) \<and>
    (\<forall>ty. quorum_of n (votes_of ty evs) \<longrightarrow>
       (\<exists>out\<in>set (engine_outputs e ls g (vote_events evs)). out \<noteq> Pending \<and> round_output bh (pr_block p) ty out))"
  using assms(6)
proof (induction evs rule: rev_induct)
  case Nil
  have "\<not> quorum_of n (votes_of ty [])" for ty by (simp add: quorum_of_def votes_of_def)
  then show ?case
    using round_ready_in_round [OF assms(1)] assms(2) by (simp add: vote_events_def)
next
  case (snoc ev evs)
  obtain t v where ev: "ev = (t, v)" by fastforce
  let ?g = "run (engine_step e ls) g (vote_events evs)"
  have IH: "in_round n bh g evs ?g"
    "\<forall>out\<in>set (engine_outputs e ls g (vote_events evs)). \<exists>ty. round_output bh (pr_block p) ty out"
    "\<forall>ty. quorum_of n (votes_of ty evs) \<longrightarrow>
       (\<exists>out\<in>set (engine_outputs e ls g (vote_events evs)). out \<noteq> Pending \<and> round_output bh (pr_block p) ty out)"
    using snoc by auto
  have held: "en_current_proposal g = Some p" using assms(1) by (simp add: round_ready_def)
  obtain out g'' where out: "receive_vote e ls t ?g v = (Inr out, g'')" "in_round n bh g (evs @ [(t, v)]) g''"
    "round_output bh (pr_block p) (vt_type v) out"
    "\<not> quorum_of n (votes_of (vt_type v) evs) \<and> quorum_of n (votes_of (vt_type v) (evs @ [(t, v)])) \<longrightarrow> out \<noteq> Pending"
    using in_round_vote [OF IH(1) snoc.prems [unfolded ev] assms(3-5) held assms(2)] by blast
  have outs: "engine_outputs e ls g (vote_events (evs @ [ev])) = engine_outputs e ls g (vote_events evs) @ [out]"
    by (simp add: ev vote_events_snoc engine_outputs_snoc out(1))
  have step: "run (engine_step e ls) g (vote_events (evs @ [ev])) = g''"
    by (simp add: ev vote_events_snoc run_append engine_step_def out(1))
  have "\<exists>x\<in>set (engine_outputs e ls g (vote_events evs) @ [out]). x \<noteq> Pending \<and> round_output bh (pr_block p) ty x"
    if quorum: "quorum_of n (votes_of ty (evs @ [(t, v)]))" for ty
    using IH(3) out(3,4) quorum by (cases "ty = vt_type v") (auto simp: votes_of_snoc)
  then show ?case unfolding outs step using out(2,3) IH(2) by (auto simp: ev)
qed

lemma round_run_finalizes:
  assumes "round_ready e n g p" "finite V" "card V = n" "n < 2 ^ 63"
    and "\<forall>w\<in>set (map snd evs). round_vote e V g (block_hash_of e (pr_block p)) w"
    and "quorum_of n (votes_of Precommit evs)"
  shows "\<exists>vs. FinalizedBlock (pr_block p) vs \<in> set (engine_outputs e ls g (vote_events evs))"
proof -
  obtain out where "out \<in> set (engine_outputs e ls g (vote_events evs))" "out \<noteq> Pending"
    "round_output (block_hash_of e (pr_block p)) (pr_block p) Precommit out"
    using round_run [OF assms(1) refl assms(2-5), of ls] assms(6) by blast
  then show ?thesis using round_output_cases by metis
qed

text \<open>A validator's key pair belongs to its commitment; without a key its votes are not signed.\<close>

definition keyed_engine :: "('p, 's) crates \<Rightarrow> engine \<Rightarrow> bool" where
  "keyed_engine e g \<longleftrightarrow>
     (\<forall>sk. en_signing_key g = Some sk \<longrightarrow>
        (\<exists>c. en_our_commitment g = Some c \<and> vc_public_key c = ed_public e sk))"

lemma make_vote_fields:
  "vt_type (make_vote e g ty bh) = ty" "vt_height (make_vote e g ty bh) = en_height g"
  "vt_round (make_vote e g ty bh) = en_round g" "vt_block_hash (make_vote e g ty bh) = bh"
  "vt_power (make_vote e g ty bh) = 1"
  "en_our_nullifier g = Some k \<Longrightarrow> vt_nullifier (make_vote e g ty bh) = k"
  by (simp_all add: make_vote_def Let_def split: option.split)

lemma make_vote_verifies:
  assumes "ed_laws e" "keyed_engine e g"
  shows "vote_verify_signature e (make_vote e g ty bh)"
  using assms
  by (auto simp: make_vote_def vote_verify_signature_def keyed_engine_def ed_laws_def vote_sign_bytes_def
      Let_def split: option.splits)

text \<open>
  C7. An undisturbed round finalizes: an engine that holds the proposal of its round, has counted no vote of
  this round yet and is unlocked or locked on the same block receives nothing but votes
  that validators' engines make for its block; whatever their order, repetitions and instants,
  signed or not, it broadcasts a precommit for the block as soon as more than two thirds have
  prevoted and finalizes exactly the proposed block as soon as more than two thirds have
  precommitted; on the way it never produces evidence and never votes for or finalizes anything
  else.
\<close>

theorem round_finalizes:
  assumes "ed_laws e" "finite V" "card V = n" "n < 2 ^ 63" "round_ready e n g p"
    and "\<forall>k\<in>V. en_our_nullifier (G k) = Some k \<and> keyed_engine e (G k) \<and>
      en_height (G k) = en_height g \<and> en_round (G k) = en_round g"
    and "\<forall>v\<in>set (map snd evs). \<exists>k\<in>V. \<exists>ty. v = make_vote e (G k) ty (Some (block_hash_of e (pr_block p)))"
  shows "let outs = set (engine_outputs e ls g (vote_events evs)) in
    (quorum_of n (votes_of Prevote evs) \<longrightarrow> (\<exists>v. BroadcastVote v \<in> outs)) \<and>
    (quorum_of n (votes_of Precommit evs) \<longrightarrow> (\<exists>vs. FinalizedBlock (pr_block p) vs \<in> outs)) \<and>
    (\<forall>v. BroadcastVote v \<in> outs \<longrightarrow> vt_type v = Precommit \<and> vt_block_hash v = Some (block_hash_of e (pr_block p))) \<and>
    (\<forall>b vs. FinalizedBlock b vs \<in> outs \<longrightarrow> b = pr_block p) \<and> (\<forall>ev. SlashEvidence ev \<notin> outs)"
proof -
  let ?bh = "block_hash_of e (pr_block p)"
  have votes: "\<forall>v\<in>set (map snd evs). round_vote e V g ?bh v"
    using assms(1,6,7) by (fastforce simp: round_vote_def make_vote_fields intro: make_vote_verifies)
  note run = round_run [OF assms(5) refl assms(2-4) votes, of ls]
  let ?outs = "set (engine_outputs e ls g (vote_events evs))"
  have allowed: "out \<in> ?outs \<Longrightarrow> \<exists>ty. round_output ?bh (pr_block p) ty out" for out using run by blast
  have prevotes: "\<exists>v. BroadcastVote v \<in> ?outs" if quorum: "quorum_of n (votes_of Prevote evs)"
  proof -
    obtain out where "out \<in> ?outs" "out \<noteq> Pending" "round_output ?bh (pr_block p) Prevote out"
      using run quorum by blast
    then show ?thesis using round_output_cases by metis
  qed
  have precommits: "\<exists>vs. FinalizedBlock (pr_block p) vs \<in> ?outs" if "quorum_of n (votes_of Precommit evs)"
    using round_run_finalizes [OF assms(5,2-4) votes that] by blast
  show ?thesis
    unfolding Let_def using prevotes precommits by (auto dest: allowed)
qed

definition demo_proposal :: proposal where
  "demo_proposal =
     \<lparr> pr_height = 1, pr_round = 0, pr_block = genesis 3, pr_nullifier = [1], pr_signature = [],
       pr_validator_proof = vc_placeholder \<rparr>"

lemma demo_ed: "ed_laws demo"
  by (simp add: ed_laws_def demo_def)

theorem round_finalizes_witness:
  "\<forall>ls. let g = demo_engine\<lparr>en_current_proposal := Some demo_proposal\<rparr>; bh = Some (block_hash_of demo (genesis 3)) in
    \<exists>vs. FinalizedBlock (genesis 3) vs \<in> set (engine_outputs demo ls g
      (vote_events [(5, make_vote demo g Precommit bh), (6, make_vote demo g Prevote bh)]))"
proof
  fix ls
  let ?g = "demo_engine\<lparr>en_current_proposal := Some demo_proposal\<rparr>"
  let ?bh = "Some (block_hash_of demo (pr_block demo_proposal))"
  let ?evs = "[(5, make_vote demo ?g Precommit ?bh), (6, make_vote demo ?g Prevote ?bh)]"
  have g: "round_ready demo 1 ?g demo_proposal"
    "\<forall>k\<in>{[1]}. en_our_nullifier ?g = Some k \<and> keyed_engine demo ?g \<and> en_height ?g = en_height ?g \<and> en_round ?g = en_round ?g"
    by (simp_all add: round_ready_def keyed_engine_def demo_engine_def engine_new_def)
  have votes: "\<forall>v\<in>set (map snd ?evs). \<exists>k\<in>{[1 :: u8]}. \<exists>ty. v = make_vote demo ?g ty ?bh" by auto
  have "quorum_of 1 (votes_of Precommit ?evs)"
    by (simp add: quorum_of_def votes_of_def make_vote_fields)
  with round_finalizes [OF demo_ed _ _ _ g votes, of ls]
  show "let g = demo_engine\<lparr>en_current_proposal := Some demo_proposal\<rparr>; bh = Some (block_hash_of demo (genesis 3)) in
      \<exists>vs. FinalizedBlock (genesis 3) vs \<in> set (engine_outputs demo ls g
        (vote_events [(5, make_vote demo g Precommit bh), (6, make_vote demo g Prevote bh)]))"
    by (simp add: Let_def demo_proposal_def)
qed

end
