(* ===== verification/TendermintNet.thy ===== *)
theory TendermintNet
  imports TendermintLive
begin

text \<open>
  A network of validators that each run the engine of \<open>src/src/consensus/tendermint.rs\<close>, over many
  heights. Messages are delivered in any order, late, repeatedly or never, proposals may be anything,
  and Byzantine validators may vote for anything. What the channels must provide is that a vote is
  from the validator that it names and has one unit of power: the engine checks neither, as
  \<open>TendermintGaps\<close> shows. The theory shows that under this assumption any two engines that
  finalize a block at the same height finalize the same one.
\<close>

section \<open>Quorums\<close>

text \<open>Sets of voters any two of which share an honest one, and a bookkeeping of what honest voters vote.\<close>

locale quorum_system =
  fixes quorum :: "'v set \<Rightarrow> bool" and honest :: "'v \<Rightarrow> bool"
  assumes meet: "quorum A \<Longrightarrow> quorum B \<Longrightarrow> \<exists>k\<in>A \<inter> B. honest k"
begin

definition certified :: "('v \<Rightarrow> 'x \<Rightarrow> bool) \<Rightarrow> 'x \<Rightarrow> bool" where
  "certified voted x \<longleftrightarrow> (\<exists>A. quorum A \<and> (\<forall>k\<in>A. honest k \<longrightarrow> voted k x))"

lemma certified_unique:
  assumes "\<And>k x y. honest k \<Longrightarrow> voted k x \<Longrightarrow> voted k y \<Longrightarrow> x = y"
    and "certified voted x" "certified voted y"
  shows "x = y"
proof -
  obtain A B where "quorum A" "\<forall>k\<in>A. honest k \<longrightarrow> voted k x" "quorum B" "\<forall>k\<in>B. honest k \<longrightarrow> voted k y"
    using assms(2,3) by (auto simp: certified_def)
  with meet [of A B] assms(1) show ?thesis by blast
qed

lemma certified_mono: "certified voted x \<Longrightarrow> (\<And>k. voted k x \<Longrightarrow> voted' k x) \<Longrightarrow> certified voted' x"
  by (auto simp: certified_def)

end

text \<open>More than two thirds of the validators, of whom fewer than a third are Byzantine.\<close>

definition super_majority :: "bytes list \<Rightarrow> bytes list \<Rightarrow> bytes set \<Rightarrow> bool" where
  "super_majority ns F A \<longleftrightarrow>
     A \<subseteq> set ns \<and> length ns * 2 div 3 < card A \<and> distinct ns \<and> set F \<subseteq> set ns \<and> 3 * card (set F) < length ns"

interpretation bft: quorum_system "super_majority ns F" "\<lambda>k. k \<notin> set F" for ns F
proof
  fix A B
  assume "super_majority ns F A" "super_majority ns F B"
  then show "\<exists>k\<in>A \<inter> B. k \<notin> set F"
    using quorums_meet [of "set ns" A B "set F"] by (auto simp: super_majority_def distinct_card)
qed

section \<open>The network\<close>

text \<open>
  The engines by nullifier, the votes that the honest ones have broadcast, and the blocks finalized,
  with the engine and its height.
\<close>

record net =
  nt_engines :: "bytes \<Rightarrow> engine"
  nt_sent :: "vote list"
  nt_final :: "(bytes \<times> u64 \<times> block) list"

definition net_init ::
  "nat \<Rightarrow> u64 \<Rightarrow> bytes list \<Rightarrow> (bytes \<Rightarrow> validator_commitment option) \<Rightarrow> (bytes \<Rightarrow> bytes option) \<Rightarrow> net" where
  "net_init now h ns comm sk =
     \<lparr> nt_engines = (\<lambda>k.
         let g = engine_new now h (of_nat (length ns)) ns (Some k) (comm k) in
         snd (start_height now (case sk k of Some key \<Rightarrow> with_signing_key g key | None \<Rightarrow> g) h)),
       nt_sent = [], nt_final = [] \<rparr>"

text \<open>
  What can reach an engine, which is an assumption on its environment and not a check of the code:
  the channels authenticate votes, so that a vote is either one that an honest validator has
  broadcast or is in the own name of a Byzantine one, with one unit of power. Everything else is
  free: any proposal, any block to propose, timeouts at any time. An engine is only moved to greater
  heights. \<open>receive_vote\<close> itself accepts every power, every name and an empty signature.
\<close>

fun deliverable :: "bytes list \<Rightarrow> net \<Rightarrow> engine \<Rightarrow> engine_event \<Rightarrow> bool" where
  "deliverable F s g (EvHeight now h) \<longleftrightarrow> en_height g < h"
| "deliverable F s g (EvVote now v) \<longleftrightarrow> v \<in> set (nt_sent s) \<or> vt_nullifier v \<in> set F \<and> vt_power v = 1"
| "deliverable F s g _ \<longleftrightarrow> True"

fun record_output :: "bytes \<Rightarrow> u64 \<Rightarrow> consensus_output option \<Rightarrow> net \<Rightarrow> net" where
  "record_output k h (Some (BroadcastVote v)) s = s\<lparr>nt_sent := v # nt_sent s\<rparr>"
| "record_output k h (Some (FinalizedBlock b vs)) s = s\<lparr>nt_final := (k, h, b) # nt_final s\<rparr>"
| "record_output k h _ s = s"

definition net_after ::
  "('p, 's) crates \<Rightarrow> ((bytes \<Rightarrow> vote option) \<Rightarrow> vote list) \<Rightarrow> bytes \<Rightarrow> engine_event \<Rightarrow> net \<Rightarrow> net" where
  "net_after e ls k ev s =
     (case engine_react e ls (nt_engines s k) ev of
        (out, g) \<Rightarrow> record_output k (en_height g) out (s\<lparr>nt_engines := (nt_engines s)(k := g)\<rparr>))"

inductive net_step ::
  "('p, 's) crates \<Rightarrow> ((bytes \<Rightarrow> vote option) \<Rightarrow> vote list) \<Rightarrow> bytes list \<Rightarrow> bytes list \<Rightarrow> net \<Rightarrow> net \<Rightarrow> bool"
  for e :: "('p, 's) crates" and ls and ns and F where
  react: "k \<in> set ns \<Longrightarrow> k \<notin> set F \<Longrightarrow> deliverable F s (nt_engines s k) ev \<Longrightarrow>
    net_step e ls ns F s (net_after e ls k ev s)"

inductive_cases net_stepE: "net_step e ls ns F s s'"

lemma record_output_engines [simp]: "nt_engines (record_output k h out s) = nt_engines s"
  by (cases "(k, h, out, s)" rule: record_output.cases) simp_all

lemma record_output_sent:
  "set (nt_sent (record_output k h out s)) =
     set (nt_sent s) \<union> (case out of Some (BroadcastVote v) \<Rightarrow> {v} | _ \<Rightarrow> {})"
  by (cases "(k, h, out, s)" rule: record_output.cases) auto

lemma record_output_final:
  "set (nt_final (record_output k h out s)) =
     set (nt_final s) \<union> (case out of Some (FinalizedBlock b vs) \<Rightarrow> {(k, h, b)} | _ \<Rightarrow> {})"
  by (cases "(k, h, out, s)" rule: record_output.cases) auto

section \<open>One reaction of an engine\<close>

definition same_height :: "engine_event \<Rightarrow> bool" where
  "same_height ev \<longleftrightarrow> (\<forall>now h. ev \<noteq> EvHeight now h)"

lemma react_frame:
  assumes "engine_react e ls g ev = (out, g')"
  shows "en_our_nullifier g' = en_our_nullifier g \<and> en_total_validators g' = en_total_validators g \<and>
    (same_height ev \<longrightarrow> en_height g' = en_height g)"
  using assms
  by (cases ev)
    (auto simp: same_height_def start_height_def engine_defs Let_def split: sum.splits option.splits
      prod.splits vote_type.splits consensus_step.splits if_splits)

lemma react_vote:
  assumes "engine_react e ls g ev = (Some (BroadcastVote v), g')" "en_our_nullifier g = Some k"
  shows "vt_nullifier v = k \<and> vt_height v = en_height g \<and> vt_power v = 1 \<and> same_height ev"
  using assms
  by (cases ev)
    (auto simp: same_height_def start_height_def engine_defs Let_def make_vote_def split: sum.splits option.splits
      prod.splits vote_type.splits consensus_step.splits if_splits)

lemma react_precommits:
  assumes "engine_react e ls g ev = (out, g')" "same_height ev"
  shows "en_precommit_sets g' = en_precommit_sets g \<or>
    (\<exists>now v. ev = EvVote now v \<and> vt_type v = Precommit \<and> vt_height v = en_height g \<and>
      en_precommit_sets g' = (en_precommit_sets g)(vt_round v \<mapsto>
        snd (vote_set_add (set_for_round (en_precommit_sets g) (en_total_validators g) (vt_round v)) v)))"
  using assms
  by (cases ev)
    (auto simp: same_height_def engine_defs Let_def split: sum.splits option.splits
      prod.splits vote_type.splits consensus_step.splits if_splits)

lemma add_reports: "vote_set_add s v = (Some bh, s') \<Longrightarrow> has_quorum s' bh"
  by (auto simp: vote_set_add_def has_quorum_def Let_def split: if_splits)

lemma react_final:
  assumes "engine_react e ls g ev = (Some (FinalizedBlock b vs), g')"
  shows "\<exists>r t. en_precommit_sets g' r = Some t \<and> has_quorum t (Some (block_hash_of e b)) \<and> same_height ev"
proof (cases ev)
  case (EvVote now v)
  let ?s = "set_for_round (en_precommit_sets g) (en_total_validators g) (vt_round v)"
  obtain q t where a: "vote_set_add ?s v = (q, t)" by fastforce
  have "q = Some (Some (block_hash_of e b)) \<and> en_precommit_sets g' (vt_round v) = Some t"
    using assms EvVote a
    by (auto simp: engine_defs Let_def split: sum.splits option.splits prod.splits vote_type.splits if_splits)
  with add_reports [of ?s v "Some (block_hash_of e b)" t] a show ?thesis by (auto simp: EvVote same_height_def)
qed (use assms in \<open>auto simp: start_height_def engine_defs Let_def split: sum.splits option.splits
      prod.splits consensus_step.splits if_splits\<close>)

section \<open>The invariant\<close>

definition voted :: "net \<Rightarrow> u64 \<Rightarrow> bytes \<Rightarrow> block_hash \<Rightarrow> bool" where
  "voted s h k x \<longleftrightarrow> (\<exists>v\<in>set (nt_sent s).
     vt_nullifier v = k \<and> vt_height v = h \<and> vt_type v = Precommit \<and> vt_block_hash v = Some x)"

text \<open>A set of precommits of a height, with votes that come from where they say.\<close>

definition sourced :: "bytes list \<Rightarrow> bytes list \<Rightarrow> net \<Rightarrow> u64 \<Rightarrow> vote_set \<Rightarrow> bool" where
  "sourced ns F s h t \<longleftrightarrow> counted t \<and> vs_quorum t = of_nat (length ns) * 2 div 3 + 1 \<and>
     (\<forall>k v. vs_votes t k = Some v \<longrightarrow> vt_nullifier v = k \<and> k \<in> set ns \<and> vt_type v = Precommit \<and> vt_height v = h \<and>
        (k \<in> set F \<or> v \<in> set (nt_sent s)))"

definition engine_ok :: "bytes list \<Rightarrow> bytes list \<Rightarrow> net \<Rightarrow> bytes \<Rightarrow> engine \<Rightarrow> bool" where
  "engine_ok ns F s k g \<longleftrightarrow> en_our_nullifier g = Some k \<and> en_total_validators g = of_nat (length ns) \<and>
     (\<forall>r t. en_precommit_sets g r = Some t \<longrightarrow> sourced ns F s (en_height g) t)"

text \<open>A precommit of the height at which its sender still is names the block that the sender is locked on.\<close>

definition sent_ok :: "bytes list \<Rightarrow> bytes list \<Rightarrow> net \<Rightarrow> vote \<Rightarrow> bool" where
  "sent_ok ns F s v \<longleftrightarrow>
     (let g = nt_engines s (vt_nullifier v) in
      vt_nullifier v \<in> set ns \<and> vt_nullifier v \<notin> set F \<and> vt_power v = 1 \<and> vt_height v \<le> en_height g \<and>
      (\<forall>x. vt_height v = en_height g \<and> vt_type v = Precommit \<and> vt_block_hash v = Some x \<longrightarrow> locked_on x g))"

definition net_ok :: "('p, 's) crates \<Rightarrow> bytes list \<Rightarrow> bytes list \<Rightarrow> net \<Rightarrow> bool" where
  "net_ok e ns F s \<longleftrightarrow>
     (\<forall>k\<in>set ns - set F. engine_ok ns F s k (nt_engines s k)) \<and>
     (\<forall>v\<in>set (nt_sent s). sent_ok ns F s v) \<and>
     (\<forall>h k x y. voted s h k x \<longrightarrow> voted s h k y \<longrightarrow> x = y) \<and>
     (\<forall>(k, h, b)\<in>set (nt_final s). bft.certified ns F (voted s h) (block_hash_of e b))"

definition few_faulty :: "bytes list \<Rightarrow> bytes list \<Rightarrow> bool" where
  "few_faulty ns F \<longleftrightarrow> distinct ns \<and> length ns < 2 ^ 63 \<and> set F \<subseteq> set ns \<and> 3 * card (set F) < length ns"

lemma sourced_mono: "sourced ns F s h t \<Longrightarrow> set (nt_sent s) \<subseteq> set (nt_sent s') \<Longrightarrow> sourced ns F s' h t"
  by (auto simp: sourced_def)

lemma sourced_new: "sourced ns F s h (vote_set_new (of_nat (length ns)))"
  by (simp add: sourced_def counted_def vote_set_new_def voters_def)

lemma sourced_add:
  assumes "sourced ns F s h t" "vt_power v = 1" "vt_nullifier v \<in> set ns" "vt_type v = Precommit" "vt_height v = h"
    and "vt_nullifier v \<in> set F \<or> v \<in> set (nt_sent s)"
  shows "sourced ns F s h (snd (vote_set_add t v))"
proof -
  have "counted (snd (vote_set_add t v))" using assms(1,2) by (intro counted_add) (simp_all add: sourced_def)
  with assms show ?thesis by (auto simp: sourced_def vote_set_add_def Let_def)
qed

text \<open>A quorum in such a set certifies the block.\<close>

lemma sourced_certified:
  assumes "few_faulty ns F" "sourced ns F s h t" "has_quorum t (Some x)"
  shows "bft.certified ns F (voted s h) x"
  unfolding bft.certified_def
proof (intro exI [of _ "voters t (Some x)"] conjI ballI impI)
  have len: "length ns < 2 ^ 63" "card (set ns) = length ns"
    using assms(1) by (auto simp: few_faulty_def distinct_card)
  have sub: "voters t (Some x) \<subseteq> set ns" using assms(2) by (auto simp: sourced_def voters_def)
  then have le: "card (voters t (Some x)) \<le> length ns" using card_mono [OF _ sub] len(2) by simp
  obtain a where a: "vs_power t (Some x) = Some a" "of_nat (length ns) * 2 div 3 + 1 \<le> a"
    using assms(2,3) by (auto simp: has_quorum_def sourced_def)
  have "a = of_nat (card (voters t (Some x)))"
    using assms(2) a(1) by (metis sourced_def counted_def option.simps(5))
  then have "unat a = card (voters t (Some x))" using le len(1) by (simp add: unat_of_nat_exact)
  then show "super_majority ns F (voters t (Some x))"
    using a(2) sub assms(1) quorum_value [OF len(1)] by (simp add: super_majority_def few_faulty_def word_le_nat_alt)
  fix k
  assume "k \<in> voters t (Some x)" "k \<notin> set F"
  then show "voted s h k x" using assms(2) by (auto simp: voters_def sourced_def voted_def)
qed

section \<open>Every step keeps it\<close>

lemma deliverable_vote:
  assumes "deliverable F s g (EvVote now v)" "\<forall>v\<in>set (nt_sent s). sent_ok ns F s v" "set F \<subseteq> set ns"
  shows "vt_power v = 1 \<and> vt_nullifier v \<in> set ns \<and> (vt_nullifier v \<in> set F \<or> v \<in> set (nt_sent s))"
  using assms by (auto simp: sent_ok_def Let_def)

lemma engine_ok_react:
  assumes "net_ok e ns F s" "set F \<subseteq> set ns" "k \<in> set ns - set F" "deliverable F s (nt_engines s k) ev"
    and "engine_react e ls (nt_engines s k) ev = (out, g)"
  shows "engine_ok ns F s k g"
proof -
  let ?g = "nt_engines s k"
  have ok: "engine_ok ns F s k ?g" and sent: "\<forall>v\<in>set (nt_sent s). sent_ok ns F s v"
    using assms(1,3) by (auto simp: net_ok_def)
  note frame = react_frame [OF assms(5)]
  have "sourced ns F s (en_height g) t" if t: "en_precommit_sets g r = Some t" for r t
  proof (cases "same_height ev")
    case True
    with frame have h: "en_height g = en_height ?g" by blast
    from react_precommits [OF assms(5) True] show ?thesis
    proof
      assume "en_precommit_sets g = en_precommit_sets ?g"
      with ok t h show ?thesis by (auto simp: engine_ok_def)
    next
      assume "\<exists>now v. ev = EvVote now v \<and> vt_type v = Precommit \<and> vt_height v = en_height ?g \<and>
        en_precommit_sets g = (en_precommit_sets ?g)(vt_round v \<mapsto>
          snd (vote_set_add (set_for_round (en_precommit_sets ?g) (en_total_validators ?g) (vt_round v)) v))"
      then obtain now v where v: "ev = EvVote now v" "vt_type v = Precommit" "vt_height v = en_height ?g"
        and sets: "en_precommit_sets g = (en_precommit_sets ?g)(vt_round v \<mapsto>
          snd (vote_set_add (set_for_round (en_precommit_sets ?g) (en_total_validators ?g) (vt_round v)) v))"
        by blast
      have "sourced ns F s (en_height ?g) (set_for_round (en_precommit_sets ?g) (en_total_validators ?g) (vt_round v))"
        using ok sourced_new by (auto simp: set_for_round_def engine_ok_def split: option.split)
      then have "sourced ns F s (en_height ?g)
          (snd (vote_set_add (set_for_round (en_precommit_sets ?g) (en_total_validators ?g) (vt_round v)) v))"
        using deliverable_vote [of F s ?g now v ns] assms(2,4) sent v by (intro sourced_add) simp_all
      then show ?thesis using ok t h sets by (auto simp: engine_ok_def split: if_splits)
    qed
  next
    case False
    then obtain now h where "ev = EvHeight now h" by (auto simp: same_height_def)
    then have "en_precommit_sets g = Map.empty"
      using assms(5) by (auto simp: start_height_def enter_propose_def)
    with t show ?thesis by simp
  qed
  with ok frame show ?thesis by (simp add: engine_ok_def)
qed

lemma engine_ok_mono: "engine_ok ns F s k g \<Longrightarrow> set (nt_sent s) \<subseteq> set (nt_sent s') \<Longrightarrow> engine_ok ns F s' k g"
  by (auto simp: engine_ok_def intro: sourced_mono)

text \<open>An engine that stays at its height stays locked.\<close>

lemma locked_react:
  assumes "engine_react e ls g ev = (out, g')" "same_height ev" "locked_on x g"
  shows "locked_on x g'"
proof -
  obtain r where "en_locked_block g = Some (x, r)" using assms(3) by (auto simp: locked_on_def)
  from lock_step [OF this, of ev e ls] assms(1,2) show ?thesis
    by (auto simp: locked_on_def engine_step_def same_height_def)
qed

lemma precommit_react:
  assumes "engine_react e ls g ev = (Some (BroadcastVote v), g')" "same_height ev" "vt_type v = Precommit"
    "vt_block_hash v = Some x"
  shows "locked_on x g'"
  using precommit_is_locked [of e ls g ev v x] assms by (auto simp: locked_on_def engine_step_def same_height_def)

lemma sent_ok_react:
  assumes "sent_ok ns F s v" "deliverable F s (nt_engines s k) ev" "engine_react e ls (nt_engines s k) ev = (out, g)"
    and "nt_engines s' = (nt_engines s)(k := g)"
  shows "sent_ok ns F s' v"
proof (cases "vt_nullifier v = k")
  case True
  show ?thesis
  proof (cases "same_height ev")
    case same: True
    with react_frame [OF assms(3)] have "en_height g = en_height (nt_engines s k)" by blast
    with True assms(1,4) locked_react [OF assms(3) same] show ?thesis by (auto simp: sent_ok_def Let_def)
  next
    case False
    then obtain now h where ev: "ev = EvHeight now h" by (auto simp: same_height_def)
    then have "en_height g = h" using assms(3) by (auto simp: start_height_def enter_propose_def)
    with ev True assms(1,2,4) show ?thesis by (auto simp: sent_ok_def Let_def)
  qed
qed (use assms(1,4) in \<open>auto simp: sent_ok_def Let_def\<close>)

lemma net_step_ok:
  assumes "net_step e ls ns F s s'" "few_faulty ns F" "net_ok e ns F s"
  shows "net_ok e ns F s'"
proof -
  obtain k ev where step: "s' = net_after e ls k ev s" "k \<in> set ns" "k \<notin> set F" "deliverable F s (nt_engines s k) ev"
    using assms(1) by (rule net_stepE)
  obtain out g where r: "engine_react e ls (nt_engines s k) ev = (out, g)" by fastforce
  note s' = step(1) [unfolded net_after_def r prod.case]
  let ?g = "nt_engines s k"
  have eng: "nt_engines s' = (nt_engines s)(k := g)" by (simp add: s')
  have sent: "set (nt_sent s') = set (nt_sent s) \<union> (case out of Some (BroadcastVote v) \<Rightarrow> {v} | _ \<Rightarrow> {})"
    by (simp add: s' record_output_sent)
  have final: "set (nt_final s') = set (nt_final s) \<union>
      (case out of Some (FinalizedBlock b vs) \<Rightarrow> {(k, en_height g, b)} | _ \<Rightarrow> {})"
    by (simp add: s' record_output_final)
  have grow: "set (nt_sent s) \<subseteq> set (nt_sent s')" using sent by blast
  have mono: "voted s h j x \<Longrightarrow> voted s' h j x" for h j x using grow by (auto simp: voted_def)
  have k: "k \<in> set ns - set F" and F: "set F \<subseteq> set ns"
    using step(2,3) assms(2) by (auto simp: few_faulty_def)
  have me: "engine_ok ns F s' k g"
    using engine_ok_react [OF assms(3) F k step(4) r] grow by (rule engine_ok_mono)
  have null: "en_our_nullifier ?g = Some k" using assms(3) k by (auto simp: net_ok_def engine_ok_def)
  have old: "sent_ok ns F s' v" if "v \<in> set (nt_sent s)" for v
    using that assms(3) sent_ok_react [OF _ step(4) r eng] by (auto simp: net_ok_def)
  have new: "sent_ok ns F s' v \<and> vt_nullifier v = k \<and> vt_height v = en_height g \<and> same_height ev"
    if v: "out = Some (BroadcastVote v)" for v
  proof -
    have v': "vt_nullifier v = k" "vt_height v = en_height g" "vt_power v = 1" "same_height ev"
      using react_vote [OF r [unfolded v] null] react_frame [OF r] by auto
    then show ?thesis
      using k eng precommit_react [OF r [unfolded v] v'(4)] by (auto simp: sent_ok_def Let_def)
  qed
  have all: "sent_ok ns F s' v" if "v \<in> set (nt_sent s')" for v
    using that old new by (auto simp: sent split: option.splits consensus_output.splits)
  have single: "x = y" if xy: "voted s' h j x" "voted s' h j y" for h j x y
  proof (cases "voted s h j x \<and> voted s h j y")
    case True
    with assms(3) show ?thesis by (auto simp: net_ok_def)
  next
    case False
    obtain v w where v: "v \<in> set (nt_sent s')" "vt_nullifier v = j" "vt_height v = h" "vt_type v = Precommit" "vt_block_hash v = Some x"
      and w: "w \<in> set (nt_sent s')" "vt_nullifier w = j" "vt_height w = h" "vt_type w = Precommit" "vt_block_hash w = Some y"
      using xy by (auto simp: voted_def)
    have "v \<notin> set (nt_sent s) \<or> w \<notin> set (nt_sent s)"
      using False v(2-5) w(2-5) unfolding voted_def by blast
    then obtain u where "u = v \<or> u = w" "u \<in> set (nt_sent s')" "u \<notin> set (nt_sent s)" using v(1) w(1) by blast
    then have u: "out = Some (BroadcastVote u)" "u = v \<or> u = w"
      by (auto simp: sent split: option.splits consensus_output.splits)
    from new [OF u(1)] u(2) v(2,3) w(2,3) have j: "j = k" "h = en_height g" by auto
    have "locked_on z g" if "sent_ok ns F s' t" "vt_nullifier t = j" "vt_height t = h" "vt_type t = Precommit"
      "vt_block_hash t = Some z" for t z
      using that by (simp add: sent_ok_def Let_def eng j)
    from this [OF all [OF v(1)] v(2-5)] this [OF all [OF w(1)] w(2-5)] have "locked_on x g" "locked_on y g" .
    then show ?thesis by (auto simp: locked_on_def)
  qed
  have fin: "bft.certified ns F (voted s' h) (block_hash_of e b)" if b: "(j, h, b) \<in> set (nt_final s')" for j h b
  proof (cases "(j, h, b) \<in> set (nt_final s)")
    case True
    then have "bft.certified ns F (voted s h) (block_hash_of e b)" using assms(3) by (auto simp: net_ok_def)
    from this mono show ?thesis by (rule bft.certified_mono)
  next
    case False
    then obtain vs where out: "out = Some (FinalizedBlock b vs)" and h: "h = en_height g"
      using b by (auto simp: final split: option.splits consensus_output.splits)
    obtain i t where t: "en_precommit_sets g i = Some t" "has_quorum t (Some (block_hash_of e b))"
      using react_final [OF r [unfolded out]] by blast
    have "sourced ns F s' (en_height g) t" using me t(1) by (simp add: engine_ok_def)
    from sourced_certified [OF assms(2) this t(2)] show ?thesis unfolding h .
  qed
  have engines: "engine_ok ns F s' j (nt_engines s' j)" if "j \<in> set ns - set F" for j
    using that me assms(3) engine_ok_mono [OF _ grow] by (auto simp: eng net_ok_def)
  show ?thesis
    unfolding net_ok_def
  proof (intro conjI ballI allI impI)
    show "engine_ok ns F s' j (nt_engines s' j)" if "j \<in> set ns - set F" for j using that by (rule engines)
    show "sent_ok ns F s' v" if "v \<in> set (nt_sent s')" for v using that by (rule all)
    show "x = y" if "voted s' h j x" "voted s' h j y" for h j x y using that by (rule single)
    show "case f of (j, h, b) \<Rightarrow> bft.certified ns F (voted s' h) (block_hash_of e b)" if "f \<in> set (nt_final s')" for f
      using that fin [of "fst f" "fst (snd f)" "snd (snd f)"] by (simp add: split_beta)
  qed
qed

lemma net_init_ok: "net_ok e ns F (net_init now h ns comm sk)"
  by (auto simp: net_ok_def net_init_def engine_ok_def start_height_def enter_propose_def engine_new_def
      with_signing_key_def voted_def Let_def split: option.split)

text \<open>
  C5. Consensus over authenticated channels: take a network of fewer than \<open>2^63\<close> validators with distinct
  nullifiers, of whom fewer than a third are Byzantine, that starts afresh, whose engines only move to
  greater heights, and in which every vote that reaches an engine has a voting power of one and
  either was broadcast by an honest validator or is in a Byzantine validator's own name. The engine
  checks neither the power nor the origin of a vote, so this is what its environment must ensure:
  without it one forged vote finalizes a block, as another property shows. Then, in whatever order
  such votes and arbitrary proposals are delivered, repeated, delayed or lost, and however the clocks
  run, any two blocks that engines of honest validators finalize at the same height have the same
  hash, and more than two thirds of the validators stand behind it: the honest ones among them have
  broadcast a precommit for it.
\<close>

theorem network_agreement:
  assumes "distinct ns" "length ns < 2 ^ 63" "set F \<subseteq> set ns" "3 * card (set F) < length ns"
    and "rtranclp (net_step e ls ns F) (net_init now h0 ns comm sk) s"
    and "(k, h, b) \<in> set (nt_final s)" "(k', h, b') \<in> set (nt_final s)"
  shows "block_hash_of e b = block_hash_of e b' \<and>
    (\<exists>A. A \<subseteq> set ns \<and> length ns * 2 div 3 < card A \<and>
      (\<forall>j\<in>A - set F. \<exists>v\<in>set (nt_sent s). vt_nullifier v = j \<and> vt_height v = h \<and> vt_type v = Precommit \<and>
        vt_block_hash v = Some (block_hash_of e b)))"
proof -
  have few: "few_faulty ns F" using assms(1-4) by (simp add: few_faulty_def)
  from assms(5) have ok: "net_ok e ns F s"
    by (induction rule: rtranclp_induct) (auto intro: net_init_ok net_step_ok [OF _ few])
  then have c: "bft.certified ns F (voted s h) (block_hash_of e b)" "bft.certified ns F (voted s h) (block_hash_of e b')"
    and single: "voted s h j x \<Longrightarrow> voted s h j y \<Longrightarrow> x = y" for j x y
    using assms(6,7) by (auto simp: net_ok_def)
  have "block_hash_of e b = block_hash_of e b'"
    using single c by (rule bft.certified_unique)
  with c(1) show ?thesis by (auto simp: bft.certified_def super_majority_def voted_def)
qed

text \<open>One validator without a key: a proposal, its own prevote and its own precommit.\<close>

definition demo_net :: net where
  "demo_net = net_init 0 1 [[1]] (\<lambda>_. None) (\<lambda>_. None)"

definition demo_own :: "vote_type \<Rightarrow> vote" where
  "demo_own ty = demo_vote ty 0 (Some (block_hash_of demo (genesis 3)))"

definition demo_deliveries :: "engine_event list" where
  "demo_deliveries = [EvProposal 1 demo_proposal, EvVote 2 (demo_own Prevote), EvVote 3 (demo_own Precommit)]"

definition demo_net_run :: "nat \<Rightarrow> net" where
  "demo_net_run n = fold (net_after demo (\<lambda>_. []) [1]) (take n demo_deliveries) demo_net"

lemmas demo_net_defs =
  demo_net_run_def demo_deliveries_def demo_net_def net_init_def net_after_def demo_own_def demo_proposal_def
  start_height_def proposer_for_round_def proposal_verify_def vc_verify_def decide_prevote_def demo_engine_defs

lemma demo_net_sent:
  "nt_sent (demo_net_run 1) = [demo_own Prevote]"
  "nt_sent (demo_net_run 2) = [demo_own Precommit, demo_own Prevote]"
  "nt_final (demo_net_run 3) = [([1], 1, genesis 3)]"
  by (simp_all add: demo_net_defs)

lemma demo_net_reach:
  "rtranclp (net_step demo (\<lambda>_. []) [[1]] []) demo_net (demo_net_run 2)"
  "net_step demo (\<lambda>_. []) [[1]] [] (demo_net_run 2) (demo_net_run 3)"
proof -
  have step: "net_step demo (\<lambda>_. []) [[1]] [] (demo_net_run n) (demo_net_run (Suc n))"
    if "n < length demo_deliveries" "deliverable [] (demo_net_run n) g (demo_deliveries ! n)" for n g
  proof -
    have "demo_net_run (Suc n) = net_after demo (\<lambda>_. []) [1] (demo_deliveries ! n) (demo_net_run n)"
      using that(1) by (simp add: demo_net_run_def take_Suc_conv_app_nth)
    moreover have "deliverable [] (demo_net_run n) (nt_engines (demo_net_run n) [1]) (demo_deliveries ! n)"
      using that by (cases "demo_deliveries ! n") (auto simp: demo_deliveries_def less_Suc_eq)
    ultimately show ?thesis by (simp add: net_step.react)
  qed
  have "net_step demo (\<lambda>_. []) [[1]] [] demo_net (demo_net_run 1)"
    using step [of 0] by (simp add: demo_deliveries_def) (simp add: demo_net_run_def)
  moreover have "net_step demo (\<lambda>_. []) [[1]] [] (demo_net_run 1) (demo_net_run 2)"
    using step [of 1] demo_net_sent(1) by (simp add: demo_deliveries_def numeral_2_eq_2)
  ultimately show "rtranclp (net_step demo (\<lambda>_. []) [[1]] []) demo_net (demo_net_run 2)"
    by (meson rtranclp.rtrancl_refl rtranclp.rtrancl_into_rtrancl)
  show "net_step demo (\<lambda>_. []) [[1]] [] (demo_net_run 2) (demo_net_run 3)"
    using step [of 2] demo_net_sent(2) by (simp add: demo_deliveries_def numeral_3_eq_3 numeral_2_eq_2)
qed

theorem network_agreement_witness:
  "nt_final (demo_net_run 3) = [([1], 1, genesis 3)] \<and>
   (\<exists>A. A \<subseteq> {[1]} \<and> 0 < card A \<and>
      (\<forall>j\<in>A. \<exists>v\<in>set (nt_sent (demo_net_run 3)). vt_nullifier v = j \<and> vt_height v = 1 \<and> vt_type v = Precommit \<and>
        vt_block_hash v = Some (block_hash_of demo (genesis 3))))"
proof -
  have "rtranclp (net_step demo (\<lambda>_. []) [[1]] []) (net_init 0 1 [[1]] (\<lambda>_. None) (\<lambda>_. None)) (demo_net_run 3)"
    using demo_net_reach unfolding demo_net_def by (rule rtranclp.rtrancl_into_rtrancl)
  from network_agreement [OF _ _ _ _ this, of "[1]" 1 "genesis 3" "[1]" "genesis 3"] demo_net_sent(3)
  show ?thesis by simp
qed

end
