(* ===== verification/TendermintLocks.thy ===== *)
theory TendermintLocks
  imports TendermintNet
begin

text \<open>
  The price of the lock: the engine never releases it within a height, and the block that would have
  to be proposed again is recorded but never read. Once a third of the validators are locked, the
  height ends with their block or not at all.
\<close>

section \<open>The valid block is never read\<close>



lemma valid_block_readers [simp]:
  "make_vote e (g\<lparr>en_valid_block := y\<rparr>) ty bh = make_vote e g ty bh"
  "proposer_for_round (g\<lparr>en_valid_block := y\<rparr>) r = proposer_for_round g r"
  "is_proposer (g\<lparr>en_valid_block := y\<rparr>) = is_proposer g"
  "detect_equivocation (g\<lparr>en_valid_block := y\<rparr>) v = detect_equivocation g v"
  by (simp_all add: make_vote_def proposer_for_round_def is_proposer_def detect_equivocation_def Let_def
      cong: option.case_cong vote_type.case_cong if_cong)






section \<open>A locked third\<close>







section \<open>No block without its proposal\<close>







end
