(* ===== verification/TendermintRounds.thy ===== *)
theory TendermintRounds
  imports TendermintLive
begin

text \<open>
  Rounds that fail: what an engine does when the proposer of its round is silent and the validators
  vote nil, in any order and with repetitions, and when the height recovers in the next round.
\<close>

section \<open>A silent round\<close>

text \<open>A nil vote of a validator, in the engine's round, that verifies.\<close>

definition nil_vote :: "('p, 's) crates \<Rightarrow> bytes set \<Rightarrow> engine \<Rightarrow> vote \<Rightarrow> bool" where
  "nil_vote e V g v \<longleftrightarrow>
     vt_height v = en_height g \<and> vt_round v = en_round g \<and> vt_block_hash v = None \<and>
     vt_power v = 1 \<and> vt_nullifier v \<in> V \<and> vote_verify_signature e v"

definition voter_count :: "vote list \<Rightarrow> nat" where
  "voter_count vs = card (vt_nullifier ` set vs)"

text \<open>
  The engine \<open>g'\<close> after the nil votes \<open>evs\<close> of the round of \<open>g\<close>: each precommit past two thirds has
  moved it one round further.
\<close>

definition in_silent :: "nat \<Rightarrow> engine \<Rightarrow> (nat \<times> vote) list \<Rightarrow> engine \<Rightarrow> bool" where
  "in_silent n g evs g' \<longleftrightarrow>
     en_height g' = en_height g \<and>
     en_round g' = en_round g + of_nat (voter_count (votes_of Precommit evs) - n * 2 div 3) \<and>
     en_total_validators g' = of_nat n \<and> en_validator_nullifiers g' = en_validator_nullifiers g \<and>
     en_current_proposal g' = None \<and> en_locked_block g' = en_locked_block g \<and>
     set_for_round (en_prevote_sets g') (of_nat n) (en_round g) = collect_votes (of_nat n) (votes_of Prevote evs) \<and>
     set_for_round (en_precommit_sets g') (of_nat n) (en_round g) = collect_votes (of_nat n) (votes_of Precommit evs) \<and>
     (\<forall>r. r \<noteq> en_round g \<longrightarrow>
        en_prevote_sets g' r = en_prevote_sets g r \<and> en_precommit_sets g' r = en_precommit_sets g r)"

definition silent_start :: "nat \<Rightarrow> engine \<Rightarrow> bool" where
  "silent_start n g \<longleftrightarrow>
     en_current_proposal g = None \<and> en_total_validators g = of_nat n \<and>
     en_prevote_sets g (en_round g) = None \<and> en_precommit_sets g (en_round g) = None"

lemma silent_start_in_silent: "silent_start n g \<Longrightarrow> in_silent n g [] g"
  by (auto simp: silent_start_def in_silent_def set_for_round_def votes_of_def collect_votes_def voter_count_def)

lemma in_silent_no_evidence:
  assumes "in_silent n g evs g'" "\<forall>v\<in>set (map snd evs). vt_block_hash v = None"
    and "vt_round v = en_round g" "vt_block_hash v = None"
  shows "detect_equivocation g' v = None"
proof -
  have same: "vt_block_hash w = None" if "vs_votes (collect_votes (of_nat n) (votes_of ty evs)) k = Some w" for ty k w
    using collect_votes_from [OF that] assms(2) by (auto simp: votes_of_def)
  let ?sets = "case vt_type v of Prevote \<Rightarrow> en_prevote_sets g' | Precommit \<Rightarrow> en_precommit_sets g'"
  have "s = collect_votes (of_nat n) (votes_of (vt_type v) evs)" if "?sets (vt_round v) = Some s" for s
    using assms(1,3) that by (cases "vt_type v") (auto simp: in_silent_def set_for_round_def)
  then show ?thesis
    using same assms(4)
    by (auto simp: detect_equivocation_def vote_set_existing_def Let_def split: option.split)
qed

lemma in_silent_prevote:
  assumes "in_silent n g evs g'" "vt_type v = Prevote" "vt_round v = en_round g"
    and "vote_set_add (collect_votes (of_nat n) (votes_of Prevote evs)) v = (q, s)" "q = None \<or> q = Some None"
  shows "in_silent n g (evs @ [(t, v)]) (snd (handle_prevote e t' g' v))"
  using assms
  by (auto simp: in_silent_def handle_prevote_def Let_def enter_precommit_def votes_of_snoc
      collect_votes_snoc set_for_round_update split: option.split)

lemma in_silent_precommit:
  assumes "in_silent n g evs g'" "vt_type v = Precommit" "vt_round v = en_round g"
    and "vote_set_add (collect_votes (of_nat n) (votes_of Precommit evs)) v = (q, s)" "q = None \<or> q = Some None"
    and "voter_count (votes_of Precommit evs @ [v]) - n * 2 div 3 =
      voter_count (votes_of Precommit evs) - n * 2 div 3 + (if q = None then 0 else 1)"
  shows "in_silent n g (evs @ [(t, v)]) (snd (handle_precommit e ls t' g' v))"
  using assms
  by (auto simp: in_silent_def handle_precommit_def Let_def enter_propose_def start_new_round_def votes_of_snoc
      collect_votes_snoc set_for_round_update split: option.split)

lemma nil_precommit_counts:
  assumes "\<forall>w\<in>set (vs @ [v]). vt_block_hash w = None \<and> vt_power w = 1 \<and> vt_nullifier w \<in> V"
    and "finite V" "card V = n" "n < 2 ^ 63" "vote_set_add (collect_votes (of_nat n) vs) v = (q, s)"
  shows "q = None \<or> q = Some None"
    and "voter_count (vs @ [v]) - n * 2 div 3 = voter_count vs - n * 2 div 3 + (if q = None then 0 else 1)"
proof -
  show q: "q = None \<or> q = Some None"
    using assms(1,5) by (auto simp: vote_set_add_def Let_def split: if_splits)
  show "voter_count (vs @ [v]) - n * 2 div 3 = voter_count vs - n * 2 div 3 + (if q = None then 0 else 1)"
  proof (cases "vt_nullifier v \<in> vt_nullifier ` set vs")
    case True
    then have "q = None" using assms(5) by (simp add: vote_set_add_known collect_votes_dom)
    with True show ?thesis by (simp add: voter_count_def insert_absorb)
  next
    case False
    then have "voter_count (vs @ [v]) = Suc (voter_count vs)" by (simp add: voter_count_def)
    moreover have "q = (if n * 2 div 3 < voter_count (vs @ [v]) then Some None else None)"
      using collect_add_quorum [OF assms(1-4) False] assms(5) by (simp add: voter_count_def)
    ultimately show ?thesis by auto
  qed
qed

lemma in_silent_vote:
  assumes "in_silent n g evs g'" "\<forall>w\<in>set (map snd (evs @ [(t, v)])). nil_vote e V g w"
    and "finite V" "card V = n" "n < 2 ^ 63"
  shows "in_silent n g (evs @ [(t, v)]) (engine_step e ls g' (EvVote t v))"
proof -
  have v: "vt_height v = en_height g'" "vt_round v = en_round g" "vt_block_hash v = None" "vote_verify_signature e v"
    using assms(1,2) by (auto simp: nil_vote_def in_silent_def)
  have all: "\<forall>w\<in>set (votes_of ty evs @ [v]). vt_block_hash w = None \<and> vt_power w = 1 \<and> vt_nullifier w \<in> V" for ty
    using assms(2) by (auto simp: votes_of_def nil_vote_def)
  have none: "detect_equivocation g' v = None"
    using assms(2) v by (intro in_silent_no_evidence [OF assms(1)]) (auto simp: nil_vote_def)
  obtain q s where q: "vote_set_add (collect_votes (of_nat n) (votes_of (vt_type v) evs)) v = (q, s)" by fastforce
  note counts = nil_precommit_counts [OF all assms(3-5) q]
  show ?thesis
  proof (cases "vt_type v")
    case Prevote
    from in_silent_prevote [OF assms(1) Prevote v(2) q [unfolded Prevote] counts(1), of t e t]
    show ?thesis using v none Prevote by (simp add: engine_step_def receive_vote_def case_prod_unfold)
  next
    case Precommit
    from in_silent_precommit [OF assms(1) Precommit v(2) q [unfolded Precommit] counts(1) counts(2) [unfolded Precommit], of t e ls t]
    show ?thesis using v none Precommit by (simp add: engine_step_def receive_vote_def case_prod_unfold)
  qed
qed

lemma silent_run:
  assumes "silent_start n g" "finite V" "card V = n" "n < 2 ^ 63" "\<forall>w\<in>set (map snd evs). nil_vote e V g w"
  shows "in_silent n g evs (run (engine_step e ls) g (vote_events evs))"
  using assms(5)
proof (induction evs rule: rev_induct)
  case Nil
  then show ?case using silent_start_in_silent [OF assms(1)] by (simp add: vote_events_def)
next
  case (snoc ev evs)
  obtain t v where ev: "ev = (t, v)" by fastforce
  from snoc have "in_silent n g evs (run (engine_step e ls) g (vote_events evs))" by simp
  from in_silent_vote [OF this snoc.prems [unfolded ev] assms(2-4), of ls]
  show ?case by (simp add: ev vote_events_snoc run_append)
qed

section \<open>The next round\<close>

lemma engine_outputs_append:
  "engine_outputs e ls g (xs @ ys) = engine_outputs e ls g xs @ engine_outputs e ls (run (engine_step e ls) g xs) ys"
  by (induction xs arbitrary: g) (auto split: option.split)

lemma vote_without_proposal:
  assumes "en_current_proposal g = None"
  shows "en_current_proposal (engine_step e ls g (EvVote t v)) = None"
    and "fst (engine_react e ls g (EvVote t v)) \<noteq> Some (FinalizedBlock b vs)"
  using assms
  by (auto simp: engine_step_def engine_defs Let_def
      split: sum.splits option.splits prod.splits vote_type.splits if_splits)

lemma no_proposal_no_block:
  assumes "en_current_proposal g = None"
  shows "FinalizedBlock b vs \<notin> set (engine_outputs e ls g (vote_events evs))"
  using assms
proof (induction evs arbitrary: g)
  case (Cons ev evs)
  obtain t v where ev: "ev = (t, v)" by fastforce
  note step = vote_without_proposal [OF Cons.prems, of e ls t v]
  from Cons.IH [OF step(1)] step(2) show ?case
    by (auto simp: vote_events_def ev simp del: engine_react.simps split: option.split)
qed (simp add: vote_events_def)

lemma proposal_finalizes_nothing: "fst (engine_react e ls g (EvProposal t p)) \<noteq> Some (FinalizedBlock b vs)"
  by (auto simp: receive_proposal_def enter_prevote_def Let_def)

text \<open>A proposal for the round after the silent one, whose sets hold no vote yet.\<close>

definition next_round :: "('p, 's) crates \<Rightarrow> engine \<Rightarrow> proposal \<Rightarrow> bool" where
  "next_round e g p \<longleftrightarrow>
     pr_height p = en_height g \<and> pr_round p = en_round g + 1 \<and>
     proposer_for_round g (en_round g + 1) = Some (pr_nullifier p) \<and> proposal_verify e p \<and>
     (en_locked_block g = None \<or> (\<exists>r. en_locked_block g = Some (block_hash_of e (pr_block p), r))) \<and>
     en_prevote_sets g (en_round g + 1) = None \<and> en_precommit_sets g (en_round g + 1) = None"

lemma proposal_after_silence:
  assumes "in_silent n g evs g'" "next_round e g p" "voter_count (votes_of Precommit evs) = n * 2 div 3 + 1"
  shows "round_ready e n (engine_step e ls g' (EvProposal t p)) p"
    and "en_height (engine_step e ls g' (EvProposal t p)) = en_height g"
    and "en_round (engine_step e ls g' (EvProposal t p)) = en_round g + 1"
  using assms
  by (auto simp: engine_step_def receive_proposal_def enter_prevote_def round_ready_def next_round_def
      in_silent_def proposer_for_round_def Let_def)

lemma proposal_refused_after_silence:
  assumes "in_silent n g evs g'" "next_round e g p" "voter_count (votes_of Precommit evs) \<noteq> n * 2 div 3 + 1"
    and "voter_count (votes_of Precommit evs) \<le> n" "n < 2 ^ 31"
  shows "engine_step e ls g' (EvProposal t p) = g'" and "fst (engine_react e ls g' (EvProposal t p)) = None"
proof -
  let ?k = "voter_count (votes_of Precommit evs) - n * 2 div 3"
  have "?k < 2 ^ 32" "?k \<noteq> 1" using assms(3-5) by auto
  then have "(of_nat ?k :: u32) \<noteq> of_nat 1" by (subst word_of_nat_eq_iff) (simp add: take_bit_nat_eq_self)
  then have "en_round g' \<noteq> pr_round p" using assms(1,2) by (simp add: in_silent_def next_round_def)
  then show "engine_step e ls g' (EvProposal t p) = g'" "fst (engine_react e ls g' (EvProposal t p)) = None"
    by (simp_all add: engine_step_def receive_proposal_def)
qed

lemma voter_count_le:
  assumes "\<forall>v\<in>set (map snd evs). vt_nullifier v \<in> V" "finite V" "card V = n"
  shows "voter_count (votes_of ty evs) \<le> n"
proof -
  have "vt_nullifier ` set (votes_of ty evs) \<subseteq> V" using assms(1) by (auto simp: votes_of_def)
  then show ?thesis using assms(2,3) by (auto simp: voter_count_def dest: card_mono)
qed

text \<open>The engines \<open>G k\<close> of the validators \<open>V\<close>, all at one height and round.\<close>

definition validators_at ::
  "('p, 's) crates \<Rightarrow> bytes set \<Rightarrow> u64 \<Rightarrow> u32 \<Rightarrow> (bytes \<Rightarrow> engine) \<Rightarrow> bool" where
  "validators_at e V h r G \<longleftrightarrow>
     (\<forall>k\<in>V. en_our_nullifier (G k) = Some k \<and> keyed_engine e (G k) \<and> en_height (G k) = h \<and> en_round (G k) = r)"

definition votes_for ::
  "('p, 's) crates \<Rightarrow> bytes set \<Rightarrow> (bytes \<Rightarrow> engine) \<Rightarrow> block_hash option \<Rightarrow> (nat \<times> vote) list \<Rightarrow> bool" where
  "votes_for e V G bh evs \<longleftrightarrow> (\<forall>v\<in>set (map snd evs). \<exists>k\<in>V. \<exists>ty. v = make_vote e (G k) ty bh)"

lemma votes_for_nil:
  assumes "ed_laws e" "validators_at e V (en_height g) (en_round g) G" "votes_for e V G None evs"
  shows "\<forall>w\<in>set (map snd evs). nil_vote e V g w"
  using assms
  by (fastforce simp: validators_at_def votes_for_def nil_vote_def make_vote_fields intro: make_vote_verifies)

lemma votes_for_block:
  assumes "ed_laws e" "validators_at e V (en_height g) (en_round g) G" "votes_for e V G (Some bh) evs"
  shows "\<forall>w\<in>set (map snd evs). round_vote e V g bh w"
  using assms
  by (fastforce simp: validators_at_def votes_for_def round_vote_def make_vote_fields intro: make_vote_verifies)

text \<open>
  C8. A round whose proposer is silent ends in nil votes, and whether the height recovers is decided
  by one vote. Whatever the order, the repetitions and the instants of the validators' nil votes,
  each validator's nil precommit past two thirds moves the engine one round further, so the engine
  goes to the next round exactly when two thirds and one have been counted. It then takes the next
  proposer's proposal and finalizes its block once more than two thirds precommit it. If the nil
  precommit of one more validator arrives before that proposal, the engine has skipped the round: it
  refuses the proposal and the block is not finalized, however many precommit it.
\<close>

theorem silent_proposer_recovery:
  assumes "ed_laws e" "finite V" "card V = n" "n < 2 ^ 31" "silent_start n g" "next_round e g p"
    and "validators_at e V (en_height g) (en_round g) G" "votes_for e V G None evs"
    and "validators_at e V (en_height g) (en_round g + 1) H"
    and "votes_for e V H (Some (block_hash_of e (pr_block p))) evs'" "quorum_of n (votes_of Precommit evs')"
  shows "en_round (run (engine_step e ls) g (vote_events evs)) =
      en_round g + of_nat (voter_count (votes_of Precommit evs) - n * 2 div 3) \<and>
    ((\<exists>b vs. FinalizedBlock b vs \<in>
        set (engine_outputs e ls g (vote_events evs @ EvProposal t p # vote_events evs'))) \<longleftrightarrow>
      voter_count (votes_of Precommit evs) = n * 2 div 3 + 1) \<and>
    (\<forall>b vs. FinalizedBlock b vs \<in>
        set (engine_outputs e ls g (vote_events evs @ EvProposal t p # vote_events evs')) \<longrightarrow> b = pr_block p)"
proof -
  let ?g = "run (engine_step e ls) g (vote_events evs)" and ?k = "voter_count (votes_of Precommit evs)"
  let ?g' = "engine_step e ls ?g (EvProposal t p)"
  let ?outs = "\<lambda>xs. set (engine_outputs e ls g xs)"
  let ?all = "vote_events evs @ EvProposal t p # vote_events evs'"
  have n: "n < 2 ^ 63" using assms(4) by simp
  have nil: "\<forall>w\<in>set (map snd evs). nil_vote e V g w" by (rule votes_for_nil [OF assms(1,7,8)])
  have silent: "in_silent n g evs ?g" by (rule silent_run [OF assms(5,2,3) n nil])
  have k: "?k \<le> n" using nil by (intro voter_count_le [OF _ assms(2,3)]) (simp add: nil_vote_def)
  have none: "en_current_proposal g = None" using assms(5) by (simp add: silent_start_def)
  have outs: "FinalizedBlock b vs \<in> ?outs ?all \<longleftrightarrow>
      FinalizedBlock b vs \<in> set (engine_outputs e ls ?g' (vote_events evs'))" for b vs
    using no_proposal_no_block [OF none, of b vs e ls evs] proposal_finalizes_nothing [of e ls ?g t p b vs]
    by (auto simp: engine_outputs_append simp del: engine_react.simps split: option.split)
  have good: "(\<exists>vs. FinalizedBlock (pr_block p) vs \<in> ?outs ?all) \<and>
      (\<forall>b vs. FinalizedBlock b vs \<in> ?outs ?all \<longrightarrow> b = pr_block p)" if "?k = n * 2 div 3 + 1"
  proof -
    note after = proposal_after_silence [OF silent assms(6) that, of ls t]
    have votes: "\<forall>w\<in>set (map snd evs'). round_vote e V ?g' (block_hash_of e (pr_block p)) w"
      using assms(9,10) by (intro votes_for_block [OF assms(1)]) (simp_all add: after)
    from round_run [OF after(1) refl assms(2,3) n votes, of ls]
    have "FinalizedBlock b vs \<in> ?outs ?all \<Longrightarrow> b = pr_block p" for b vs by (fastforce simp: outs)
    with round_run_finalizes [OF after(1) assms(2,3) n votes assms(11)] show ?thesis by (auto simp: outs)
  qed
  have bad: "FinalizedBlock b vs \<notin> ?outs ?all" if "?k \<noteq> n * 2 div 3 + 1" for b vs
  proof -
    have "?g' = ?g" by (rule proposal_refused_after_silence [OF silent assms(6) that k assms(4)])
    then show ?thesis
      using silent no_proposal_no_block [of ?g b vs e ls evs'] by (simp add: outs in_silent_def)
  qed
  show ?thesis using silent good bad by (auto simp: in_silent_def)
qed

definition rounds_engine :: "u32 \<Rightarrow> bytes \<Rightarrow> engine" where
  "rounds_engine r k = (engine_new 0 5 4 [[1], [2], [3], [4]] (Some k) None)\<lparr>en_round := r\<rparr>"

definition rounds_proposal :: proposal where
  "rounds_proposal =
     \<lparr> pr_height = 5, pr_round = 1, pr_block = genesis 3, pr_nullifier = [3], pr_signature = [],
       pr_validator_proof = vc_placeholder \<rparr>"

definition rounds_votes :: "u32 \<Rightarrow> block_hash option \<Rightarrow> bytes list \<Rightarrow> (nat \<times> vote) list" where
  "rounds_votes r bh ks = map (\<lambda>k. (7, make_vote demo (rounds_engine r k) Precommit bh)) ks"

lemma rounds_votes_of: "votes_of Precommit (rounds_votes r bh ks) = map snd (rounds_votes r bh ks)"
  by (induction ks) (simp_all add: votes_of_def rounds_votes_def make_vote_fields)

lemma rounds_votes_voters: "vt_nullifier ` set (map snd (rounds_votes r bh ks)) = set ks"
  by (induction ks) (simp_all add: rounds_votes_def make_vote_fields rounds_engine_def engine_new_def)

text \<open>Four validators: three nil precommits and the block is finalized, four and it is not.\<close>

theorem silent_proposer_recovery_witness:
  "\<forall>ls. let g = rounds_engine 0 [1]; bh = Some (block_hash_of demo (pr_block rounds_proposal));
       outs = \<lambda>ks. set (engine_outputs demo ls g (vote_events (rounds_votes 0 None ks) @
          EvProposal 8 rounds_proposal # vote_events (rounds_votes 1 bh [[1], [2], [3]]))) in
     (\<exists>b vs. FinalizedBlock b vs \<in> outs [[2], [1], [3]]) \<and>
     (\<nexists>b vs. FinalizedBlock b vs \<in> outs [[2], [1], [3], [4]])"
proof
  fix ls
  let ?V = "{[1], [2], [3], [4]} :: bytes set" and ?g = "rounds_engine 0 [1]"
  let ?bh = "Some (block_hash_of demo (pr_block rounds_proposal))"
  have at: "validators_at demo ?V (en_height ?g) r (rounds_engine r)" for r
    by (simp add: validators_at_def rounds_engine_def engine_new_def keyed_engine_def)
  have by_V: "votes_for demo ?V (rounds_engine r) bh (rounds_votes r bh ks)" if "set ks \<subseteq> ?V" for r bh ks
    using that unfolding votes_for_def rounds_votes_def by auto
  have start: "silent_start 4 ?g" "next_round demo ?g rounds_proposal"
    by (simp_all add: silent_start_def next_round_def rounds_engine_def rounds_proposal_def engine_new_def
        proposer_for_round_def proposal_verify_def vc_verify_def)
  have r: "en_round ?g = 0" "en_round ?g + 1 = 1" by (simp_all add: rounds_engine_def)
  have quorum: "quorum_of 4 (votes_of Precommit (rounds_votes 1 ?bh [[1], [2], [3]]))"
    unfolding quorum_of_def rounds_votes_of rounds_votes_voters by simp
  have count: "voter_count (votes_of Precommit (rounds_votes 0 None ks)) = card (set ks)" for ks
    unfolding voter_count_def rounds_votes_of rounds_votes_voters ..
  have case_of: "(\<exists>b vs. FinalizedBlock b vs \<in> set (engine_outputs demo ls ?g (vote_events (rounds_votes 0 None ks) @
      EvProposal 8 rounds_proposal # vote_events (rounds_votes 1 ?bh [[1], [2], [3]])))) \<longleftrightarrow> card (set ks) = 3"
    if ks: "set ks \<subseteq> ?V" for ks
  proof -
    have V: "finite ?V" "card ?V = 4" "(4 :: nat) < 2 ^ 31" by simp_all
    have by_H: "votes_for demo ?V (rounds_engine 1) ?bh (rounds_votes 1 ?bh [[1], [2], [3]])"
      by (rule by_V) simp
    have at_H: "validators_at demo ?V (en_height ?g) (en_round ?g + 1) (rounds_engine 1)"
      and at_G: "validators_at demo ?V (en_height ?g) (en_round ?g) (rounds_engine 0)"
      unfolding r(2) unfolding r(1) by (rule at)+
    have four: "(4 :: nat) * 2 div 3 + 1 = 3" by simp
    show ?thesis
      using silent_proposer_recovery [OF demo_ed V start at_G by_V [OF ks] at_H by_H quorum, of ls 8]
      unfolding count four by (elim conjE)
  qed
  have three: "set [[2], [1], [3]] \<subseteq> ?V" "card (set [[2], [1], [3]] :: bytes set) = 3"
    and four: "set [[2], [1], [3], [4]] \<subseteq> ?V" "card (set [[2], [1], [3], [4]] :: bytes set) = 4"
    by simp_all
  show "let g = ?g; bh = ?bh; outs = \<lambda>ks. set (engine_outputs demo ls g (vote_events (rounds_votes 0 None ks) @
          EvProposal 8 rounds_proposal # vote_events (rounds_votes 1 bh [[1], [2], [3]]))) in
     (\<exists>b vs. FinalizedBlock b vs \<in> outs [[2], [1], [3]]) \<and>
     (\<nexists>b vs. FinalizedBlock b vs \<in> outs [[2], [1], [3], [4]])"
    unfolding Let_def using case_of [of "[[2], [1], [3]]"] case_of [of "[[2], [1], [3], [4]]"] three four
    by (simp del: engine_outputs.simps)
qed

section \<open>Precommits that come too early\<close>

text \<open>All validators of \<open>V\<close> are counted in the precommit set of the round.\<close>

definition all_precommitted :: "bytes set \<Rightarrow> u32 \<Rightarrow> engine \<Rightarrow> bool" where
  "all_precommitted V r g \<longleftrightarrow> (\<exists>s. en_precommit_sets g r = Some s \<and> V \<subseteq> dom (vs_votes s))"

text \<open>Events of the height in which only validators of \<open>V\<close> precommit, and in that round only.\<close>

definition round_event :: "bytes set \<Rightarrow> u32 \<Rightarrow> engine \<Rightarrow> engine_event \<Rightarrow> bool" where
  "round_event V r g ev \<longleftrightarrow> (\<forall>t h. ev \<noteq> EvHeight t h) \<and>
     (\<forall>t v. ev = EvVote t v \<longrightarrow> vt_type v = Precommit \<longrightarrow> vt_round v = r \<and> vt_nullifier v \<in> V)"

lemma counted_precommit:
  assumes "all_precommitted V (vt_round v) g" "vt_nullifier v \<in> V"
  shows "handle_precommit e ls t g v = (Pending, g)"
proof -
  obtain s where s: "en_precommit_sets g (vt_round v) = Some s" "vt_nullifier v \<in> dom (vs_votes s)"
    using assms unfolding all_precommitted_def by blast
  then show ?thesis
    using vote_set_add_known [OF s(2)]
    by (simp add: handle_precommit_def set_for_round_def map_upd_triv)
qed

lemma early_step:
  assumes "all_precommitted V r g" "round_event V r g ev"
  shows "en_precommit_sets (engine_step e ls g ev) = en_precommit_sets g"
    and "fst (engine_react e ls g ev) \<noteq> Some (FinalizedBlock b vs)"
proof -
  have "en_precommit_sets (engine_step e ls g ev) = en_precommit_sets g \<and>
      fst (engine_react e ls g ev) \<noteq> Some (FinalizedBlock b vs)"
  proof (cases ev)
    case (EvVote t v)
    show ?thesis
    proof (cases "vt_type v")
      case Prevote
      then show ?thesis
        by (auto simp: EvVote engine_step_def receive_vote_def handle_prevote_def enter_precommit_def Let_def
            split: option.splits prod.splits)
    next
      case Precommit
      then have "all_precommitted V (vt_round v) g" "vt_nullifier v \<in> V"
        using assms by (simp_all add: round_event_def EvVote)
      from counted_precommit [OF this, of e ls t] Precommit show ?thesis
        by (auto simp: EvVote engine_step_def receive_vote_def split: option.splits)
    qed
  qed (use assms(2) in \<open>auto simp: round_event_def engine_step_def submit_proposal_def receive_proposal_def
      enter_prevote_def check_timeout_def enter_precommit_def enter_propose_def start_new_round_def Let_def
      split: sum.splits option.splits prod.splits consensus_step.splits if_splits\<close>)
  then show "en_precommit_sets (engine_step e ls g ev) = en_precommit_sets g"
    "fst (engine_react e ls g ev) \<noteq> Some (FinalizedBlock b vs)" by blast+
qed

interpretation early: inv_machine "engine_step e ls" "round_event V r" "all_precommitted V r"
  for e :: "('p, 's) crates" and ls and V and r
  by unfold_locales (simp add: all_precommitted_def early_step(1) [unfolded all_precommitted_def])

text \<open>
  Votes are counted only as they arrive: once the precommits of all validators for a round are in, the
  proposal that comes after them is never finalized by votes of that round, whatever else happens.
\<close>

lemma early_precommits_lost:
  assumes "all_precommitted V r g" "run_ok (engine_step e ls) (round_event V r) g evs"
  shows "FinalizedBlock b vs \<notin> set (engine_outputs e ls g evs)"
  using assms
proof (induction evs arbitrary: g)
  case (Cons ev evs)
  then have ok: "round_event V r g ev" by simp
  have "all_precommitted V r (engine_step e ls g ev)" by (rule early.step_inv [OF Cons.prems(1) ok])
  with Cons early_step(2) [OF Cons.prems(1) ok, of e ls b vs] show ?case
    by (auto simp del: engine_react.simps split: option.splits)
qed simp

end
