(* ===== verification/RingSound.thy ===== *)
theory RingSound
  imports RingSig
begin

text \<open>
  What an accepted ring signature proves: the run of the verifier as a trace of challenges and points,
  and the extraction of a private key from two accepted signatures that answer different challenges
  at one member of the ring, as the random-oracle argument for such signatures uses it.
\<close>

section \<open>The run of the verifier\<close>

definition member_points ::
  "('p::ab_group_add, 's::field) crates \<Rightarrow> bytes list \<Rightarrow> 'p list \<Rightarrow> 's list \<Rightarrow> 'p \<Rightarrow> nat \<Rightarrow> 's \<Rightarrow> 'p \<times> 'p" where
  "member_points e ring pubkeys s ki i c =
     (smul e (s ! i) (basepoint e) + smul e c (pubkeys ! i),
      smul e (s ! i) (hash_to_point e (ring ! i)) + smul e c ki)"

lemma ring_step_points:
  "ring_step e m ring pubkeys s ki i c = (case member_points e ring pubkeys s ki i c of (l, r) \<Rightarrow> hash_challenge e m l r)"
  by (simp add: ring_step_def member_points_def Let_def)

text \<open>For each member its challenge and the two points that are hashed into the next one.\<close>

definition verify_trace ::
  "('p::ab_group_add, 's::field) crates \<Rightarrow> bytes \<Rightarrow> bytes list \<Rightarrow> ring_sig \<Rightarrow> ('s \<times> 'p \<times> 'p) list option" where
  "verify_trace e m ring sig =
     (case (sequence (map (decompress e) ring), decompress e (rs_key_image sig),
         sequence (map (scalar_from_bytes e) (rs_s sig)), scalar_from_bytes e (rs_c0 sig)) of
        (Some pubkeys, Some ki, Some s, Some c0) \<Rightarrow>
          Some (map (\<lambda>i. let c = fold (ring_step e m ring pubkeys s ki) [0..<i] c0 in
            (c, member_points e ring pubkeys s ki i c)) [0..<length ring])
      | _ \<Rightarrow> None)"

definition parsed ::
  "('p::ab_group_add, 's::field) crates \<Rightarrow> bytes list \<Rightarrow> ring_sig \<Rightarrow> 'p list \<Rightarrow> 'p \<Rightarrow> 's list \<Rightarrow> 's \<Rightarrow> bool" where
  "parsed e ring sig pubkeys ki s c0 \<longleftrightarrow>
     sequence (map (decompress e) ring) = Some pubkeys \<and> decompress e (rs_key_image sig) = Some ki \<and>
     sequence (map (scalar_from_bytes e) (rs_s sig)) = Some s \<and> scalar_from_bytes e (rs_c0 sig) = Some c0"

lemma verify_parsed:
  "verify e m ring sig \<longleftrightarrow> 2 \<le> length ring \<and> length (rs_s sig) = length ring \<and>
     (\<exists>pubkeys ki s c0. parsed e ring sig pubkeys ki s c0 \<and> ki \<noteq> 0 \<and>
       fold (ring_step e m ring pubkeys s ki) [0..<length ring] c0 = c0)"
  by (auto simp: verify_def parsed_def Let_def split: option.splits)

lemma trace_parsed:
  "verify_trace e m ring sig = Some t \<longleftrightarrow>
     (\<exists>pubkeys ki s c0. parsed e ring sig pubkeys ki s c0 \<and>
       t = map (\<lambda>i. let c = fold (ring_step e m ring pubkeys s ki) [0..<i] c0 in
            (c, member_points e ring pubkeys s ki i c)) [0..<length ring])"
  by (auto simp: verify_trace_def parsed_def split: option.splits prod.splits)

lemma fold_upt_Suc: "fold f [0..<Suc i] c = f i (fold f [0..<i] c)"
  by simp

text \<open>The verifier accepts exactly the traces that close: each challenge is the hash of the points before it.\<close>

lemma verify_trace_closes:
  "verify e m ring sig \<longleftrightarrow> 2 \<le> length ring \<and> length (rs_s sig) = length ring \<and>
     (\<exists>t. verify_trace e m ring sig = Some t \<and> decompress e (rs_key_image sig) \<noteq> Some 0 \<and>
       (\<forall>i<length ring. fst (t ! ((i + 1) mod length ring)) =
          hash_challenge e m (fst (snd (t ! i))) (snd (snd (t ! i)))))"
  (is "?v \<longleftrightarrow> ?n \<and> ?l \<and> ?t")
proof -
  let ?n = "length ring"
  have link: "(fold f [0..<?n] c0 = c0) \<longleftrightarrow> (\<forall>i<?n. fold f [0..<(i + 1) mod ?n] c0 = f i (fold f [0..<i] c0))"
    if n: "2 \<le> ?n" for f :: "nat \<Rightarrow> 'b \<Rightarrow> 'b" and c0
  proof
    assume closed: "fold f [0..<?n] c0 = c0"
    show "\<forall>i<?n. fold f [0..<(i + 1) mod ?n] c0 = f i (fold f [0..<i] c0)"
    proof (intro allI impI)
      fix i
      assume i: "i < ?n"
      show "fold f [0..<(i + 1) mod ?n] c0 = f i (fold f [0..<i] c0)"
      proof (cases "i + 1 = ?n")
        case True
        then have "fold f [0..<?n] c0 = f i (fold f [0..<i] c0)" using fold_upt_Suc [of f i c0] by (metis Suc_eq_plus1)
        with closed True show ?thesis by simp
      qed (use i in simp)
    qed
  next
    assume step: "\<forall>i<?n. fold f [0..<(i + 1) mod ?n] c0 = f i (fold f [0..<i] c0)"
    obtain k where k: "?n = Suc k" using n by (metis not_numeral_le_zero not0_implies_Suc)
    with step have "c0 = f k (fold f [0..<k] c0)" by (metis lessI Suc_eq_plus1 mod_self upt_0 fold_simps(1) id_apply)
    with fold_upt_Suc [of f k c0] show "fold f [0..<?n] c0 = c0" by (simp only: k)
  qed
  have mods: "(i + 1) mod ?n < ?n" if "2 \<le> ?n" for i
    using that by (intro mod_less_divisor) linarith
  define T where "T pubkeys ki s c0 = map (\<lambda>i. let c = fold (ring_step e m ring pubkeys s ki) [0..<i] c0 in
    (c, member_points e ring pubkeys s ki i c)) [0..<?n]" for pubkeys ki s c0
  have closes: "(fold (ring_step e m ring pubkeys s ki) [0..<?n] c0 = c0) \<longleftrightarrow>
      (\<forall>i<?n. fst (T pubkeys ki s c0 ! ((i + 1) mod ?n)) =
        hash_challenge e m (fst (snd (T pubkeys ki s c0 ! i))) (snd (snd (T pubkeys ki s c0 ! i))))"
    if n: "2 \<le> ?n" for pubkeys ki s c0
    unfolding link [OF n] using mods [OF n] by (simp add: T_def Let_def ring_step_points split_beta)
  note trace = trace_parsed [of e m ring sig, folded T_def]
  show ?thesis
    unfolding verify_parsed
  proof (intro conj_cong refl iffI)
    assume n: "2 \<le> ?n" and "\<exists>pubkeys ki s c0. parsed e ring sig pubkeys ki s c0 \<and> ki \<noteq> 0 \<and>
      fold (ring_step e m ring pubkeys s ki) [0..<?n] c0 = c0"
    then obtain pubkeys ki s c0 where p: "parsed e ring sig pubkeys ki s c0" "ki \<noteq> 0"
      "fold (ring_step e m ring pubkeys s ki) [0..<?n] c0 = c0" by blast
    have "decompress e (rs_key_image sig) \<noteq> Some 0" using p(1,2) by (simp add: parsed_def)
    moreover have "\<exists>pubkeys' ki' s' c0'. parsed e ring sig pubkeys' ki' s' c0' \<and> T pubkeys ki s c0 = T pubkeys' ki' s' c0'"
      using p(1) by (intro exI [of _ pubkeys] exI [of _ ki] exI [of _ s] exI [of _ c0]) simp
    ultimately show ?t
      unfolding trace using p(3) [unfolded closes [OF n]] by (intro exI [of _ "T pubkeys ki s c0"] conjI)
  next
    assume n: "2 \<le> ?n" and ?t
    then obtain pubkeys ki s c0 where p: "parsed e ring sig pubkeys ki s c0" "decompress e (rs_key_image sig) \<noteq> Some 0"
      "\<forall>i<?n. fst (T pubkeys ki s c0 ! ((i + 1) mod ?n)) =
        hash_challenge e m (fst (snd (T pubkeys ki s c0 ! i))) (snd (snd (T pubkeys ki s c0 ! i)))"
      unfolding trace by blast
    have "ki \<noteq> 0" using p(1,2) by (auto simp: parsed_def)
    with p(1) p(3) [folded closes [OF n]]
    show "\<exists>pubkeys ki s c0. parsed e ring sig pubkeys ki s c0 \<and> ki \<noteq> 0 \<and>
      fold (ring_step e m ring pubkeys s ki) [0..<?n] c0 = c0" by (intro exI conjI)
  qed
qed

section \<open>Extraction\<close>

lemma sequence_map_nth: "sequence (map f xs) = Some ys \<Longrightarrow> i < length xs \<Longrightarrow> f (xs ! i) = Some (ys ! i)"
  by (metis sequence_Some_iff length_map nth_map)

text \<open>Two answers to two challenges at the same points reveal the discrete logarithm.\<close>

lemma two_answers:
  assumes "dalek_laws e" "c \<noteq> c'" "smul e s p + smul e c q = smul e s' p + smul e c' q"
  shows "q = smul e ((s' - s) / (c - c')) p"
proof -
  have "smul e (c - c') q = smul e (s' - s) p"
    using assms(1,3) by (simp add: group_simps algebra_simps)
  then have "smul e (1 / (c - c')) (smul e (c - c') q) = smul e (1 / (c - c')) (smul e (s' - s) p)" by simp
  then have "smul e (1 / (c - c') * (c - c')) q = smul e (1 / (c - c') * (s' - s)) p"
    using assms(1) by (simp only: smul_mult)
  with assms(1,2) show ?thesis by (simp add: smul_one)
qed

lemma smul_inject: "dalek_laws e \<Longrightarrow> p \<noteq> 0 \<Longrightarrow> smul e a p = smul e b p \<longleftrightarrow> a = b"
  using smul_eq_zero_iff [of e "a - b" p] by (auto simp: group_simps)

text \<open>
  C25. Ring signatures are sound: suppose that the verifier accepts two signatures with the same key image
  for a ring, in two worlds whose hash differs only in the challenges, and that the hash of the points
  of one member differs while the points of the next member agree, which is what rewinding a forger to
  that query yields. Then the two signatures determine a private key of the next member, there
  is only one, it is not zero, and the key image is the one that \<open>sign\<close> computes from it: a signature
  for a ring without known keys cannot be made to answer twice, and an output has one key image.
\<close>

theorem ring_signature_sound:
  assumes "dalek_laws e" "basepoint e \<noteq> 0" "k < length ring" "j = (k + 1) mod length ring"
    and "\<forall>pk\<in>set ring. h (str_bytes ''CipherX_H_p'' @ pk) = sha3_512 e (str_bytes ''CipherX_H_p'' @ pk)"
    and "verify e m ring sig" "verify (e\<lparr>sha3_512 := h\<rparr>) m' ring sig'" "rs_key_image sig' = rs_key_image sig"
    and "verify_trace e m ring sig = Some t" "verify_trace (e\<lparr>sha3_512 := h\<rparr>) m' ring sig' = Some t'"
    and "hash_challenge e m (fst (snd (t ! k))) (snd (snd (t ! k))) \<noteq>
      hash_challenge (e\<lparr>sha3_512 := h\<rparr>) m' (fst (snd (t' ! k))) (snd (snd (t' ! k)))"
    and "snd (t ! j) = snd (t' ! j)"
    and "scalar_from_bytes e (rs_s sig ! j) = Some s" "scalar_from_bytes e (rs_s sig' ! j) = Some s'"
  shows "let x = (s' - s) / (fst (t ! j) - fst (t' ! j)) in
    x \<noteq> 0 \<and> (\<forall>y. decompress e (ring ! j) = Some (smul e y (basepoint e)) \<longleftrightarrow> y = x) \<and>
    decompress e (rs_key_image sig) = Some (smul e x (hash_to_point e (ring ! j)))"
proof -
  let ?e' = "e\<lparr>sha3_512 := h\<rparr>"
  have jl: "j < length ring" using assms(3,4) by (cases "ring = []") simp_all
  have diff: "fst (t ! j) \<noteq> fst (t' ! j)"
    using assms(6,7) [unfolded verify_trace_closes] assms(3,4,9,10,11) by auto
  obtain pubkeys ki ss c0 where p: "parsed e ring sig pubkeys ki ss c0" "ki \<noteq> 0" "length (rs_s sig) = length ring"
    using assms(6) by (auto simp: verify_parsed)
  obtain ss' c0' where p': "parsed ?e' ring sig' pubkeys ki ss' c0'" "length (rs_s sig') = length ring"
    using assms(7,8) p(1) by (auto simp: verify_parsed parsed_def)
  have hp: "hash_to_point ?e' (ring ! j) = hash_to_point e (ring ! j)"
    using jl assms(5) by (simp add: hash_to_point_def)
  have nth: "ss ! j = s" "ss' ! j = s'"
    using sequence_map_nth [of "scalar_from_bytes e" "rs_s sig" ss j] sequence_map_nth [of "scalar_from_bytes ?e'" "rs_s sig'" ss' j]
      p p' jl assms(13,14)
    by (auto simp: parsed_def scalar_from_bytes_def)
  have t: "snd (t ! j) = member_points e ring pubkeys ss ki j (fst (t ! j))"
    using jl assms(9) p(1) by (auto simp: trace_parsed parsed_def Let_def)
  have t': "snd (t' ! j) = member_points ?e' ring pubkeys ss' ki j (fst (t' ! j))"
    using jl assms(10) p'(1) by (auto simp: trace_parsed parsed_def Let_def)
  let ?x = "(s' - s) / (fst (t ! j) - fst (t' ! j))"
  have eqs: "smul e s (basepoint e) + smul e (fst (t ! j)) (pubkeys ! j) =
      smul e s' (basepoint e) + smul e (fst (t' ! j)) (pubkeys ! j)"
    "smul e s (hash_to_point e (ring ! j)) + smul e (fst (t ! j)) ki =
      smul e s' (hash_to_point e (ring ! j)) + smul e (fst (t' ! j)) ki"
    using assms(12) by (simp_all add: t t' member_points_def hp nth)
  have key: "pubkeys ! j = smul e ?x (basepoint e)" and image: "ki = smul e ?x (hash_to_point e (ring ! j))"
    using two_answers [OF assms(1) diff eqs(1)] two_answers [OF assms(1) diff eqs(2)] by auto
  have "decompress e (ring ! j) = Some (pubkeys ! j)"
    using sequence_map_nth [of "decompress e" ring pubkeys j] p(1) jl by (simp add: parsed_def)
  moreover have "?x \<noteq> 0" using image p(2) assms(1) by (auto simp: smul_zero_left)
  moreover have "decompress e (rs_key_image sig) = Some ki" using p(1) by (simp add: parsed_def)
  ultimately show ?thesis
    using key image smul_inject [OF assms(1,2)] by (auto simp: Let_def)
qed

text \<open>
  Two worlds with constant challenges, zero and one; the signatures answer one and zero for member 0,
  whose key is the first power of the base point.
\<close>

definition demo_challenge :: "u8 \<Rightarrow> bytes \<Rightarrow> bytes" where
  "demo_challenge c b = (if b ! 8 = of_char (CHR ''H'') then zeros 64 else c # zeros 63)"

definition demo_forged :: "gf3 \<Rightarrow> gf3 \<Rightarrow> ring_sig" where
  "demo_forged c s = \<lparr> rs_c0 = gf3_bytes c, rs_s = [gf3_bytes s, gf3_bytes Z0], rs_key_image = gf3_bytes Z1 \<rparr>"

abbreviation demo_ring :: "bytes list" where
  "demo_ring \<equiv> [gf3_bytes Z1, gf3_bytes Z2]"

lemma demo_challenge_hash:
  "hash_challenge (demo\<lparr>sha3_512 := demo_challenge c\<rparr>) m l r = gf3_of_nat (unat c)"
proof -
  have "(str_bytes ''CipherX_MLSAG'' @ m @ compress demo l @ compress demo r) ! 8 \<noteq> of_char (CHR ''H'')"
    by (simp add: str_bytes_def)
  then show ?thesis
    by (simp add: hash_challenge_def demo_challenge_def) (simp add: demo_def sum_list_replicate)
qed

lemma demo_point [simp]: "hash_to_point (demo\<lparr>sha3_512 := f\<rparr>) pk = Z1"
  by (simp add: hash_to_point_def)

lemma demo_parsed:
  "parsed (demo\<lparr>sha3_512 := demo_challenge c\<rparr>) demo_ring (demo_forged d s) [Z1, Z2] Z1 [s, Z0] d"
  by (simp add: parsed_def demo_forged_def scalar_from_bytes_def del: gf3_bytes.simps)

lemma demo_trace:
  "verify_trace (demo\<lparr>sha3_512 := demo_challenge c\<rparr>) m demo_ring (demo_forged (gf3_of_nat (unat c)) s) =
     Some [(gf3_of_nat (unat c), s + gf3_of_nat (unat c), s + gf3_of_nat (unat c)),
           (gf3_of_nat (unat c), gf3_of_nat (unat c) * Z2, gf3_of_nat (unat c))]"
  unfolding trace_parsed
  by (intro exI conjI, rule demo_parsed)
    (simp add: ring_step_points split_beta demo_challenge_hash member_points_def upt_rec Let_def del: gf3_of_nat.simps,
     simp add: one_gf3_def)

lemma demo_accepts: "verify (demo\<lparr>sha3_512 := demo_challenge c\<rparr>) m demo_ring (demo_forged (gf3_of_nat (unat c)) s)"
  unfolding verify_parsed
  by (intro conjI exI, simp, simp add: demo_forged_def, rule demo_parsed)
    (simp_all add: zero_gf3_def ring_step_points split_beta demo_challenge_hash upt_rec del: gf3_of_nat.simps)

theorem ring_signature_sound_witness:
  "let e = demo\<lparr>sha3_512 := demo_challenge 0\<rparr>; e' = demo\<lparr>sha3_512 := demo_challenge 1\<rparr> in
    verify e [7] demo_ring (demo_forged Z0 Z1) \<and> verify e' [7] demo_ring (demo_forged Z1 Z0) \<and>
    (\<forall>y. decompress e (demo_ring ! 0) = Some (smul e y (basepoint e)) \<longleftrightarrow> y = Z1) \<and>
    decompress e (gf3_bytes Z1) = Some (smul e Z1 (hash_to_point e (demo_ring ! 0)))"
proof -
  let ?e = "demo\<lparr>sha3_512 := demo_challenge 0\<rparr>" and ?e' = "demo\<lparr>sha3_512 := demo_challenge 1\<rparr>"
  have laws: "dalek_laws ?e" using demo_dalek by (simp add: dalek_laws_def)
  have over: "?e\<lparr>sha3_512 := demo_challenge 1\<rparr> = ?e'" by simp
  have v: "verify ?e [7] demo_ring (demo_forged Z0 Z1)" "verify ?e' [7] demo_ring (demo_forged Z1 Z0)"
    using demo_accepts [of 0 "[7]" Z1] demo_accepts [of 1 "[7]" Z0] by (simp_all del: gf3_bytes.simps)
  obtain t t' where t: "verify_trace ?e [7] demo_ring (demo_forged Z0 Z1) = Some t"
      "verify_trace ?e' [7] demo_ring (demo_forged Z1 Z0) = Some t'"
    and vals: "fst (t ! 0) = Z0" "fst (t' ! 0) = Z1" "snd (t ! 0) = (Z1, Z1)" "snd (t' ! 0) = (Z1, Z1)"
    using demo_trace [of 0 "[7]" Z1] demo_trace [of 1 "[7]" Z0] by (simp del: gf3_bytes.simps)
  have same: "\<forall>pk\<in>set demo_ring. demo_challenge 1 (str_bytes ''CipherX_H_p'' @ pk) = sha3_512 ?e (str_bytes ''CipherX_H_p'' @ pk)"
    by (simp add: demo_challenge_def str_bytes_def del: gf3_bytes.simps)
  have s: "scalar_from_bytes ?e (rs_s (demo_forged Z0 Z1) ! 0) = Some Z1" "scalar_from_bytes ?e (rs_s (demo_forged Z1 Z0) ! 0) = Some Z0"
    by (simp_all add: demo_forged_def scalar_from_bytes_def del: gf3_bytes.simps)
  have x: "(Z0 - Z1) / (Z0 - Z1) = Z1" by (simp add: minus_gf3_def divide_gf3_def inverse_gf3_def zero_gf3_def one_gf3_def)
  have "basepoint ?e \<noteq> 0" "1 < length demo_ring" "0 = (1 + 1) mod length demo_ring"
    "rs_key_image (demo_forged Z1 Z0) = rs_key_image (demo_forged Z0 Z1)"
    by (simp_all add: zero_gf3_def demo_forged_def)
  moreover have "hash_challenge ?e [7] p r \<noteq> hash_challenge ?e' [7] q u" for p r q u
    by (simp add: demo_challenge_hash)
  ultimately show ?thesis
    using ring_signature_sound [OF laws _ _ _ same v(1) _ _ t(1), unfolded over, OF _ _ _ v(2) _ t(2) _ _ s] vals x v
    by (simp add: Let_def demo_forged_def del: gf3_bytes.simps)
qed

end
