(* ===== verification/RangeSound.thy ===== *)
theory RangeSound
  imports RangeProof RingSound
begin

text \<open>
  What an accepted range proof proves: from two answers for every bit, as rewinding the prover yields
  them in the random-oracle model, the committed amount can be extracted, and it has 64 bits.
\<close>

section \<open>One bit\<close>

text \<open>The two points that the verifier hashes for a bit.\<close>

definition or_points ::
  "('p::ab_group_add, 's::field) crates \<Rightarrow> 'p \<Rightarrow> 's \<times> 's \<times> 's \<times> 's \<Rightarrow> 'p \<times> 'p" where
  "or_points e c q =
     (case q of (e0, e1, s0, s1) \<Rightarrow>
        (smul e s0 (basepoint e) - smul e e0 c, smul e s1 (basepoint e) - smul e e1 (c - h_generator e)))"

definition or_total :: "'s \<times> 's::field \<times> 's \<times> 's \<Rightarrow> 's" where
  "or_total q = (case q of (e0, e1, s0, s1) \<Rightarrow> e0 + e1)"

lemma or_check_points: "or_check e c q \<longleftrightarrow> (case or_points e c q of (a0, a1) \<Rightarrow> or_challenge e c a0 a1 = or_total q)"
  by (cases q) (simp add: or_check_def or_points_def or_total_def Let_def)

text \<open>
  The bit and the blinding that two answers determine: the branch whose challenges differ is the one
  that the prover knew, and the quotient of the differences is its secret.
\<close>

definition bit_opening :: "'s \<times> 's::field \<times> 's \<times> 's \<Rightarrow> 's \<times> 's \<times> 's \<times> 's \<Rightarrow> nat \<times> 's" where
  "bit_opening q q' =
     (case (q, q') of ((e0, e1, s0, s1), (f0, f1, t0, t1)) \<Rightarrow>
        if e0 = f0 then (1, (s1 - t1) / (e1 - f1)) else (0, (s0 - t0) / (e0 - f0)))"

lemma bit_opening_bit: "fst (bit_opening q q') \<in> {0, 1}"
  by (simp add: bit_opening_def split: prod.split)

text \<open>Two answers with the same points and different totals open the commitment as that bit.\<close>

lemma or_extract:
  assumes "dalek_laws e" "or_points e c q = or_points e c q'" "or_total q \<noteq> or_total q'"
  shows "c = pedersen e (of_nat (fst (bit_opening q q'))) (snd (bit_opening q q'))"
proof -
  obtain e0 e1 s0 s1 where q: "q = (e0, e1, s0, s1)" by (cases q)
  obtain f0 f1 t0 t1 where q': "q' = (f0, f1, t0, t1)" by (cases q')
  let ?G = "basepoint e" and ?H = "h_generator e"
  have eqs: "smul e s0 ?G - smul e e0 c = smul e t0 ?G - smul e f0 c"
    "smul e s1 ?G - smul e e1 (c - ?H) = smul e t1 ?G - smul e f1 (c - ?H)"
    using assms(2) by (simp_all add: or_points_def q q')
  have flip: "p = smul e ((s - t) / (a - b)) ?G"
    if "smul e s ?G - smul e a p = smul e t ?G - smul e b p" "a \<noteq> b" for s t a b p
  proof -
    have "smul e s ?G + smul e (- a) p = smul e t ?G + smul e (- b) p"
      using that(1) assms(1) by (simp add: group_simps)
    moreover have "- a \<noteq> - b" using that(2) by simp
    ultimately have "p = smul e ((t - s) / (- a - - b)) ?G" using two_answers [OF assms(1)] by blast
    moreover have "(t - s) / (- a - - b) = (s - t) / (a - b)"
      using minus_divide_divide [of "s - t" "a - b"] by simp
    ultimately show ?thesis by simp
  qed
  show ?thesis
  proof (cases "e0 = f0")
    case True
    then have "e1 \<noteq> f1" using assms(3) by (auto simp: or_total_def q q')
    from flip [OF eqs(2) this] have "c - ?H = smul e ((s1 - t1) / (e1 - f1)) ?G" .
    then show ?thesis using True assms(1) by (simp add: bit_opening_def q q' pedersen_def smul_one algebra_simps)
  next
    case False
    from flip [OF eqs(1) this] False assms(1) show ?thesis
      by (simp add: bit_opening_def q q' pedersen_def smul_zero_left)
  qed
qed

section \<open>The whole proof\<close>

lemma verify_bits_nth:
  "verify_bits e pf n off = Some cs \<Longrightarrow>
   length cs = n \<and> (\<forall>i<n. \<exists>q. parse_bit e pf (off + 160 * i) = Some (cs ! i, q) \<and> or_check e (cs ! i) q)"
proof (induction n arbitrary: off cs)
  case (Suc n)
  then obtain c q cs' where p: "parse_bit e pf off = Some (c, q)" "or_check e c q"
    "verify_bits e pf n (off + 160) = Some cs'" "cs = c # cs'"
    by (auto split: option.splits if_splits)
  have "\<exists>q. parse_bit e pf (off + 160 * i) = Some (cs ! i, q) \<and> or_check e (cs ! i) q" if "i < Suc n" for i
  proof (cases i)
    case 0
    with p show ?thesis by auto
  next
    case (Suc j)
    with Suc.IH [OF p(3)] that p(4) show ?thesis by (simp add: algebra_simps)
  qed
  with Suc.IH [OF p(3)] p(4) show ?case by simp
qed simp

lemma weighted_sum_bits:
  assumes "dalek_laws (e :: ('p::ab_group_add, 's::field) crates)"
  shows "list_all2 (\<lambda>c (b, r). c = pedersen e (of_nat b) r) cs brs \<Longrightarrow>
    weighted_sum e acc pow cs = acc + pedersen e
      (pow * of_nat (\<Sum>i<length brs. 2 ^ i * fst (brs ! i))) (pow * (\<Sum>i<length brs. 2 ^ i * snd (brs ! i)))"
proof (induction cs arbitrary: acc pow brs)
  case Nil
  then show ?case by (simp add: pedersen_zero [OF assms])
next
  case (Cons c cs)
  then obtain b r brs' where br: "brs = (b, r) # brs'" "c = pedersen e (of_nat b) r"
    "list_all2 (\<lambda>c (b, r). c = pedersen e (of_nat b) r) cs brs'"
    by (cases brs) auto
  have split: "(\<Sum>i<length brs. 2 ^ i * f (brs ! i)) = f (b, r) + 2 * (\<Sum>i<length brs'. 2 ^ i * f (brs' ! i))"
    for f :: "nat \<times> 's \<Rightarrow> 'x::comm_semiring_1"
    by (simp add: br(1) sum.lessThan_Suc_shift sum_distrib_left mult.assoc del: sum.lessThan_Suc)
  have c: "smul e pow c = pedersen e (pow * of_nat b) (pow * r)"
    using assms by (simp add: br(2) pedersen_def group_simps)
  show ?case
    unfolding weighted_sum.simps Cons.IH [OF br(3)] split c
    by (simp add: add.assoc pedersen_add [OF assms] algebra_simps)
qed

lemma bits_value:
  assumes "\<forall>i<n. f i \<in> {0, 1 :: nat}"
  shows "(\<Sum>i<n. 2 ^ i * f i) < 2 ^ n"
  using assms
proof (induction n)
  case (Suc n)
  then have "(\<Sum>i<n. 2 ^ i * f i) < 2 ^ n" "f n \<in> {0, 1}" by simp_all
  then show ?case by auto
qed simp

text \<open>
  The prover answers a second challenge for bit \<open>i\<close>: its other proof is accepted in a world whose hash
  differs from the first, but not at the generator, with the same points at this bit, for which the two
  hashes give different challenges.
\<close>

definition rewound ::
  "('p::ab_group_add, 's::field) crates \<Rightarrow> bulletproof \<Rightarrow> nat \<Rightarrow> bulletproof \<Rightarrow> bool" where
  "rewound e pf i pf' \<longleftrightarrow>
     (\<exists>h com c q q'.
        h_generator (e\<lparr>sha3_512 := h\<rparr>) = h_generator e \<and> verify_range (e\<lparr>sha3_512 := h\<rparr>) com pf' \<and>
        parse_bit e pf (160 * i) = Some (c, q) \<and> parse_bit e pf' (160 * i) = Some (c, q') \<and>
        or_points e c q = or_points e c q' \<and>
        or_challenge e c (fst (or_points e c q)) (snd (or_points e c q)) \<noteq>
          or_challenge (e\<lparr>sha3_512 := h\<rparr>) c (fst (or_points e c q)) (snd (or_points e c q)))"

text \<open>The amount and the blinding, computed from the proof and the second answer to each bit.\<close>

definition opening_bit ::
  "('p::ab_group_add, 's::field) crates \<Rightarrow> bulletproof \<Rightarrow> bulletproof \<Rightarrow> nat \<Rightarrow> nat \<times> 's" where
  "opening_bit e pf pf' i =
     (case (parse_bit e pf (160 * i), parse_bit e pf' (160 * i)) of
        (Some (_, q), Some (_, q')) \<Rightarrow> bit_opening q q'
      | _ \<Rightarrow> (0, 0))"

definition range_opening ::
  "('p::ab_group_add, 's::field) crates \<Rightarrow> bulletproof \<Rightarrow> (nat \<Rightarrow> bulletproof) \<Rightarrow> u64 \<times> 's" where
  "range_opening e pf again =
     (of_nat (\<Sum>i<64. 2 ^ i * fst (opening_bit e pf (again i) i)), \<Sum>i<64. 2 ^ i * snd (opening_bit e pf (again i) i))"

lemma opening_bit_bit: "fst (opening_bit e pf pf' i) \<in> {0, 1}"
proof (cases "parse_bit e pf (160 * i)"; cases "parse_bit e pf' (160 * i)")
  fix x y
  assume "parse_bit e pf (160 * i) = Some x" "parse_bit e pf' (160 * i) = Some y"
  then show ?thesis using bit_opening_bit [of "snd x" "snd y"] by (simp add: opening_bit_def split_beta)
qed (simp_all add: opening_bit_def)

lemma verify_range_bit:
  assumes "verify_range e com pf" "i < 64" "parse_bit e pf (160 * i) = Some (c, q)"
  shows "or_check e c q"
proof -
  obtain cs where "verify_bits e pf 64 0 = Some cs"
    using assms(1) by (auto simp: verify_range_def range_bits_def split: if_splits option.splits)
  from verify_bits_nth [OF this] assms(2,3) show ?thesis by auto
qed

text \<open>A rewound bit has two accepted answers with different totals, which open it.\<close>

lemma rewound_opens:
  assumes "dalek_laws e" "verify_range e com pf" "rewound e pf i pf'" "i < 64"
  shows "\<exists>c q. parse_bit e pf (160 * i) = Some (c, q) \<and>
    c = pedersen e (of_nat (fst (opening_bit e pf pf' i))) (snd (opening_bit e pf pf' i))"
proof -
  obtain h com' c q q' where r: "h_generator (e\<lparr>sha3_512 := h\<rparr>) = h_generator e"
    "verify_range (e\<lparr>sha3_512 := h\<rparr>) com' pf'" "parse_bit e pf (160 * i) = Some (c, q)" "parse_bit e pf' (160 * i) = Some (c, q')"
    "or_points e c q = or_points e c q'"
    "or_challenge e c (fst (or_points e c q)) (snd (or_points e c q)) \<noteq>
      or_challenge (e\<lparr>sha3_512 := h\<rparr>) c (fst (or_points e c q)) (snd (or_points e c q))"
    using assms(3) unfolding rewound_def by blast
  let ?e' = "e\<lparr>sha3_512 := h\<rparr>"
  have "scalar_from_bytes ?e' = scalar_from_bytes e" "decompress ?e' = decompress e"
    by (simp_all add: fun_eq_iff scalar_from_bytes_def)
  then have "parse_bit ?e' pf' (160 * i) = Some (c, q')" using r(4) unfolding parse_bit_def by metis
  then have "or_check ?e' c q'" using verify_range_bit [OF r(2) assms(4)] by blast
  moreover have "or_points ?e' c q' = or_points e c q" using r(1,5) by (simp add: or_points_def)
  moreover have "or_check e c q" using verify_range_bit [OF assms(2,4) r(3)] .
  ultimately have "or_total q \<noteq> or_total q'" using r(6) by (auto simp: or_check_points split_beta)
  from or_extract [OF assms(1) r(5) this] r(3,4) show ?thesis
    by (intro exI [of _ c] exI [of _ q]) (simp add: opening_bit_def)
qed

lemma range_proof_sound':
  assumes "dalek_laws e" "verify_range e com pf" "\<forall>i<64. rewound e pf i (again i)"
  shows "decompress e com =
    Some (pedersen e (amount_scalar (fst (range_opening e pf again))) (snd (range_opening e pf again)))"
proof -
  obtain outer cs where o: "decompress e com = Some outer" "verify_bits e pf 64 0 = Some cs"
    "compress e (weighted_sum e 0 1 cs) = compress e outer"
    using assms(2) by (auto simp: verify_range_def range_bits_def split: if_splits option.splits)
  have len: "length cs = 64" and bits: "\<forall>i<64. \<exists>q. parse_bit e pf (160 * i) = Some (cs ! i, q)"
    using verify_bits_nth [OF o(2)] by auto
  define f where "f i = opening_bit e pf (again i) i" for i
  have f: "cs ! i = pedersen e (of_nat (fst (f i))) (snd (f i))" if "i < 64" for i
  proof -
    have "\<exists>q. parse_bit e pf (160 * i) = Some (cs ! i, q)" using bits that by blast
    with rewound_opens [OF assms(1,2) assms(3) [rule_format, OF that] that] show ?thesis by (auto simp: f_def)
  qed
  let ?brs = "map f [0..<64]"
  have "list_all2 (\<lambda>c (b, r). c = pedersen e (of_nat b) r) cs ?brs"
    using f len by (auto simp: list_all2_conv_all_nth split_beta)
  from weighted_sum_bits [OF assms(1) this, of 0 1]
  have sum: "weighted_sum e 0 1 cs = pedersen e (of_nat (\<Sum>i<64. 2 ^ i * fst (f i))) (\<Sum>i<64. 2 ^ i * snd (f i))"
    by simp
  have "(\<Sum>i<64. 2 ^ i * fst (f i)) < 2 ^ 64" 
    using opening_bit_bit unfolding f_def by (intro bits_value) blast
  then have "unat (of_nat (\<Sum>i<64. 2 ^ i * fst (f i)) :: u64) = (\<Sum>i<64. 2 ^ i * fst (f i))"
    by (intro unat_of_nat_exact) simp
  then have "outer = pedersen e (amount_scalar (of_nat (\<Sum>i<64. 2 ^ i * fst (f i)))) (\<Sum>i<64. 2 ^ i * snd (f i))"
    using o(3) sum by (simp add: compress_inject [OF assms(1)] amount_scalar_def)
  with o(1) show ?thesis by (simp add: range_opening_def f_def)
qed

text \<open>
  Range proofs are sound: if the verifier accepts a proof for a commitment and the prover can be
  rewound at every bit, then the commitment opens to the 64-bit amount and the blinding computed from
  its answers: no accepted proof hides an amount that wraps around the order of the group, such as a
  negative one.
\<close>

theorem range_proof_sound:
  assumes "dalek_laws e" "verify_range e com pf" "\<forall>i<64. rewound e pf i (again i)"
  shows "case range_opening e pf again of (v, r) \<Rightarrow> decompress e com = Some (pedersen e (amount_scalar v) r)"
  using range_proof_sound' [OF assms] by (simp add: split_beta)

text \<open>
  Two worlds in which every challenge is zero, and one; every bit of the proof commits to zero.
\<close>

definition demo_const :: "u8 \<Rightarrow> (gf3, gf3) crates" where
  "demo_const c = demo\<lparr>sha3_512 := (\<lambda>_. c # zeros 63)\<rparr>"

definition demo_bits :: "gf3 \<Rightarrow> bulletproof" where
  "demo_bits x =
     concat (replicate 64 (bit_bytes demo Z0 (x, Z0, Z0, Z0))) @ range_tag demo (gf3_bytes Z0) (replicate 64 Z0)"

lemma demo_const_laws: "dalek_laws (demo_const c)"
  using demo_dalek by (simp add: demo_const_def dalek_laws_def)

lemma demo_const_generator: "h_generator (demo_const c) = Z1"
  by (simp add: demo_const_def h_generator_def)

lemma demo_const_challenge: "or_challenge (demo_const c) p a0 a1 = gf3_of_nat (unat c)"
  by (simp add: demo_const_def or_challenge_def hash_to_scalar_def) (simp add: demo_def sum_list_replicate)

lemma length_concat_replicate: "length (concat (replicate n xs)) = n * length xs"
  by (induction n) auto

lemma demo_bits_parse:
  assumes "i < 64"
  shows "parse_bit (demo_const c) (demo_bits x) (160 * i) = Some (Z0, x, Z0, Z0, Z0)"
proof -
  let ?b = "bit_bytes demo Z0 (x, Z0, Z0, Z0)"
  have bytes: "bit_bytes (demo_const c) Z0 (x, Z0, Z0, Z0) = ?b" by (simp add: demo_const_def)
  have "replicate 64 ?b = replicate i ?b @ ?b # replicate (63 - i) ?b"
    using assms replicate_add [of i "Suc (63 - i)" ?b] by simp
  then obtain rest where "demo_bits x = concat (replicate i ?b) @ ?b @ rest"
    unfolding demo_bits_def by (metis append_assoc concat.simps(2) concat_append)
  moreover have "length (concat (replicate i ?b)) = 160 * i"
    using length_bit_bytes [OF demo_dalek, of Z0 "(x, Z0, Z0, Z0)"] by (simp only: length_concat_replicate mult.commute)
  ultimately show ?thesis
    using parse_bit_bytes [OF demo_const_laws [of c], of "concat (replicate i ?b)" Z0 "(x, Z0, Z0, Z0)" rest] bytes
    by metis
qed

lemma demo_bits_points: "or_points (demo_const c) Z0 (x, Z0, Z0, Z0) = (Z0, Z0)"
  unfolding zero_gf3_def [symmetric]
  by (simp add: or_points_def demo_const_generator) (simp add: demo_const_def)

lemma demo_bits_check: "gf3_of_nat (unat c) = x \<Longrightarrow> or_check (demo_const c) Z0 (x, Z0, Z0, Z0)"
  by (simp add: or_check_points demo_bits_points demo_const_challenge or_total_def zero_gf3_def [symmetric] del: gf3_of_nat.simps)

lemma demo_bits_verify_bits:
  assumes "gf3_of_nat (unat c) = x"
  shows "i + n \<le> 64 \<Longrightarrow> verify_bits (demo_const c) (demo_bits x) n (160 * i) = Some (replicate n Z0)"
proof (induction n arbitrary: i)
  case (Suc n)
  have "160 * i + 160 = 160 * Suc i" by simp
  with Suc.IH [of "Suc i"] Suc.prems show ?case
    using demo_bits_parse [of i c x] demo_bits_check [OF assms] by (simp del: mult_Suc_right)
qed simp

lemma demo_bits_verify:
  assumes "gf3_of_nat (unat c) = x"
  shows "verify_range (demo_const c) (gf3_bytes Z0) (demo_bits x)"
proof -
  have sum: "weighted_sum (demo_const c) Z0 p (replicate n Z0) = Z0" for n p
    by (induction n arbitrary: p) (auto simp: demo_const_def mult.commute [of _ Z0])
  have body: "length (concat (replicate 64 (bit_bytes demo Z0 (x, Z0, Z0, Z0)))) = 10240"
    using length_bit_bytes [OF demo_dalek, of Z0 "(x, Z0, Z0, Z0)"] by (simp only: length_concat_replicate)
  have tag: "range_tag (demo_const c) o' cs = range_tag demo o' cs" for o' cs
    by (simp add: range_tag_def demo_const_def)
  have "verify_bits (demo_const c) (demo_bits x) 64 0 = Some (replicate 64 Z0)"
    using demo_bits_verify_bits [OF assms, of 0 64] by simp
  moreover have "decompress (demo_const c) (gf3_bytes Z0) = Some Z0" by (simp add: demo_const_def del: gf3_bytes.simps)
  moreover have "length (demo_bits x) = 10272" "subslice 10240 10272 (demo_bits x) = range_tag demo (gf3_bytes Z0) (replicate 64 Z0)"
    using body by (simp_all add: demo_bits_def subslice_def range_tag_def del: bit_bytes.simps)
  ultimately show ?thesis
    using sum [of 1 64] by (simp add: verify_range_def range_bits_def tag zero_gf3_def del: gf3_bytes.simps)
qed

lemma demo_rewound: "\<forall>i<64. rewound (demo_const 0) (demo_bits Z0) i (demo_bits Z1)"
proof (intro allI impI)
  fix i :: nat
  assume i: "i < 64"
  have over: "(demo_const 0)\<lparr>sha3_512 := (\<lambda>_. 1 # zeros 63)\<rparr> = demo_const 1" by (simp add: demo_const_def)
  have "verify_range (demo_const 1) (gf3_bytes Z0) (demo_bits Z1)" by (rule demo_bits_verify) simp
  then show "rewound (demo_const 0) (demo_bits Z0) i (demo_bits Z1)"
    unfolding rewound_def
    by (intro exI [of _ "\<lambda>_. 1 # zeros 63"] exI [of _ "gf3_bytes Z0"] exI [of _ Z0]
        exI [of _ "(Z0, Z0, Z0, Z0)"] exI [of _ "(Z1, Z0, Z0, Z0)"] conjI)
      (unfold over, simp_all only: demo_const_generator demo_bits_parse [OF i] demo_bits_points demo_const_challenge, simp)
qed

text \<open>The opening that the two answers determine is zero, with blinding zero.\<close>

lemma demo_opening: "range_opening (demo_const 0) (demo_bits Z0) (\<lambda>_. demo_bits Z1) = (0, Z0)"
proof -
  have "opening_bit (demo_const 0) (demo_bits Z0) (demo_bits Z1) i = (0, 0)" if "i < 64" for i
    using demo_bits_parse [OF that, of 0 Z0] demo_bits_parse [OF that, of 0 Z1]
    by (simp add: opening_bit_def bit_opening_def zero_gf3_def divide_gf3_def)
  then show ?thesis by (simp add: range_opening_def) (simp add: zero_gf3_def)
qed

theorem range_proof_sound_witness:
  "verify_range (demo_const 0) (gf3_bytes Z0) (demo_bits Z0) \<and>
   decompress (demo_const 0) (gf3_bytes Z0) = Some (pedersen (demo_const 0) (amount_scalar 0) Z0)"
proof -
  have v: "verify_range (demo_const 0) (gf3_bytes Z0) (demo_bits Z0)" by (rule demo_bits_verify) simp
  from range_proof_sound [OF demo_const_laws this demo_rewound] v show ?thesis by (simp add: demo_opening)
qed

end
