(* ===== verification/TxSound.thy ===== *)
theory TxSound
  imports RangeSound Tx
begin

text \<open>
  What the three checks of a transfer establish together: value is neither created nor destroyed,
  provided that the fee commitment opens to a 64-bit amount, which no check looks at.
\<close>

text \<open>The commitment opens to the amount with the blinding.\<close>

definition opens :: "('p::ab_group_add, 's::field) crates \<Rightarrow> pedersen_commitment \<Rightarrow> u64 \<times> 's \<Rightarrow> bool" where
  "opens e c vr \<longleftrightarrow> decompress e c = Some (pedersen e (amount_scalar (fst vr)) (snd vr))"

definition total_amount :: "(u64 \<times> 's) list \<Rightarrow> nat" where
  "total_amount vrs = sum_list (map (unat \<circ> fst) vrs)"

lemma opened_points:
  assumes "list_all2 (opens e) cs vrs"
  shows "sequence (map (decompress e) cs) = Some (map (\<lambda>(v, r). pedersen e (amount_scalar v) r) vrs)"
  using assms by (induction rule: list_all2_induct) (auto simp: opens_def)

lemma opened_sum:
  "dalek_laws (e :: ('p::ab_group_add, 's::field) crates) \<Longrightarrow>
   sum_list (map (\<lambda>(v, r). pedersen e (amount_scalar v) r) vrs) =
     pedersen e (of_nat (total_amount vrs)) (sum_list (map snd vrs))"
  by (induction vrs) (auto simp: total_amount_def pedersen_zero pedersen_add amount_scalar_def)

text \<open>Two openings of the same point either agree in the amount or relate the two generators.\<close>

lemma pedersen_binding:
  assumes "dalek_laws e" "pedersen e v r = pedersen e w s"
  shows "v = w \<or> h_generator e = smul e ((s - r) / (v - w)) (basepoint e)"
proof (cases "v = w")
  case False
  have "smul e r (basepoint e) + smul e v (h_generator e) = smul e s (basepoint e) + smul e w (h_generator e)"
    using assms(2) by (simp add: pedersen_def add.commute)
  from two_answers [OF assms(1) False this] show ?thesis by simp
qed simp

lemma total_amount_le: "total_amount vrs \<le> 2 ^ 64 * length vrs"
proof (induction vrs)
  case (Cons vr vrs)
  have "unat (fst vr) < 2 ^ 64" using unsigned_less [of "fst vr", where ?'a = nat] by simp
  with Cons show ?case by (simp add: total_amount_def)
qed (simp add: total_amount_def)

text \<open>The outputs' openings, from the range proofs and the second answers of their provers.\<close>

definition output_openings ::
  "('p::ab_group_add, 's::field) crates \<Rightarrow> transaction \<Rightarrow> (nat \<Rightarrow> nat \<Rightarrow> bulletproof) \<Rightarrow> (u64 \<times> 's) list" where
  "output_openings e tx again =
     map (\<lambda>k. range_opening e (range_proof (outputs tx ! k)) (again k)) [0..<length (outputs tx)]"

lemma outputs_open:
  assumes "dalek_laws e" "verify_range_proofs e tx"
    and "\<forall>k<length (outputs tx). \<forall>i<64. rewound e (range_proof (outputs tx ! k)) i (again k i)"
  shows "list_all2 (opens e) (map amount_commitment (outputs tx)) (output_openings e tx again)"
proof -
  have "verify_range e (amount_commitment (outputs tx ! k)) (range_proof (outputs tx ! k))"
    if "k < length (outputs tx)" for k
    using assms(2) that by (simp add: verify_range_proofs_def list_all_iff)
  then show ?thesis
    using range_proof_sound' [OF assms(1)] assms(3)
    by (simp add: list_all2_conv_all_nth output_openings_def opens_def)
qed

text \<open>
  C6. A transfer conserves value: if the node accepts it, the commitments of its inputs and of its fee
  open to 64-bit amounts, and the prover of each output has answered a second challenge for every bit,
  then the outputs open to the 64-bit amounts and the blindings computed from these answers, and
  their sum with the fee is the sum of the inputs: as scalars, and as numbers when the scalar
  field is large enough for these sums. The only other case is that the two sums differ and the
  quotient of the difference of the blindings and the difference of the sums is the discrete logarithm
  of the second generator to the base of the first, computed from the openings.
\<close>

theorem transfer_conserves_value:
  fixes e :: "('p::ab_group_add, 's::field) crates"
  assumes "dalek_laws e" "tx_verify e tx" "tx_type tx \<noteq> Coinbase" "tx_type tx \<noteq> Lite"
    and "list_all2 (opens e) (map pseudo_commitment (inputs tx)) ins" "opens e (fee_commitment tx) fee"
    and "\<forall>k<length (outputs tx). \<forall>i<64. rewound e (range_proof (outputs tx ! k)) i (again k i)"
  shows "let outs = output_openings e tx again;
      received = total_amount ins;
      paid = unat (fst fee) + total_amount outs;
      blinding = snd fee + sum_list (map snd outs) - sum_list (map snd ins) in
    list_all2 (opens e) (map amount_commitment (outputs tx)) outs \<and>
    (if (of_nat received :: 's) = of_nat paid
     then inj_on (of_nat :: nat \<Rightarrow> 's) {..2 ^ 64 * (length ins + length outs + 1)} \<longrightarrow> received = paid
     else h_generator e = smul e (blinding / (of_nat received - of_nat paid)) (basepoint e))"
proof -
  have checks: "tx_verify_balance e tx" "verify_range_proofs e tx"
    using assms(2-4) by (simp_all add: tx_verify_def)
  let ?outs = "output_openings e tx again"
  note outs = outputs_open [OF assms(1) checks(2) assms(7)]
  let ?r = "\<lambda>vrs. sum_list (map snd vrs)"
  have "pedersen e (of_nat (total_amount ins)) (?r ins) =
      pedersen e (amount_scalar (fst fee)) (snd fee) + pedersen e (of_nat (total_amount ?outs)) (?r ?outs)"
    using checks(1) opened_points [OF assms(5)] opened_points [OF outs] assms(6)
      compress_zero_iff [OF assms(1)]
    by (simp add: tx_verify_balance_def verify_balance_def opens_def Let_def foldl_plus opened_sum [OF assms(1)])
  then have "pedersen e (of_nat (total_amount ins)) (?r ins) =
      pedersen e (of_nat (unat (fst fee) + total_amount ?outs)) (snd fee + ?r ?outs)"
    by (simp add: pedersen_add [OF assms(1)] amount_scalar_def)
  note binding = pedersen_binding [OF assms(1) this]
  have "unat (fst fee) < 2 ^ 64" using unsigned_less [of "fst fee", where ?'a = nat] by simp
  then have "total_amount ins \<le> 2 ^ 64 * (length ins + length ?outs + 1)"
    "unat (fst fee) + total_amount ?outs \<le> 2 ^ 64 * (length ins + length ?outs + 1)"
    using total_amount_le [of ins] total_amount_le [of ?outs] by simp_all
  then have numbers: "total_amount ins = unat (fst fee) + total_amount ?outs"
    if "inj_on (of_nat :: nat \<Rightarrow> 's) {..2 ^ 64 * (length ins + length ?outs + 1)}"
      "(of_nat (total_amount ins) :: 's) = of_nat (unat (fst fee) + total_amount ?outs)"
    using inj_onD [OF that] by simp
  show ?thesis
    unfolding Let_def using outs binding numbers by (intro conjI) (assumption, metis)
qed

definition demo_transfer :: transaction where
  "demo_transfer =
     \<lparr> tx_type = Transfer, inputs = [],
       outputs = [\<lparr> one_time_pubkey = zeros 32, tx_pubkey = zeros 32, amount_commitment = gf3_bytes Z0,
                    encrypted_amount = [], range_proof = demo_bits Z0 \<rparr>],
       fee_commitment = gf3_bytes Z0, fee_proof = [], extra = [], version = 1 \<rparr>"

theorem transfer_conserves_value_witness:
  "tx_verify (demo_const 0) demo_transfer \<and>
   output_openings (demo_const 0) demo_transfer (\<lambda>k i. demo_bits Z1) = [(0, Z0)] \<and>
   list_all2 (opens (demo_const 0)) (map amount_commitment (outputs demo_transfer)) [(0, Z0)]"
proof -
  have fee: "opens (demo_const 0) (fee_commitment demo_transfer) (0, Z0)"
    by (simp add: demo_transfer_def opens_def amount_scalar_def zero_gf3_def [symmetric] pedersen_zero [OF demo_const_laws]
        del: gf3_bytes.simps) (simp add: demo_const_def zero_gf3_def del: gf3_bytes.simps)
  have balance: "tx_verify_balance (demo_const 0) demo_transfer"
    by (simp add: tx_verify_balance_def verify_balance_def demo_transfer_def demo_const_def zero_gf3_def Let_def
        del: gf3_bytes.simps)
  have range: "verify_range (demo_const 0) (gf3_bytes Z0) (demo_bits Z0)"
    "\<forall>i<64. rewound (demo_const 0) (demo_bits Z0) i (demo_bits Z1)"
    using demo_rewound demo_bits_verify [of 0 Z0] by simp_all
  have v: "tx_verify (demo_const 0) demo_transfer"
    using balance range(1)
    by (simp add: tx_verify_def verify_ring_signatures_def verify_range_proofs_def del: gf3_bytes.simps)
      (simp add: demo_transfer_def del: gf3_bytes.simps)
  have "tx_type demo_transfer \<noteq> Coinbase" "tx_type demo_transfer \<noteq> Lite"
    "list_all2 (opens (demo_const 0)) (map pseudo_commitment (inputs demo_transfer)) []"
    "\<forall>k<length (outputs demo_transfer). \<forall>i<64.
      rewound (demo_const 0) (range_proof (outputs demo_transfer ! k)) i (demo_bits Z1)"
    using range(2) by (simp_all add: demo_transfer_def)
  note conserved = transfer_conserves_value [OF demo_const_laws v this(1-3) fee this(4)]
  have "output_openings (demo_const 0) demo_transfer (\<lambda>k i. demo_bits Z1) = [(0, Z0)]"
    by (simp add: output_openings_def demo_transfer_def demo_opening)
  with conserved v show ?thesis by (simp add: Let_def)
qed

end
