(* ===== verification/Abi.thy ===== *)
theory Abi
  imports Crates
begin

text \<open>
  \<open>src/src/evm/abi.rs\<close>: the Ethereum ABI words. An encoder and its decoder are instances of the
  prelude's interface of a fixed-width codec, whose facts give the calldata lemmas.
\<close>

definition function_selector :: "('p, 's) crates \<Rightarrow> string \<Rightarrow> bytes" where
  "function_selector e signature =
     (let hash = keccak256 e (str_bytes signature) in [hash ! 0, hash ! 1, hash ! 2, hash ! 3])"

definition encode_uint256 :: "u64 \<Rightarrow> bytes" where
  "encode_uint256 v = take 24 (zeros 32) @ u64_to_be v"

definition encode_bool :: "bool \<Rightarrow> bytes" where
  "encode_bool v = (zeros 32)[31 := (if v then 1 else 0)]"

definition encode_bytes32 :: "bytes \<Rightarrow> bytes" where
  "encode_bytes32 v = v"

definition encode_address :: "bytes \<Rightarrow> bytes" where
  "encode_address addr = take 12 (zeros 32) @ addr"

definition decode_uint64 :: "bytes \<Rightarrow> u64" where
  "decode_uint64 d = u64_from_be (drop 24 d)"

definition decode_bool :: "bytes \<Rightarrow> bool" where
  "decode_bool d = (d ! 31 \<noteq> 0)"

definition encode_call :: "bytes \<Rightarrow> bytes list \<Rightarrow> bytes" where
  "encode_call selector args = selector @ concat args"

definition decode_return :: "bytes \<Rightarrow> bytes option" where
  "decode_return out = (if length out < 32 then None else Some (take 32 out))"

section \<open>The codecs\<close>

interpretation abi_u64: fixed_codec encode_uint256 decode_uint64 32
  by unfold_locales (simp_all add: encode_uint256_def decode_uint64_def u64_be.dec_enc)

interpretation abi_bool: fixed_codec encode_bool decode_bool 32
  by unfold_locales (simp_all add: encode_bool_def decode_bool_def)

lemma decode_return_append: "length w = 32 \<Longrightarrow> decode_return (w @ r) = Some w"
  by (simp add: decode_return_def)

text \<open>Argument \<open>i\<close> of a calldata is the word at offset \<open>4 + 32 i\<close>.\<close>

definition abi_arg :: "bytes \<Rightarrow> nat \<Rightarrow> bytes" where
  "abi_arg calldata i = subslice (4 + 32 * i) (4 + 32 * i + 32) calldata"

lemma drop_concat_words:
  "\<forall>a\<in>set args. length a = 32 \<Longrightarrow> i \<le> length args \<Longrightarrow> drop (32 * i) (concat args) = concat (drop i args)"
proof (induction i arbitrary: args)
  case (Suc i)
  then obtain a as where "args = a # as" by (cases args) auto
  with Suc show ?case by simp
qed simp

lemma abi_arg_encode_call:
  assumes "length sel = 4" "\<forall>a\<in>set args. length a = 32" "i < length args"
  shows "abi_arg (encode_call sel args) i = args ! i"
proof -
  have "drop (4 + 32 * i) (encode_call sel args) = concat (drop i args)"
    using assms drop_concat_words [of args i] by (simp add: encode_call_def)
  moreover have "drop i args = args ! i # drop (Suc i) args"
    using assms(3) by (simp add: Cons_nth_drop_Suc)
  ultimately show ?thesis
    using assms by (simp add: abi_arg_def subslice_def)
qed

lemma encode_call_inject:
  assumes "length sel = 4" "length sel' = 4" "\<forall>a\<in>set args. length a = 32" "\<forall>a\<in>set args'. length a = 32"
    and "encode_call sel args = encode_call sel' args'"
  shows "sel = sel' \<and> args = args'"
proof -
  have eq: "sel = sel'" "concat args = concat args'"
    using assms by (auto simp: encode_call_def)
  have len: "length (concat xs) = 32 * length xs" if "\<forall>a\<in>set xs. length a = 32" for xs :: "bytes list"
    using that by (induction xs) auto
  have "length args = length args'"
    using len [OF assms(3)] len [OF assms(4)] eq(2) by simp
  then have "args = args'"
    using assms(3,4) eq(2) by (induction args args' rule: list_induct2) auto
  with eq show ?thesis by simp
qed

end
