(* ===== verification/Precompile.thy ===== *)
theory Precompile
  imports RangeProof RingSig Stealth Gas Abi
begin

text \<open>
  \<open>src/src/evm/precompiles.rs\<close>: the native contracts at the addresses 0x100 to 0x106 and their
  packed input formats. Where the code stubs a precompile, so does the model.
\<close>

definition ADDR_RING_SIG_VERIFY :: u64 where "ADDR_RING_SIG_VERIFY = 0x100"
definition ADDR_ZK_VERIFY :: u64 where "ADDR_ZK_VERIFY = 0x101"
definition ADDR_STEALTH_DERIVE :: u64 where "ADDR_STEALTH_DERIVE = 0x102"
definition ADDR_PEDERSEN_COMMIT :: u64 where "ADDR_PEDERSEN_COMMIT = 0x103"
definition ADDR_BULLETPROOF_VFY :: u64 where "ADDR_BULLETPROOF_VFY = 0x104"
definition ADDR_NULLIFIER_CHECK :: u64 where "ADDR_NULLIFIER_CHECK = 0x105"
definition ADDR_VIEW_KEY_SCAN :: u64 where "ADDR_VIEW_KEY_SCAN = 0x106"

lemmas precompile_addrs =
  ADDR_RING_SIG_VERIFY_def ADDR_ZK_VERIFY_def ADDR_STEALTH_DERIVE_def ADDR_PEDERSEN_COMMIT_def
  ADDR_BULLETPROOF_VFY_def ADDR_NULLIFIER_CHECK_def ADDR_VIEW_KEY_SCAN_def

record precompile_result =
  pr_output :: bytes
  pr_gas_used :: u64
  pr_success :: bool

definition pr_ok :: "bytes \<Rightarrow> u64 \<Rightarrow> precompile_result" where
  "pr_ok out gas = \<lparr> pr_output = out, pr_gas_used = gas, pr_success = True \<rparr>"

definition pr_err :: "u64 \<Rightarrow> precompile_result" where
  "pr_err gas = \<lparr> pr_output = zeros 32, pr_gas_used = gas, pr_success = False \<rparr>"

definition bool_word :: "bool \<Rightarrow> bytes" where
  "bool_word valid = (if valid then (zeros 32)[31 := 1] else zeros 32)"

definition precompile_ring_sig_verify ::
  "('p::ab_group_add, 's::field) crates \<Rightarrow> bytes \<Rightarrow> u64 \<Rightarrow> precompile_result" where
  "precompile_ring_sig_verify e input gas_lim =
     (let gas = gas_cost RING_SIG_VERIFY in
      if gas_lim < gas \<or> length input < 68 then pr_err gas
      else
        let message = subslice 0 32 input;
            size = unat (u32_from_be (subslice 32 36 input)) in
        if length input < 36 + size * 32 + 32 then pr_err gas
        else
          let members = map (\<lambda>i. subslice (36 + i * 32) (36 + i * 32 + 32) input) [0..<size];
              sig_offset = 36 + size * 32;
              ki_offset = sig_offset in
          if length input < ki_offset + 32 then pr_err gas
          else
            let ki = drop (length input - 32) input;
                sig = subslice sig_offset (length input - 32) input;
                valid = verify_ring e message members sig ki
            in pr_ok (bool_word valid) gas)"

definition precompile_zk_verify :: "bytes \<Rightarrow> u64 \<Rightarrow> precompile_result" where
  "precompile_zk_verify input gas_lim =
     (let gas = gas_cost ZK_VERIFY in
      if gas_lim < gas \<or> length input < 40 then pr_err gas
      else
        let proof_bytes = drop 40 input; valid = (proof_bytes \<noteq> []) in
        pr_ok (bool_word valid) gas)"

definition precompile_stealth_derive :: "('p, 's) crates \<Rightarrow> bytes \<Rightarrow> u64 \<Rightarrow> precompile_result" where
  "precompile_stealth_derive e input gas_lim =
     (let gas = gas_cost STEALTH_SCAN in
      if gas_lim < gas \<or> length input < 100 then pr_err gas
      else pr_ok (keccak256 e (take 100 input)) gas)"

definition precompile_pedersen_commit ::
  "('p::ab_group_add, 's::field) crates \<Rightarrow> bytes \<Rightarrow> u64 \<Rightarrow> precompile_result" where
  "precompile_pedersen_commit e input gas_lim =
     (let gas = gas_cost PEDERSEN_COMMIT in
      if gas_lim < gas \<or> length input < 40 then pr_err gas
      else
        let amount = u64_from_be (subslice 0 8 input); blinding = subslice 8 40 input in
        case commit e amount blinding of
          Some c \<Rightarrow> pr_ok c gas
        | None \<Rightarrow> pr_err gas)"

definition precompile_bulletproof_verify ::
  "('p::ab_group_add, 's::field) crates \<Rightarrow> bytes \<Rightarrow> u64 \<Rightarrow> precompile_result" where
  "precompile_bulletproof_verify e input gas_lim =
     (let gas = gas_cost BULLETPROOF_VFY in
      if gas_lim < gas \<or> length input < 32 then pr_err gas
      else
        let commitment = subslice 0 32 input; pf = drop 32 input;
            valid = verify_range e commitment pf
        in pr_ok (bool_word valid) gas)"

definition precompile_nullifier_check :: "bytes \<Rightarrow> u64 \<Rightarrow> precompile_result" where
  "precompile_nullifier_check input gas_lim =
     (let gas = gas_cost SLOAD in
      if gas_lim < gas \<or> length input < 32 then pr_err gas
      else pr_ok ((zeros 32)[31 := 0]) gas)"

definition precompile_view_key_scan ::
  "('p::ab_group_add, 's::field) crates \<Rightarrow> bytes \<Rightarrow> u64 \<Rightarrow> precompile_result" where
  "precompile_view_key_scan e input gas_lim =
     (let gas = gas_cost STEALTH_SCAN in
      if gas_lim < gas \<or> length input < 132 then pr_err gas
      else
        let txp = subslice 0 32 input; outp = subslice 32 64 input;
            vk = subslice 64 96 input; spend = subslice 96 128 input;
            index = u32_from_be (subslice 128 132 input)
        in case scan_output e txp outp index vk spend of
             Some s_i \<Rightarrow> pr_ok (take 32 ((zeros 64)[31 := 1]) @ s_i) gas
           | None \<Rightarrow> pr_ok ((zeros 64)[31 := 0]) gas)"

definition call_precompile ::
  "('p::ab_group_add, 's::field) crates \<Rightarrow> u64 \<Rightarrow> bytes \<Rightarrow> u64 \<Rightarrow> precompile_result option" where
  "call_precompile e address input gas_lim =
     (if address = ADDR_RING_SIG_VERIFY then Some (precompile_ring_sig_verify e input gas_lim)
      else if address = ADDR_ZK_VERIFY then Some (precompile_zk_verify input gas_lim)
      else if address = ADDR_STEALTH_DERIVE then Some (precompile_stealth_derive e input gas_lim)
      else if address = ADDR_PEDERSEN_COMMIT then Some (precompile_pedersen_commit e input gas_lim)
      else if address = ADDR_BULLETPROOF_VFY then Some (precompile_bulletproof_verify e input gas_lim)
      else if address = ADDR_NULLIFIER_CHECK then Some (precompile_nullifier_check input gas_lim)
      else if address = ADDR_VIEW_KEY_SCAN then Some (precompile_view_key_scan e input gas_lim)
      else None)"

section \<open>Results\<close>

lemma bool_word_encode: "bool_word v = encode_bool v"
  by (simp add: bool_word_def encode_bool_def list_eq_iff_nth_eq nth_list_update)

lemma decode_bool_word [simp]: "decode_bool (bool_word v) = v"
  by (simp add: bool_word_encode abi_bool.dec_enc)

lemma pr_simps [simp]:
  "pr_output (pr_ok x g) = x" "pr_gas_used (pr_ok x g) = g" "pr_success (pr_ok x g)"
  "pr_output (pr_err g) = zeros 32" "pr_gas_used (pr_err g) = g" "\<not> pr_success (pr_err g)"
  by (simp_all add: pr_ok_def pr_err_def)

fun precompile_gas :: "u64 \<Rightarrow> u64" where
  "precompile_gas a =
     (if a = ADDR_RING_SIG_VERIFY then gas_cost RING_SIG_VERIFY
      else if a = ADDR_ZK_VERIFY then gas_cost ZK_VERIFY
      else if a = ADDR_PEDERSEN_COMMIT then gas_cost PEDERSEN_COMMIT
      else if a = ADDR_BULLETPROOF_VFY then gas_cost BULLETPROOF_VFY
      else if a = ADDR_NULLIFIER_CHECK then gas_cost SLOAD
      else gas_cost STEALTH_SCAN)"

lemmas precompile_defs =
  precompile_ring_sig_verify_def precompile_zk_verify_def precompile_stealth_derive_def
  precompile_pedersen_commit_def precompile_bulletproof_verify_def precompile_nullifier_check_def
  precompile_view_key_scan_def

text \<open>The interface every precompile keeps: a fixed price, charged on failure too.\<close>

lemma precompile_priced:
  assumes "call_precompile e a input glim = Some r"
  shows "pr_gas_used r = precompile_gas a" "pr_success r \<Longrightarrow> precompile_gas a \<le> glim"
    "\<not> pr_success r \<Longrightarrow> pr_output r = zeros 32"
  using assms
  by (auto simp: call_precompile_def precompile_defs precompile_addrs Let_def not_less
      split: if_splits option.splits)

lemma precompile_addresses:
  "call_precompile e a input glim = None \<longleftrightarrow> a \<notin> {0x100, 0x101, 0x102, 0x103, 0x104, 0x105, 0x106}"
  by (simp add: call_precompile_def precompile_addrs)

lemma members_of_concat:
  "\<forall>x\<in>set ring. length x = 32 \<Longrightarrow>
   map (\<lambda>i. subslice (36 + i * 32) (36 + i * 32 + 32) (pre @ concat ring @ r)) [0..<length ring] = ring"
  if "length pre = 36"
proof (rule nth_equalityI)
  assume w: "\<forall>x\<in>set ring. length x = 32"
  fix i
  assume "i < length (map (\<lambda>i. subslice (36 + i * 32) (36 + i * 32 + 32) (pre @ concat ring @ r)) [0..<length ring])"
  then have i: "i < length ring" by simp
  then have "drop (i * 32) (concat ring @ r) = ring ! i @ concat (drop (Suc i) ring) @ r"
    using drop_concat_words [OF w, of i] length_concat32 [OF w]
    by (simp add: mult.commute flip: Cons_nth_drop_Suc)
  then have "drop (36 + i * 32) (pre @ concat ring @ r) = ring ! i @ concat (drop (Suc i) ring) @ r"
    using that by (simp add: add.commute)
  then have "subslice (36 + i * 32) (36 + i * 32 + 32) (pre @ concat ring @ r) =
      take 32 (ring ! i @ concat (drop (Suc i) ring) @ r)"
    by (simp only: subslice_def diff_add_inverse)
  with w i show "map (\<lambda>i. subslice (36 + i * 32) (36 + i * 32 + 32) (pre @ concat ring @ r)) [0..<length ring] ! i = ring ! i"
    by simp
qed simp

lemma take_subslice [simp]: "subslice 0 n xs = take n xs"
  by (simp add: subslice_def)

text \<open>
  C38. The native contracts compute what the modules behind them compute. On a well-formed packed
  input and with enough gas, the ring precompile answers the word \<open>true\<close> exactly when
  \<open>verify_ring\<close> accepts the message, the ring and the signature it was given, the range precompile
  exactly when \<open>verify_range\<close> accepts, and the commitment precompile returns the commitment of the
  amount and blinding. Unknown addresses have no precompile; every other call is priced by its
  address alone, and a success is never given for less gas than that price.
\<close>

theorem precompiles_agree:
  assumes "length msg = 32" "\<forall>x\<in>set ring. length x = 32" "length ring < 2 ^ 32" "length ki = 32"
    and "length blinding = 32" "length c = 32"
    and "precompile_gas ADDR_RING_SIG_VERIFY \<le> g" "precompile_gas ADDR_PEDERSEN_COMMIT \<le> g"
      "precompile_gas ADDR_BULLETPROOF_VFY \<le> g"
  shows "call_precompile e ADDR_RING_SIG_VERIFY
        (msg @ u32_to_be (of_nat (length ring)) @ concat ring @ sig @ ki) g =
      Some (pr_ok (encode_bool (verify_ring e msg ring sig ki)) (precompile_gas ADDR_RING_SIG_VERIFY))
    \<and> call_precompile e ADDR_PEDERSEN_COMMIT (u64_to_be v @ blinding) g =
      Some (case commit e v blinding of
              Some cm \<Rightarrow> pr_ok cm (precompile_gas ADDR_PEDERSEN_COMMIT)
            | None \<Rightarrow> pr_err (precompile_gas ADDR_PEDERSEN_COMMIT))
    \<and> call_precompile e ADDR_BULLETPROOF_VFY (c @ pf) g =
      Some (pr_ok (encode_bool (verify_range e c pf)) (precompile_gas ADDR_BULLETPROOF_VFY))
    \<and> (call_precompile e a input g' = None \<longleftrightarrow> a \<notin> {0x100, 0x101, 0x102, 0x103, 0x104, 0x105, 0x106})
    \<and> (\<forall>r. call_precompile e a input g' = Some r \<longrightarrow>
          pr_gas_used r = precompile_gas a \<and> (pr_success r \<longrightarrow> precompile_gas a \<le> g'))"
proof (intro conjI)
  let ?pre = "msg @ u32_to_be (of_nat (length ring))"
  let ?in = "?pre @ concat ring @ sig @ ki"
  have pre: "length ?pre = 36" using assms(1) by simp
  have size: "unat (u32_from_be (subslice 32 36 ?in)) = length ring"
    using assms(1,3) by (simp add: subslice_def u32_be.dec_enc unat_of_nat_exact)
  have len: "length ?in = 36 + length ring * 32 + length sig + 32"
    using pre assms(4) length_concat32 [OF assms(2)] by simp
  have parts: "map (\<lambda>i. subslice (36 + i * 32) (36 + i * 32 + 32) ?in) [0..<length ring] = ring"
    "take 32 ?in = msg" "drop (length ?in - 32) ?in = ki"
    "subslice (36 + length ring * 32) (length ?in - 32) ?in = sig"
    using members_of_concat [OF pre assms(2), of "sig @ ki"] assms(1,4) length_concat32 [OF assms(2)]
    by (simp_all add: subslice_def)
  show "call_precompile e ADDR_RING_SIG_VERIFY (msg @ u32_to_be (of_nat (length ring)) @ concat ring @ sig @ ki) g =
      Some (pr_ok (encode_bool (verify_ring e msg ring sig ki)) (precompile_gas ADDR_RING_SIG_VERIFY))"
    using assms(7) size len parts
    by (simp add: call_precompile_def precompile_ring_sig_verify_def Let_def not_less bool_word_encode)
  show "call_precompile e ADDR_PEDERSEN_COMMIT (u64_to_be v @ blinding) g =
      Some (case commit e v blinding of
              Some cm \<Rightarrow> pr_ok cm (precompile_gas ADDR_PEDERSEN_COMMIT)
            | None \<Rightarrow> pr_err (precompile_gas ADDR_PEDERSEN_COMMIT))"
    using assms(5,8)
    by (cases "commit e v blinding")
      (simp_all add: call_precompile_def precompile_pedersen_commit_def precompile_addrs Let_def not_less
        subslice_def u64_be.dec_enc)
  show "call_precompile e ADDR_BULLETPROOF_VFY (c @ pf) g =
      Some (pr_ok (encode_bool (verify_range e c pf)) (precompile_gas ADDR_BULLETPROOF_VFY))"
    using assms(6,9)
    by (simp add: call_precompile_def precompile_bulletproof_verify_def precompile_addrs Let_def not_less
        bool_word_encode)
  show "\<forall>r. call_precompile e a input g' = Some r \<longrightarrow>
      pr_gas_used r = precompile_gas a \<and> (pr_success r \<longrightarrow> precompile_gas a \<le> g')"
    using precompile_priced by blast
qed (rule precompile_addresses)

theorem precompiles_agree_witness:
  "call_precompile demo ADDR_RING_SIG_VERIFY
      (zeros 32 @ u32_to_be (of_nat (length [gf3_bytes Z1, gf3_bytes Z2])) @
       concat [gf3_bytes Z1, gf3_bytes Z2] @ [7, 7] @ zeros 32) 90000 =
     Some (pr_ok (encode_bool (verify_ring demo (zeros 32) [gf3_bytes Z1, gf3_bytes Z2] [7, 7] (zeros 32)))
       (precompile_gas ADDR_RING_SIG_VERIFY))
   \<and> call_precompile demo 0x107 [] 0 = None"
  using precompiles_agree [of "zeros 32" "[gf3_bytes Z1, gf3_bytes Z2]" "zeros 32" "zeros 32" "zeros 32" 90000
      demo "[7, 7]" 0 "[]" "0x107" "[]" 0]
  by (simp add: precompile_addrs del: gf3_bytes.simps)

end
