(* ===== verification/Evm.thy ===== *)
theory Evm
  imports Abi Instance "HOL-Library.AList"
begin

text \<open>
  \<open>src/src/evm/executor.rs\<close>: contract addresses, contract storage, deployment and calls. The
  executor is the code's: a stub that charges gas by calldata and echoes it. A \<open>HashMap\<close> is an
  association list with distinct keys.
\<close>

section \<open>Addresses and storage\<close>

definition ca_to_hex :: "('p, 's) crates \<Rightarrow> bytes \<Rightarrow> string" where
  "ca_to_hex e addr = ''0x'' @ hex_encode e addr"

definition from_deployer :: "('p, 's) crates \<Rightarrow> bytes \<Rightarrow> u64 \<Rightarrow> bytes" where
  "from_deployer e deployer nonce =
     drop 12 (keccak256 e (str_bytes ''CipherX_CREATE'' @ deployer @ u64_to_le nonce))"

definition from_create2 :: "('p, 's) crates \<Rightarrow> bytes \<Rightarrow> bytes \<Rightarrow> bytes \<Rightarrow> bytes" where
  "from_create2 e deployer salt code_hash =
     drop 12 (keccak256 e ([255] @ deployer @ salt @ code_hash))"

record storage_slot =
  slot_key :: bytes
  slot_encrypted_value :: bytes
  slot_value_commitment :: bytes

type_synonym contract_storage = "(bytes \<times> storage_slot) list"

definition cs_get :: "contract_storage \<Rightarrow> bytes \<Rightarrow> storage_slot option" where
  "cs_get st k = map_of st k"

definition cs_insert :: "contract_storage \<Rightarrow> storage_slot \<Rightarrow> contract_storage" where
  "cs_insert st slot = AList.update (slot_key slot) slot st"

definition slot_count :: "contract_storage \<Rightarrow> nat" where
  "slot_count st = length st"

text \<open>Every entry of a table is stored under distinct keys and fits its key.\<close>

definition table_ok :: "('k \<Rightarrow> 'v \<Rightarrow> bool) \<Rightarrow> ('k \<times> 'v) list \<Rightarrow> bool" where
  "table_ok P st \<longleftrightarrow> distinct (map fst st) \<and> (\<forall>(k, v)\<in>set st. P k v)"

lemma set_update_subset: "set (AList.update k v st) \<subseteq> insert (k, v) (set st)"
  by (induction st) auto

lemma table_ok_Nil [simp]: "table_ok P []"
  by (simp add: table_ok_def)

lemma table_ok_update: "table_ok P st \<Longrightarrow> P k v \<Longrightarrow> table_ok P (AList.update k v st)"
  using set_update_subset [of k v st] by (fastforce simp: table_ok_def distinct_update)

lemma table_ok_get: "table_ok P st \<Longrightarrow> map_of st k = Some v \<Longrightarrow> P k v"
  by (auto simp: table_ok_def dest: map_of_SomeD)

definition storage_ok :: "contract_storage \<Rightarrow> bool" where
  "storage_ok st \<longleftrightarrow> table_ok (\<lambda>k slot. slot_key slot = k) st"

lemma storage_ok_insert: "storage_ok st \<Longrightarrow> storage_ok (cs_insert st slot)"
  by (simp add: storage_ok_def cs_insert_def table_ok_update)

lemma cs_get_insert: "cs_get (cs_insert st slot) = (cs_get st)(slot_key slot \<mapsto> slot)"
  by (simp add: fun_eq_iff cs_get_def cs_insert_def update_conv')

section \<open>Contracts\<close>

record contract =
  ct_address :: bytes
  ct_bytecode :: bytes
  ct_code_hash :: bytes
  ct_encryption_pubkey :: bytes
  ct_deployed_at :: u64
  ct_deployer_nullifier :: bytes
  ct_abi_hash :: bytes
  ct_destructible :: bool
  ct_storage :: contract_storage
  ct_balance_commitment :: bytes
  ct_nonce :: u64

definition contract_new :: "('p, 's) crates \<Rightarrow> bytes \<Rightarrow> bytes \<Rightarrow> u64 \<Rightarrow> u64 \<Rightarrow> contract" where
  "contract_new e bytecode deployer_nullifier deployer_nonce deployed_at =
     (let address = from_deployer e deployer_nullifier deployer_nonce in
      \<lparr> ct_address = address,
        ct_bytecode = bytecode,
        ct_code_hash = keccak256 e bytecode,
        ct_encryption_pubkey =
          keccak256 e (str_bytes ''CipherX_contract_enc_key'' @ address @ u64_to_le deployed_at),
        ct_deployed_at = deployed_at,
        ct_deployer_nullifier = deployer_nullifier,
        ct_abi_hash = zeros 32,
        ct_destructible = True,
        ct_storage = [],
        ct_balance_commitment = zeros 32,
        ct_nonce = 0 \<rparr>)"

section \<open>Calls and results\<close>

datatype execution_error =
    OutOfGas | Revert string | InvalidBytecode | StackOverflow | InvalidJump
  | ContractNotFound string | InsufficientGas

record private_call =
  pc_to :: bytes
  pc_encrypted_calldata :: bytes
  pc_gas_limit :: u64
  pc_value_commitment :: bytes
  pc_caller_nullifier :: bytes
  pc_balance_proof :: bytes

record encrypted_event =
  ev_topic :: bytes
  ev_encrypted_data :: bytes
  ev_recipient_pubkey :: bytes

record execution_result =
  xr_success :: bool
  xr_gas_used :: u64
  xr_encrypted_output :: bytes
  xr_storage_changes :: "storage_slot list"
  xr_encrypted_events :: "encrypted_event list"
  xr_error :: "execution_error option"

record raw_exec_result =
  raw_success :: bool
  raw_gas_used :: u64
  raw_output :: bytes
  raw_storage_changes :: "(bytes \<times> bytes) list"
  raw_error :: "execution_error option"

record deploy_result =
  dr_address :: bytes
  dr_code_hash :: bytes
  dr_encryption_pubkey :: bytes
  dr_gas_used :: u64

section \<open>The executor\<close>

record evm =
  evm_contracts :: "(bytes \<times> contract) list"
  evm_block_height :: u64
  evm_block_timestamp :: i64
  evm_base_gas_price :: u64

definition evm_new :: "u64 \<Rightarrow> i64 \<Rightarrow> evm" where
  "evm_new block_height block_timestamp =
     \<lparr> evm_contracts = [], evm_block_height = block_height,
       evm_block_timestamp = block_timestamp, evm_base_gas_price = 1000 \<rparr>"

definition estimate_deploy_gas :: "bytes \<Rightarrow> u64" where
  "estimate_deploy_gas bytecode = 53000 + of_nat (length bytecode) * 200"

definition estimate_call_gas :: "bytes \<Rightarrow> u64" where
  "estimate_call_gas calldata = 21000 + of_nat (length calldata) * 16"

definition gas_to_ncip :: "evm \<Rightarrow> u64 \<Rightarrow> u64" where
  "gas_to_ncip s gas = gas * evm_base_gas_price s"

definition evm_deploy ::
  "('p, 's) crates \<Rightarrow> evm \<Rightarrow> bytes \<Rightarrow> bytes \<Rightarrow> u64 \<Rightarrow> bytes \<Rightarrow> u64 \<Rightarrow>
   (execution_error + deploy_result) \<times> evm" where
  "evm_deploy e s bytecode deployer_nullifier deployer_nonce constructor_args gas_lim =
     (if bytecode = [] then (Inl InvalidBytecode, s)
      else
        let deploy_gas = estimate_deploy_gas bytecode in
        if gas_lim < deploy_gas then (Inl OutOfGas, s)
        else
          let c = contract_new e bytecode deployer_nullifier deployer_nonce (evm_block_height s) in
          (Inr \<lparr> dr_address = ct_address c, dr_code_hash = ct_code_hash c,
                 dr_encryption_pubkey = ct_encryption_pubkey c, dr_gas_used = deploy_gas \<rparr>,
           s\<lparr> evm_contracts := AList.update (ct_address c) c (evm_contracts s) \<rparr>))"

definition execute_bytecode :: "bytes \<Rightarrow> bytes \<Rightarrow> u64 \<Rightarrow> contract_storage \<Rightarrow> raw_exec_result" where
  "execute_bytecode bytecode calldata gas_lim st =
     (if bytecode = [] then
        \<lparr> raw_success = False, raw_gas_used = 21000, raw_output = [], raw_storage_changes = [],
          raw_error = Some InvalidBytecode \<rparr>
      else
        let used = 21000 + of_nat (length calldata) * 16 in
        if gas_lim < used then
          \<lparr> raw_success = False, raw_gas_used = gas_lim, raw_output = [], raw_storage_changes = [],
            raw_error = Some OutOfGas \<rparr>
        else
          \<lparr> raw_success = True, raw_gas_used = used, raw_output = calldata, raw_storage_changes = [],
            raw_error = None \<rparr>)"

definition decrypt_calldata :: "bytes \<Rightarrow> bytes \<Rightarrow> bytes" where
  "decrypt_calldata encrypted contract_key = encrypted"

definition encrypt_output :: "bytes \<Rightarrow> bytes \<Rightarrow> bytes" where
  "encrypt_output d recipient_key = d"

definition encrypt_storage_changes ::
  "('p, 's) crates \<Rightarrow> (bytes \<times> bytes) list \<Rightarrow> bytes \<Rightarrow> storage_slot list" where
  "encrypt_storage_changes e changes contract_key =
     map (\<lambda>(k, v). \<lparr> slot_key = k, slot_encrypted_value = v,
                     slot_value_commitment = keccak256 e v \<rparr>) changes"

definition caller_key :: "('p, 's) crates \<Rightarrow> private_call \<Rightarrow> bytes" where
  "caller_key e c = keccak256 e (pc_caller_nullifier c)"

definition not_found :: "('p, 's) crates \<Rightarrow> bytes \<Rightarrow> execution_result" where
  "not_found e to =
     \<lparr> xr_success = False, xr_gas_used = 0, xr_encrypted_output = [], xr_storage_changes = [],
       xr_encrypted_events = [], xr_error = Some (ContractNotFound (ca_to_hex e to)) \<rparr>"

definition evm_get_contract :: "evm \<Rightarrow> bytes \<Rightarrow> contract option" where
  "evm_get_contract s addr = map_of (evm_contracts s) addr"

definition evm_call :: "('p, 's) crates \<Rightarrow> evm \<Rightarrow> private_call \<Rightarrow> execution_result \<times> evm" where
  "evm_call e s c =
     (case evm_get_contract s (pc_to c) of
        None \<Rightarrow> (not_found e (pc_to c), s)
      | Some ct \<Rightarrow>
          let calldata = decrypt_calldata (pc_encrypted_calldata c) (ct_encryption_pubkey ct);
              x = execute_bytecode (ct_bytecode ct) calldata (pc_gas_limit c) (ct_storage ct)
          in (\<lparr> xr_success = raw_success x,
                xr_gas_used = raw_gas_used x,
                xr_encrypted_output = encrypt_output (raw_output x) (caller_key e c),
                xr_storage_changes =
                  encrypt_storage_changes e (raw_storage_changes x) (ct_encryption_pubkey ct),
                xr_encrypted_events = [],
                xr_error = raw_error x \<rparr>, s))"

definition static_call :: "('p, 's) crates \<Rightarrow> evm \<Rightarrow> bytes \<Rightarrow> bytes \<Rightarrow> u64 \<Rightarrow> execution_result" where
  "static_call e s to calldata gas_lim =
     (case evm_get_contract s to of
        None \<Rightarrow> not_found e to
      | Some ct \<Rightarrow>
          let x = execute_bytecode (ct_bytecode ct) calldata gas_lim (ct_storage ct) in
          \<lparr> xr_success = raw_success x, xr_gas_used = raw_gas_used x,
            xr_encrypted_output = raw_output x, xr_storage_changes = [],
            xr_encrypted_events = [], xr_error = raw_error x \<rparr>)"

definition contract_count :: "evm \<Rightarrow> nat" where
  "contract_count s = length (evm_contracts s)"

definition advance_block :: "evm \<Rightarrow> u64 \<Rightarrow> i64 \<Rightarrow> evm" where
  "advance_block s height timestamp =
     s\<lparr> evm_block_height := height, evm_block_timestamp := timestamp \<rparr>"

section \<open>Histories of the executor\<close>

datatype evm_event =
    EvDeploy bytes bytes u64 bytes u64
  | EvCall private_call
  | EvStatic bytes bytes u64
  | EvAdvance u64 i64

fun evm_step :: "('p, 's) crates \<Rightarrow> evm \<Rightarrow> evm_event \<Rightarrow> evm" where
  "evm_step e s (EvDeploy code nullifier nonce args lim) = snd (evm_deploy e s code nullifier nonce args lim)"
| "evm_step e s (EvCall c) = snd (evm_call e s c)"
| "evm_step e s (EvStatic to calldata lim) = s"
| "evm_step e s (EvAdvance h t) = advance_block s h t"

text \<open>
  What every stored contract satisfies: it sits at the address derived from its deployer and some
  nonce, its code is not empty and hashes to its code hash, and it is still the contract of its
  deployment: empty storage, nonce zero, no balance.
\<close>

definition contract_ok :: "('p, 's) crates \<Rightarrow> bytes \<Rightarrow> contract \<Rightarrow> bool" where
  "contract_ok e a c \<longleftrightarrow>
     ct_address c = a \<and> (\<exists>n. a = from_deployer e (ct_deployer_nullifier c) n) \<and>
     ct_bytecode c \<noteq> [] \<and> ct_code_hash c = keccak256 e (ct_bytecode c) \<and>
     ct_storage c = [] \<and> ct_nonce c = 0 \<and> ct_balance_commitment c = zeros 32"

definition evm_inv :: "('p, 's) crates \<Rightarrow> evm \<Rightarrow> bool" where
  "evm_inv e s \<longleftrightarrow> table_ok (contract_ok e) (evm_contracts s)"

lemma contract_new_ok:
  "code \<noteq> [] \<Longrightarrow> contract_ok e (ct_address (contract_new e code n k h)) (contract_new e code n k h)"
  by (auto simp: contract_ok_def contract_new_def Let_def)

lemma snd_evm_call [simp]: "snd (evm_call e s c) = s"
  by (simp add: evm_call_def Let_def split: option.split)

lemma evm_deploy_inv: "evm_inv e s \<Longrightarrow> evm_inv e (snd (evm_deploy e s code n k args lim))"
  by (simp add: evm_inv_def evm_deploy_def Let_def table_ok_update contract_new_ok)

interpretation evm: inv_machine "evm_step e" "\<lambda>_ _. True" "evm_inv e" for e :: "('p, 's) crates"
proof unfold_locales
  fix s ev
  assume "evm_inv e s"
  then show "evm_inv e (evm_step e s ev)"
    by (cases ev) (simp_all add: evm_deploy_inv, simp add: evm_inv_def advance_block_def)
qed

lemma evm_new_inv: "evm_inv e (evm_new h t)"
  by (simp add: evm_inv_def evm_new_def)

lemma evm_reachable_contract:
  "evm_get_contract (run (evm_step e) (evm_new h t) es) a = Some c \<Longrightarrow> contract_ok e a c"
  using evm.run_inv [OF evm_new_inv, of e h t es]
  by (auto simp: evm_inv_def evm_get_contract_def intro: table_ok_get)

lemma execute_bytecode_cases:
  "code \<noteq> [] \<Longrightarrow> execute_bytecode code d lim st =
     (let used = estimate_call_gas d in
      if used \<le> lim
      then \<lparr> raw_success = True, raw_gas_used = used, raw_output = d, raw_storage_changes = [], raw_error = None \<rparr>
      else \<lparr> raw_success = False, raw_gas_used = lim, raw_output = [], raw_storage_changes = [],
             raw_error = Some OutOfGas \<rparr>)"
  by (auto simp: execute_bytecode_def estimate_call_gas_def Let_def)

text \<open>
  Whatever history of deployments, calls and blocks an executor has seen, a call to one of
  its contracts succeeds exactly when the caller's gas limit covers \<open>estimate_call_gas\<close>; it then
  costs the estimate and returns the calldata, otherwise it costs the whole limit and returns
  \<open>OutOfGas\<close> and nothing else. In particular the gas charged never exceeds the limit. A call to an
  unknown address costs nothing. No call changes the executor, and a static call returns the same
  result.
\<close>

theorem evm_call_exact:
  assumes "s = run (evm_step e) (evm_new h t) es"
  shows "snd (evm_call e s c) = s \<and>
    static_call e s (pc_to c) (pc_encrypted_calldata c) (pc_gas_limit c) = fst (evm_call e s c) \<and>
    fst (evm_call e s c) =
      (if evm_get_contract s (pc_to c) = None then not_found e (pc_to c)
       else if estimate_call_gas (pc_encrypted_calldata c) \<le> pc_gas_limit c
       then \<lparr> xr_success = True, xr_gas_used = estimate_call_gas (pc_encrypted_calldata c),
              xr_encrypted_output = pc_encrypted_calldata c, xr_storage_changes = [],
              xr_encrypted_events = [], xr_error = None \<rparr>
       else \<lparr> xr_success = False, xr_gas_used = pc_gas_limit c,
              xr_encrypted_output = [], xr_storage_changes = [],
              xr_encrypted_events = [], xr_error = Some OutOfGas \<rparr>)"
proof (cases "evm_get_contract s (pc_to c)")
  case None
  then show ?thesis by (simp add: evm_call_def static_call_def)
next
  case (Some ct)
  with assms have "ct_bytecode ct \<noteq> []"
    using evm_reachable_contract by (fastforce simp: contract_ok_def)
  with Some show ?thesis
    by (simp add: evm_call_def static_call_def Let_def execute_bytecode_cases decrypt_calldata_def
        encrypt_output_def encrypt_storage_changes_def)
qed

theorem evm_call_exact_witness:
  "\<exists>s. s = run (evm_step demo) (evm_new 1 2) [EvDeploy [96, 66] (zeros 32) 0 [] 100000, EvAdvance 2 9] \<and>
     evm_get_contract s (from_deployer demo (zeros 32) 0) \<noteq> None \<and>
     fst (evm_call demo s \<lparr> pc_to = from_deployer demo (zeros 32) 0, pc_encrypted_calldata = [1, 2],
         pc_gas_limit = 30000, pc_value_commitment = zeros 32, pc_caller_nullifier = zeros 32,
         pc_balance_proof = [] \<rparr>)
       = \<lparr> xr_success = True, xr_gas_used = 21032, xr_encrypted_output = [1, 2],
           xr_storage_changes = [], xr_encrypted_events = [], xr_error = None \<rparr>"
proof -
  let ?s = "run (evm_step demo) (evm_new 1 2) [EvDeploy [96, 66] (zeros 32) 0 [] 100000, EvAdvance 2 9]"
  let ?c = "\<lparr> pc_to = from_deployer demo (zeros 32) 0, pc_encrypted_calldata = [1, 2],
         pc_gas_limit = 30000, pc_value_commitment = zeros 32, pc_caller_nullifier = zeros 32,
         pc_balance_proof = [] \<rparr>"
  have g: "evm_get_contract ?s (from_deployer demo (zeros 32) 0) \<noteq> None"
    by (simp add: evm_get_contract_def evm_deploy_def estimate_deploy_gas_def evm_new_def
        contract_new_def advance_block_def Let_def del: demo_simps)
  show ?thesis
    by (intro exI [of _ ?s] conjI refl g,
        subst evm_call_exact [OF refl, of demo 1 2 _ ?c, THEN conjunct2, THEN conjunct2])
      (use g in \<open>auto simp: estimate_call_gas_def\<close>)
qed

text \<open>
  C39. After any history every contract of the executor is stored once, at the address derived
  from its deployer and some deployment nonce, with code that is not empty and hashes to its code
  hash, and it is unchanged since its deployment: its storage is empty and its call counter is
  zero, however often it was called.
\<close>

theorem evm_contracts_frozen:
  assumes "s = run (evm_step e) (evm_new h t) es"
  shows "distinct (map fst (evm_contracts s)) \<and>
    (\<forall>a c. evm_get_contract s a = Some c \<longrightarrow>
       ct_address c = a \<and> (\<exists>n. a = from_deployer e (ct_deployer_nullifier c) n) \<and>
       ct_bytecode c \<noteq> [] \<and> ct_code_hash c = keccak256 e (ct_bytecode c) \<and>
       slot_count (ct_storage c) = 0 \<and> ct_nonce c = 0)"
proof (intro conjI allI impI)
  show "distinct (map fst (evm_contracts s))"
    using evm.run_inv [OF evm_new_inv, of e h t es] assms by (simp add: evm_inv_def table_ok_def)
next
  fix a c
  assume "evm_get_contract s a = Some c"
  then have "contract_ok e a c" using assms evm_reachable_contract by blast
  then show "ct_address c = a" "\<exists>n. a = from_deployer e (ct_deployer_nullifier c) n"
    "ct_bytecode c \<noteq> []" "ct_code_hash c = keccak256 e (ct_bytecode c)"
    "slot_count (ct_storage c) = 0" "ct_nonce c = 0"
    by (auto simp: contract_ok_def slot_count_def)
qed

theorem evm_contracts_frozen_witness:
  "\<exists>s c. s = run (evm_step demo) (evm_new 1 2) [EvDeploy [96, 66] (zeros 32) 0 [] 100000] \<and>
     evm_get_contract s (from_deployer demo (zeros 32) 0) = Some c \<and> slot_count (ct_storage c) = 0 \<and> ct_nonce c = 0"
proof -
  let ?s = "run (evm_step demo) (evm_new 1 2) [EvDeploy [96, 66] (zeros 32) 0 [] 100000]"
  obtain c where "evm_get_contract ?s (from_deployer demo (zeros 32) 0) = Some c"
    by (simp add: evm_get_contract_def evm_deploy_def estimate_deploy_gas_def evm_new_def
        contract_new_def Let_def del: demo_simps)
  with evm_contracts_frozen [OF refl, of demo 1 2 "[EvDeploy [96, 66] (zeros 32) 0 [] 100000]"]
  show ?thesis by blast
qed

text \<open>
  Deployment on every branch: empty code and a gas limit below the estimate are refused and
  leave the executor alone; otherwise the contract is stored at the address of the deployer and
  the nonce it names, no other contract changes, and a contract that was already at that address
  is replaced, so the number of contracts does not grow then.
\<close>

theorem evm_deploy_exact:
  "evm_deploy e s code nullifier nonce args lim =
     (if code = [] then (Inl InvalidBytecode, s)
      else if \<not> estimate_deploy_gas code \<le> lim then (Inl OutOfGas, s)
      else (Inr \<lparr> dr_address = from_deployer e nullifier nonce, dr_code_hash = keccak256 e code,
                  dr_encryption_pubkey = ct_encryption_pubkey
                    (contract_new e code nullifier nonce (evm_block_height s)),
                  dr_gas_used = estimate_deploy_gas code \<rparr>,
            snd (evm_deploy e s code nullifier nonce args lim)))
   \<and> (code \<noteq> [] \<and> estimate_deploy_gas code \<le> lim \<longrightarrow>
      (let s' = snd (evm_deploy e s code nullifier nonce args lim); a = from_deployer e nullifier nonce in
       evm_get_contract s' =
         (evm_get_contract s)(a \<mapsto> contract_new e code nullifier nonce (evm_block_height s))
       \<and> contract_count s' =
           contract_count s + (if evm_get_contract s a = None then 1 else 0)))"
proof -
  have len: "length (AList.update k v st) = length st + (if map_of st k = None then 1 else 0)"
    for k :: bytes and v :: contract and st
    by (induction st) auto
  show ?thesis
    by (auto simp: evm_deploy_def Let_def contract_new_def evm_get_contract_def contract_count_def
        fun_eq_iff update_conv' len)
qed

theorem evm_deploy_exact_witness:
  "let s = evm_new 5 6; s' = snd (evm_deploy demo s [96] (zeros 32) 3 [] 53200) in
     evm_get_contract s' = (evm_get_contract s)(from_deployer demo (zeros 32) 3 \<mapsto>
       contract_new demo [96] (zeros 32) 3 (evm_block_height s))
     \<and> contract_count s' = contract_count s + (if evm_get_contract s (from_deployer demo (zeros 32) 3) = None then 1 else 0)"
  using evm_deploy_exact [of demo "evm_new 5 6" "[96]" "zeros 32" 3 "[]" 53200]
  by (simp add: estimate_deploy_gas_def Let_def del: demo_simps)

end
