(* ===== verification/PrivState.thy ===== *)
theory PrivState
  imports Evm Merkle "HOL-Library.List_Lexorder" "HOL-Library.Multiset"
begin

text \<open>
  \<open>src/src/evm/private_state.rs\<close>: the encryption of storage slots, the state root of a contract
  and the global state. A \<open>HashMap\<close> is iterated in an order of its own, which is the order of the
  association list here; the code sorts the entries before it hashes them.
\<close>

unbundle bit_operations_syntax

section \<open>Slot encryption\<close>

definition slot_keystream :: "('p, 's) crates \<Rightarrow> bytes \<Rightarrow> bytes \<Rightarrow> bytes" where
  "slot_keystream e contract_key skey =
     sha3_256 e (str_bytes ''CipherX_state_enc'' @ contract_key @ skey)"

definition xor_bytes :: "bytes \<Rightarrow> bytes \<Rightarrow> bytes" where
  "xor_bytes xs ys = map2 (XOR) xs ys"

definition encrypt_slot :: "('p, 's) crates \<Rightarrow> bytes \<Rightarrow> bytes \<Rightarrow> bytes \<Rightarrow> bytes" where
  "encrypt_slot e v contract_key skey =
     (let ks = slot_keystream e contract_key skey in
      map (\<lambda>i. v ! i XOR ks ! i) [0..<32] @ take 16 ks)"

definition decrypt_slot :: "('p, 's) crates \<Rightarrow> bytes \<Rightarrow> bytes \<Rightarrow> bytes \<Rightarrow> bytes option" where
  "decrypt_slot e encrypted contract_key skey =
     (if length encrypted < 48 then None
      else
        let ks = slot_keystream e contract_key skey in
        if take 16 ks \<noteq> subslice 32 48 encrypted then None
        else Some (map (\<lambda>i. encrypted ! i XOR ks ! i) [0..<32]))"

lemma length_encrypt_slot:
  "length (slot_keystream e ck sk) = 32 \<Longrightarrow> length (encrypt_slot e v ck sk) = 48"
  by (simp add: encrypt_slot_def Let_def)

lemma nth_encrypt_slot: "i < 32 \<Longrightarrow> encrypt_slot e v ck sk ! i = v ! i XOR slot_keystream e ck sk ! i"
  by (simp add: encrypt_slot_def Let_def nth_append)

lemma xor_twice: "(a XOR b) XOR b = (a :: 'w::len word)"
  by (simp add: xor.assoc)

text \<open>Decryption of any 32 bytes followed by the slot's tag.\<close>

lemma decrypt_slot_tagged:
  assumes "length c = 32" "length (slot_keystream e ck sk) = 32"
  shows "decrypt_slot e (c @ take 16 (slot_keystream e ck sk)) ck sk =
    Some (map (\<lambda>i. c ! i XOR slot_keystream e ck sk ! i) [0..<32])"
  using assms by (simp add: decrypt_slot_def Let_def subslice_def nth_append)

lemma encrypt_slot_tagged:
  "encrypt_slot e v ck sk =
     map (\<lambda>i. v ! i XOR slot_keystream e ck sk ! i) [0..<32] @ take 16 (slot_keystream e ck sk)"
  by (simp add: encrypt_slot_def Let_def)

text \<open>
  A stored value is read back: the encryption of a 32-byte value is 48 bytes long and
  decrypts, under the same contract key and slot key, to the value.
\<close>

theorem slot_roundtrip:
  assumes "\<forall>bs. length (sha3_256 e bs) = 32" "length v = 32"
  shows "length (encrypt_slot e v ck sk) = 48 \<and> decrypt_slot e (encrypt_slot e v ck sk) ck sk = Some v"
proof -
  have ks: "length (slot_keystream e ck sk) = 32" using assms(1) by (simp add: slot_keystream_def)
  then show ?thesis
    using assms(2)
    by (simp add: length_encrypt_slot encrypt_slot_tagged decrypt_slot_tagged xor_twice map_nth
        cong: map_cong) (simp add: list_eq_iff_nth_eq xor_twice xor.assoc)
qed

theorem slot_roundtrip_witness:
  "length (encrypt_slot demo (zeros 31 @ [42]) [171] [1]) = 48 \<and>
   decrypt_slot demo (encrypt_slot demo (zeros 31 @ [42]) [171] [1]) [171] [1] = Some (zeros 31 @ [42])"
  by (rule slot_roundtrip) simp_all

text \<open>
  C40. The cipher does not keep what it promises. Without any key, the first half of the stored
  value is the XOR of the first 16 bytes of the record with its last 16 bytes, because the tag is
  the keystream; and every 32 bytes in front of that tag decrypt, so a changed record is accepted
  and the change shows in the plaintext bit by bit.
\<close>

theorem slot_cipher_broken:
  assumes "\<forall>bs. length (sha3_256 e bs) = 32" "length v = 32" "length d = 32"
  shows "map2 (XOR) (take 16 (encrypt_slot e v ck sk)) (drop 32 (encrypt_slot e v ck sk)) = take 16 v \<and>
    decrypt_slot e (map2 (XOR) (take 32 (encrypt_slot e v ck sk)) d @ drop 32 (encrypt_slot e v ck sk)) ck sk
      = Some (map2 (XOR) v d)"
proof
  have ks: "length (slot_keystream e ck sk) = 32" using assms(1) by (simp add: slot_keystream_def)
  have tag: "drop 32 (encrypt_slot e v ck sk) = take 16 (slot_keystream e ck sk)"
    by (simp add: encrypt_slot_tagged)
  show "map2 (XOR) (take 16 (encrypt_slot e v ck sk)) (drop 32 (encrypt_slot e v ck sk)) = take 16 v"
    by (rule nth_equalityI)
      (use ks assms(2) length_encrypt_slot [OF ks, of v] in
        \<open>auto simp: tag nth_encrypt_slot xor_twice\<close>)
  let ?c = "map2 (XOR) (take 32 (encrypt_slot e v ck sk)) d"
  have "length ?c = 32" using ks assms(3) length_encrypt_slot [OF ks, of v] by simp
  then have "decrypt_slot e (?c @ drop 32 (encrypt_slot e v ck sk)) ck sk =
      Some (map (\<lambda>i. ?c ! i XOR slot_keystream e ck sk ! i) [0..<32])"
    using ks by (simp only: tag decrypt_slot_tagged)
  also have "map (\<lambda>i. ?c ! i XOR slot_keystream e ck sk ! i) [0..<32] = map2 (XOR) v d"
    by (rule nth_equalityI)
      (use ks assms(2,3) length_encrypt_slot [OF ks, of v] in
        \<open>auto simp: nth_encrypt_slot xor.assoc xor.commute xor.left_commute\<close>)
  finally show "decrypt_slot e (?c @ drop 32 (encrypt_slot e v ck sk)) ck sk = Some (map2 (XOR) v d)" .
qed

theorem slot_cipher_broken_witness:
  "map2 (XOR) (take 16 (encrypt_slot demo (42 # zeros 31) [171] [1]))
      (drop 32 (encrypt_slot demo (42 # zeros 31) [171] [1])) = take 16 (42 # zeros 31) \<and>
    decrypt_slot demo (map2 (XOR) (take 32 (encrypt_slot demo (42 # zeros 31) [171] [1])) (1 # zeros 31)
      @ drop 32 (encrypt_slot demo (42 # zeros 31) [171] [1])) [171] [1]
      = Some (map2 (XOR) (42 # zeros 31) (1 # zeros 31))"
  by (rule slot_cipher_broken) simp_all

section \<open>State roots\<close>

definition state_root_zero :: bytes where
  "state_root_zero = zeros 32"

definition state_root_to_hex :: "('p, 's) crates \<Rightarrow> bytes \<Rightarrow> string" where
  "state_root_to_hex e root = hex_encode e root"

definition sorted_entries :: "('k::linorder \<times> 'v) list \<Rightarrow> ('k \<times> 'v) list" where
  "sorted_entries st = sort_key fst st"

fun leaf_bytes :: "bytes \<times> storage_slot \<Rightarrow> bytes" where
  "leaf_bytes (k, slot) = k @ slot_encrypted_value slot @ slot_value_commitment slot"

definition state_leaf :: "('p, 's) crates \<Rightarrow> bytes \<times> storage_slot \<Rightarrow> bytes" where
  "state_leaf e entry = keccak256 e (leaf_bytes entry)"

definition state_node :: "('p, 's) crates \<Rightarrow> bytes \<Rightarrow> bytes \<Rightarrow> bytes" where
  "state_node e l r = keccak256 e (l @ r)"

definition compute_state_root :: "('p, 's) crates \<Rightarrow> contract_storage \<Rightarrow> bytes" where
  "compute_state_root e st =
     (if st = [] then state_root_zero
      else hd (merkle_root (state_node e) (map (state_leaf e) (sorted_entries st))))"

record state_proof =
  sp_slot_key :: bytes
  sp_value_commitment :: bytes
  sp_siblings :: "bytes list"
  sp_state_root :: bytes

definition generate_state_proof ::
  "('p, 's) crates \<Rightarrow> contract_storage \<Rightarrow> bytes \<Rightarrow> state_proof option" where
  "generate_state_proof e st skey =
     (case cs_get st skey of
        None \<Rightarrow> None
      | Some slot \<Rightarrow>
          let root = compute_state_root e st in
          Some \<lparr> sp_slot_key = skey, sp_value_commitment = slot_value_commitment slot,
                 sp_siblings = [], sp_state_root = root \<rparr>)"

definition verify_state_proof :: "state_proof \<Rightarrow> bool" where
  "verify_state_proof p \<longleftrightarrow> length (sp_siblings p) < 64"

section \<open>The global state\<close>

record global_state =
  contract_roots :: "(bytes \<times> bytes) list"
  account_roots :: "(bytes \<times> bytes) list"

definition gs_new :: global_state where
  "gs_new = \<lparr> contract_roots = [], account_roots = [] \<rparr>"

definition update_contract :: "global_state \<Rightarrow> bytes \<Rightarrow> bytes \<Rightarrow> global_state" where
  "update_contract s addr root = s\<lparr> contract_roots := AList.update addr root (contract_roots s) \<rparr>"

definition get_contract_root :: "global_state \<Rightarrow> bytes \<Rightarrow> bytes option" where
  "get_contract_root s addr = map_of (contract_roots s) addr"

definition gs_root :: "('p, 's) crates \<Rightarrow> global_state \<Rightarrow> bytes" where
  "gs_root e s =
     (if contract_roots s = [] then state_root_zero
      else keccak256 e (concat (map (\<lambda>(addr, root). addr @ root) (sorted_entries (contract_roots s)))))"

section \<open>The roots do not depend on the iteration order\<close>

lemma sorted_entries_eqI:
  assumes "distinct (map fst st)" "distinct (map fst st')" "map_of st = map_of st'"
  shows "sorted_entries st = sorted_entries st'"
proof -
  have "set st = set st'" using assms by (metis map_of_inject_set)
  then have "mset st = mset st'"
    using assms(1,2) by (simp add: set_eq_iff_mset_eq_distinct distinct_map)
  moreover have "mset (sorted_entries st') = mset st'" "sorted (map fst (sorted_entries st'))"
    by (simp_all add: sorted_entries_def)
  ultimately show ?thesis
    unfolding sorted_entries_def
    by (intro sort_key_inj_key_eq) (use assms(1) in \<open>auto simp: distinct_map\<close>)
qed

lemma map_of_sorted_entries: "distinct (map fst st) \<Longrightarrow> map_of (sorted_entries st) = map_of st"
proof -
  assume d: "distinct (map fst st)"
  have "mset (map fst (sorted_entries st)) = mset (map fst st)"
    by (simp add: sorted_entries_def)
  then have "distinct (map fst (sorted_entries st))"
    using d by (metis mset_eq_imp_distinct_iff)
  then show ?thesis
    using d by (simp add: map_of_inject_set) (simp add: sorted_entries_def)
qed

lemma leaf_bytes_inject:
  assumes "length (fst x) = 32" "length (fst y) = 32" "slot_key (snd x) = fst x" "slot_key (snd y) = fst y"
    and "length (slot_value_commitment (snd x)) = 32" "length (slot_value_commitment (snd y)) = 32"
    and "leaf_bytes x = leaf_bytes y"
  shows "x = y"
  using assms by (cases x; cases y) auto

text \<open>Storage of 32-byte keys and commitments, as the types of the code say.\<close>

definition storage_sized :: "contract_storage \<Rightarrow> bool" where
  "storage_sized st \<longleftrightarrow> (\<forall>(k, slot)\<in>set st. length k = 32 \<and> length (slot_value_commitment slot) = 32)"

text \<open>
  The state root is a commitment to the storage. It is determined by the slots, whatever
  the order in which the hash map yields them; and two storages with the same number of slots and
  the same root hold the same slots, as long as the hash does not collide on the leaves and on the
  pairs of nodes that the two roots are computed from.
\<close>

theorem state_root_commits:
  assumes "storage_ok st" "storage_ok st'" "storage_sized st" "storage_sized st'"
  shows "(cs_get st = cs_get st' \<longrightarrow> compute_state_root e st = compute_state_root e st') \<and>
    (slot_count st = slot_count st' \<and> compute_state_root e st = compute_state_root e st' \<and>
     inj_on (keccak256 e) (leaf_bytes ` (set st \<union> set st')) \<and>
     inj_on (case_prod (state_node e))
       (set (tree_pairs (state_node e) (map (state_leaf e) (sorted_entries st))) \<union>
        set (tree_pairs (state_node e) (map (state_leaf e) (sorted_entries st')))) \<longrightarrow>
     cs_get st = cs_get st')"
proof (intro conjI impI)
  have d: "distinct (map fst st)" "distinct (map fst st')"
    using assms(1,2) by (simp_all add: storage_ok_def table_ok_def)
  assume "cs_get st = cs_get st'"
  then have eq: "map_of st = map_of st'" by (simp add: cs_get_def fun_eq_iff)
  then have "st = [] \<longleftrightarrow> st' = []" by (metis map_of.simps(1) map_of_eq_empty_iff)
  then show "compute_state_root e st = compute_state_root e st'"
    using sorted_entries_eqI [OF d eq] by (simp add: compute_state_root_def)
next
  have d: "distinct (map fst st)" "distinct (map fst st')"
    using assms(1,2) by (simp_all add: storage_ok_def table_ok_def)
  have set_sorted: "set (sorted_entries xs) = set xs" for xs :: contract_storage
    by (simp add: sorted_entries_def)
  assume A: "slot_count st = slot_count st' \<and> compute_state_root e st = compute_state_root e st' \<and>
     inj_on (keccak256 e) (leaf_bytes ` (set st \<union> set st')) \<and>
     inj_on (case_prod (state_node e))
       (set (tree_pairs (state_node e) (map (state_leaf e) (sorted_entries st))) \<union>
        set (tree_pairs (state_node e) (map (state_leaf e) (sorted_entries st'))))"
  show "cs_get st = cs_get st'"
  proof (cases "st = []")
    case False
    moreover have "set (sorted_entries st) = set st" by (rule set_sorted)
    ultimately have ne: "st' \<noteq> []" "sorted_entries st \<noteq> []"
      using A by (auto simp: slot_count_def)
    have "map (state_leaf e) (sorted_entries st) = map (state_leaf e) (sorted_entries st')"
      using A False ne
      by (intro hd_merkle_root_inject [where node = "state_node e"])
        (simp_all add: compute_state_root_def slot_count_def sorted_entries_def)
    moreover have "inj_on (state_leaf e) (set (sorted_entries st) \<union> set (sorted_entries st'))"
    proof (rule inj_onI)
      fix x y
      assume x: "x \<in> set (sorted_entries st) \<union> set (sorted_entries st')"
        and y: "y \<in> set (sorted_entries st) \<union> set (sorted_entries st')"
        and "state_leaf e x = state_leaf e y"
      then have "leaf_bytes x = leaf_bytes y"
        using A by (auto simp: state_leaf_def set_sorted dest: inj_onD)
      moreover have fits: "length (fst z) = 32 \<and> slot_key (snd z) = fst z \<and>
          length (slot_value_commitment (snd z)) = 32" if "z \<in> set st \<union> set st'" for z
        using that assms by (auto simp: storage_ok_def table_ok_def storage_sized_def)
      moreover have "x \<in> set st \<union> set st'" "y \<in> set st \<union> set st'"
        using x y by (simp_all only: set_sorted)
      ultimately show "x = y" by (intro leaf_bytes_inject) (simp_all only: fits)
    qed
    ultimately have "sorted_entries st = sorted_entries st'" by (rule map_inj_on)
    then have "map_of st = map_of st'"
      using map_of_sorted_entries [OF d(1)] map_of_sorted_entries [OF d(2)] by simp
    then show ?thesis by (simp add: cs_get_def fun_eq_iff)
  qed (use A in \<open>simp add: slot_count_def\<close>)
qed

text \<open>A storage with three slots, inserted in two different orders.\<close>

definition demo_slot :: "u8 \<Rightarrow> storage_slot" where
  "demo_slot i = \<lparr> slot_key = i # zeros 31, slot_encrypted_value = [i, 9], slot_value_commitment = i # zeros 31 \<rparr>"

definition demo_storage :: "u8 list \<Rightarrow> contract_storage" where
  "demo_storage ks = fold (\<lambda>k st. cs_insert st (demo_slot k)) ks []"

theorem state_root_commits_witness:
  "compute_state_root demo (demo_storage [1, 2, 3]) = compute_state_root demo (demo_storage [3, 1, 2])
   \<and> demo_storage [1, 2, 3] \<noteq> demo_storage [3, 1, 2]"
proof
  have ok: "storage_ok (demo_storage ks)" for ks
  proof -
    have "storage_ok st \<Longrightarrow> storage_ok (fold (\<lambda>k st. cs_insert st (demo_slot k)) ks st)" for st
      by (induction ks arbitrary: st) (auto intro: storage_ok_insert)
    then show ?thesis by (simp add: demo_storage_def storage_ok_def)
  qed
  have eval: "demo_storage [1, 2, 3] = [(1 # zeros 31, demo_slot 1), (2 # zeros 31, demo_slot 2), (3 # zeros 31, demo_slot 3)]"
    "demo_storage [3, 1, 2] = [(3 # zeros 31, demo_slot 3), (1 # zeros 31, demo_slot 1), (2 # zeros 31, demo_slot 2)]"
    by (simp_all add: demo_storage_def cs_insert_def demo_slot_def)
  have "cs_get (demo_storage [1, 2, 3]) = cs_get (demo_storage [3, 1, 2])"
    by (auto simp: eval cs_get_def fun_eq_iff)
  moreover have "storage_sized (demo_storage [1, 2, 3])" "storage_sized (demo_storage [3, 1, 2])"
    by (simp_all add: eval storage_sized_def demo_slot_def)
  ultimately show "compute_state_root demo (demo_storage [1, 2, 3]) = compute_state_root demo (demo_storage [3, 1, 2])"
    using state_root_commits [OF ok ok, of "[1, 2, 3]" "[3, 1, 2]" demo] by blast
  show "demo_storage [1, 2, 3] \<noteq> demo_storage [3, 1, 2]" by (simp add: eval)
qed

section \<open>Facts of the global state\<close>

lemma get_update_contract: "get_contract_root (update_contract s a r) = (get_contract_root s)(a \<mapsto> r)"
  by (simp add: fun_eq_iff get_contract_root_def update_contract_def update_conv')

lemma gs_root_order:
  assumes "distinct (map fst (contract_roots s))" "distinct (map fst (contract_roots s'))"
    and "get_contract_root s = get_contract_root s'"
  shows "gs_root e s = gs_root e s'"
proof -
  have eq: "map_of (contract_roots s) = map_of (contract_roots s')"
    using assms(3) by (simp add: get_contract_root_def fun_eq_iff)
  then have "contract_roots s = [] \<longleftrightarrow> contract_roots s' = []" by (metis map_of.simps(1) map_of_eq_empty_iff)
  then show ?thesis using sorted_entries_eqI [OF assms(1,2) eq] by (simp add: gs_root_def)
qed

text \<open>A proof generated for a stored slot is accepted, and so is any other with few siblings.\<close>

lemma generated_proof_verifies:
  "cs_get st k = Some slot \<Longrightarrow>
   \<exists>p. generate_state_proof e st k = Some p \<and> verify_state_proof p \<and>
       sp_value_commitment p = slot_value_commitment slot \<and> sp_state_root p = compute_state_root e st"
  by (simp add: generate_state_proof_def verify_state_proof_def)

lemma forged_proof_verifies:
  "verify_state_proof \<lparr> sp_slot_key = k, sp_value_commitment = c, sp_siblings = [], sp_state_root = r \<rparr>"
  by (simp add: verify_state_proof_def)

end
