(* ===== verification/ChainGaps.thy ===== *)
theory ChainGaps
  imports ChainHistory
begin

text \<open>
  What the acceptance condition leaves open, as theorems about \<open>append_block\<close> on an arbitrary chain:
  value can be created through the fee commitment, outputs can be frozen through an unsigned
  transaction that names their key image, and spent outputs stay in the output set.
\<close>

text \<open>
  C24. Value from nothing: on every chain and for every 64-bit amount there is a block that the
  chain accepts although its only transaction, an ordinary transfer, has no input at all and an
  output that commits to that amount with a valid range proof. The transaction balances because
  its fee commitment opens to the negative amount, and nothing asks for a range proof of the fee.
\<close>

theorem chain_accepts_unbacked_transfer:
  assumes "dalek_laws e" "\<forall>bs. length (sha3_256 e bs) = 32"
  shows "\<exists>b tx out. fst (append_block e R [0] c b) = Inr () \<and> transactions b = [tx] \<and>
    tx_type tx = Transfer \<and> inputs tx = [] \<and> outputs tx = [out] \<and>
    commit e v (scalar_to_bytes e r) = Some (amount_commitment out) \<and>
    verify_range e (amount_commitment out) (range_proof out)"
proof -
  obtain tx out where tx: "tx_type tx = Transfer" "inputs tx = []" "outputs tx = [out]"
    "commit e v (scalar_to_bytes e r) = Some (amount_commitment out)"
    "verify_range e (amount_commitment out) (range_proof out)" "tx_verify e tx"
    using unbacked_transfer_exists [OF assms] by blast
  have "append_block e R [0] c (next_block c tx) =
      (Inr (), with_store e R (next_block c tx) (extend_chain e (next_block c tx) c))"
    using tx by (intro next_block_accepted) (simp_all add: key_images_def tx_acceptable_def)
  then show ?thesis
    using tx by (intro exI [of _ "next_block c tx"] exI [of _ tx] exI [of _ out]) (simp add: next_block_def)
qed

theorem chain_accepts_unbacked_transfer_witness:
  "\<exists>b tx out. fst (append_block demo mem_rocks [0] (chain_new demo 9) b) = Inr () \<and> transactions b = [tx] \<and>
    tx_type tx = Transfer \<and> inputs tx = [] \<and> outputs tx = [out] \<and>
    commit demo 1000000000000 (scalar_to_bytes demo Z2) = Some (amount_commitment out) \<and>
    verify_range demo (amount_commitment out) (range_proof out)"
  by (rule chain_accepts_unbacked_transfer [OF demo_dalek]) simp

text \<open>An input that names a key image and proves nothing.\<close>

definition bare_input :: "key_image_bytes \<Rightarrow> ring_input" where
  "bare_input k = \<lparr> ring_members = [], key_image = k, ring_signature = [], pseudo_commitment = zeros 32 \<rparr>"

definition freezing_tx :: "key_image_bytes \<Rightarrow> transaction" where
  "freezing_tx k = (coinbase_placeholder 0)\<lparr>tx_type := Lite, inputs := [bare_input k], outputs := []\<rparr>"

text \<open>
  Anyone can freeze an output: on every chain and for every key image not yet spent there is a
  lite transaction without ring and without signature that names it, the mempool's and the chain's
  verification pass, the block holding it is accepted, and from then on every transaction that
  spends the key image is refused as a double spend.
\<close>

theorem lite_transaction_freezes_key_image:
  assumes "k \<notin> spent_key_images c"
  shows "\<exists>b tx. transactions b = [tx] \<and> tx_type tx = Lite \<and> key_images tx = [k] \<and>
    list_all (\<lambda>i. ring_members i = [] \<and> ring_signature i = []) (inputs tx) \<and> tx_verify e tx \<and>
    fst (append_block e R [0] c b) = Inr () \<and>
    (\<forall>tx'. k \<in> set (key_images tx') \<longrightarrow>
       (\<exists>k'. validate_transaction e (snd (append_block e R [0] c b)) tx' = Inl (DoubleSpend k')))"
proof -
  let ?tx = "freezing_tx k"
  let ?b = "next_block c ?tx"
  have tx: "tx_type ?tx = Lite" "key_images ?tx = [k]" "tx_verify e ?tx"
    "list_all (\<lambda>i. ring_members i = [] \<and> ring_signature i = []) (inputs ?tx)"
    by (simp_all add: freezing_tx_def key_images_def bare_input_def tx_verify_def)
  have app: "append_block e R [0] c ?b = (Inr (), with_store e R ?b (extend_chain e ?b c))"
    using tx assms by (intro next_block_accepted) (simp_all add: tx_acceptable_def)
  have spent: "k \<in> spent_key_images (with_store e R ?b (extend_chain e ?b c))"
    using tx by (simp add: extend_spent block_key_images_def next_block_def)
  have "\<exists>k'. validate_transaction e c' tx' = Inl (DoubleSpend k')"
    if "k \<in> set (key_images tx')" "k \<in> spent_key_images c'" for c' :: "'a chain" and tx'
    using that by (auto simp: validate_transaction_def key_images_def find_None_iff split: option.splits)
  then show ?thesis
    using tx app spent by (intro exI [of _ ?b] exI [of _ ?tx]) (auto simp: next_block_def)
qed

theorem lite_transaction_freezes_key_image_witness:
  "\<exists>b tx. transactions b = [tx] \<and> tx_type tx = Lite \<and> key_images tx = [zeros 32] \<and>
    list_all (\<lambda>i. ring_members i = [] \<and> ring_signature i = []) (inputs tx) \<and> tx_verify demo tx \<and>
    fst (append_block demo mem_rocks [0] (chain_new demo 9) b) = Inr () \<and>
    (\<forall>tx'. zeros 32 \<in> set (key_images tx') \<longrightarrow>
       (\<exists>k'. validate_transaction demo (snd (append_block demo mem_rocks [0] (chain_new demo 9) b)) tx'
          = Inl (DoubleSpend k')))"
  by (rule lite_transaction_freezes_key_image) (simp add: chain_new_def Let_def)

lemma run_ok_fair: "fair_arrivals evs \<Longrightarrow> run_ok (chain_step e R) fair_step c evs"
  by (induction evs arbitrary: c) (auto simp: fair_arrivals_def fair_step_def)

text \<open>
  The chain's memory only grows: along every run of appends no key image is ever forgotten, no
  entry of the output set ever disappears (the set described as that of the unspent outputs keeps
  the spent ones, too), and the supply stays within its cap.
\<close>

theorem chain_memory_grows:
  assumes "fair_arrivals evs" "supply_capped c"
  shows "spent_key_images c \<subseteq> spent_key_images (run (chain_step e R) c evs) \<and>
    dom (utxo_set c) \<subseteq> dom (utxo_set (run (chain_step e R) c evs)) \<and>
    supply_capped (run (chain_step e R) c evs)"
  using spent_machine.run_mono [OF assms(2) run_ok_fair [OF assms(1)]]
    utxo_machine.run_mono [OF assms(2) run_ok_fair [OF assms(1)]]
    spent_machine.run_inv [OF assms(2) run_ok_fair [OF assms(1)]]
  by blast

theorem chain_memory_grows_witness:
  "let evs = [([0], (demo_block 1)\<lparr>transactions := [coinbase_placeholder 1]\<rparr>)];
       c = chain_new demo 9 in
    spent_key_images c \<subseteq> spent_key_images (run (chain_step demo mem_rocks) c evs) \<and>
    dom (utxo_set c) \<subseteq> dom (utxo_set (run (chain_step demo mem_rocks) c evs)) \<and>
    supply_capped (run (chain_step demo mem_rocks) c evs)"
  unfolding Let_def
  by (rule chain_memory_grows)
    (auto simp: fair_arrivals_def schedule_for_def supply_capped_def chain_new_def Let_def PREMINE_def cap_ncip_def)

end
