(* ===== verification/Sync.thy ===== *)
theory Sync
  imports ChainGaps
begin

text \<open>
  The block synchronisation: the wire frames of \<open>src/src/network/sync_protocol.rs\<close>, the progress
  record of \<open>src/src/network/sync.rs\<close>, the answer of a node to a block request
  (\<open>handle_peer_inbound\<close> in \<open>src/src/main.rs\<close>) and the catch-up loop of a follower
  (\<open>run_sync_client\<close>). A stream is the list of bytes still to be read. Serialisation of a message by
  \<open>bincode\<close> is an argument.
\<close>

section \<open>Messages and frames\<close>

record block_request =
  rq_from_height :: u64
  rq_to_height :: u64
  rq_request_id :: u64

record block_response =
  rs_request_id :: u64
  rs_blocks :: "block list"

record hello_message =
  hm_version :: string
  hm_height :: u64
  hm_tip_hash :: bytes
  hm_protocols :: "string list"
  hm_onion_address :: "string option"

definition MAX_FRAME_SIZE :: u32 where "MAX_FRAME_SIZE = 10 * 1024 * 1024"
definition BLOCKS_PER_BATCH :: u64 where "BLOCKS_PER_BATCH = 100"
definition PROTOCOL_VERSION :: string where "PROTOCOL_VERSION = ''cipherx/0.1.0''"

datatype frame_error = ReadLen | FrameTooLarge u32 | EmptyFrame | ReadBody | Deserialize

text \<open>The bytes written to the stream; the length is the low 32 bits of the payload's.\<close>

definition send_msg :: "('m \<Rightarrow> bytes) \<Rightarrow> 'm \<Rightarrow> frame_error + bytes" where
  "send_msg ser m =
     (let bs = ser m; len = of_nat (length bs) :: u32 in
      if MAX_FRAME_SIZE < len then Inl (FrameTooLarge len) else Inr (u32_to_be len @ bs))"

definition recv_msg :: "(bytes \<Rightarrow> 'm option) \<Rightarrow> bytes \<Rightarrow> (frame_error + 'm) \<times> bytes" where
  "recv_msg de st =
     (if length st < 4 then (Inl ReadLen, [])
      else
        let len = u32_from_be (take 4 st); rest = drop 4 st in
        if MAX_FRAME_SIZE < len then (Inl (FrameTooLarge len), rest)
        else if len = 0 then (Inl EmptyFrame, rest)
        else if length rest < unat len then (Inl ReadBody, [])
        else
          (case de (take (unat len) rest) of
             None \<Rightarrow> (Inl Deserialize, drop (unat len) rest)
           | Some m \<Rightarrow> (Inr m, drop (unat len) rest)))"

fun recv_many :: "(bytes \<Rightarrow> 'm option) \<Rightarrow> nat \<Rightarrow> bytes \<Rightarrow> (frame_error + 'm) list \<times> bytes" where
  "recv_many de 0 st = ([], st)"
| "recv_many de (Suc n) st =
     (case recv_msg de st of (r, st') \<Rightarrow> (case recv_many de n st' of (rs, st'') \<Rightarrow> (r # rs, st'')))"

definition frame_fits :: "('m \<Rightarrow> bytes) \<Rightarrow> 'm \<Rightarrow> bool" where
  "frame_fits ser m \<longleftrightarrow> 0 < length (ser m) \<and> length (ser m) \<le> 10 * 1024 * 1024"

lemma recv_send:
  assumes "frame_fits ser m" "de (ser m) = Some m"
  shows "\<exists>f. send_msg ser m = Inr f \<and> recv_msg de (f @ rest) = (Inr m, rest)"
proof -
  let ?len = "of_nat (length (ser m)) :: u32"
  have n: "unat ?len = length (ser m)" using assms(1) by (simp add: frame_fits_def unat_of_nat_exact)
  then have pos: "?len \<noteq> 0" using assms(1) by (auto simp: frame_fits_def)
  have le: "\<not> MAX_FRAME_SIZE < ?len"
    using assms(1) n by (simp add: MAX_FRAME_SIZE_def frame_fits_def word_less_nat_alt)
  have dec: "u32_from_be (take 4 (u32_to_be ?len @ x)) = ?len" for x
    by (simp add: u32_be.dec_enc)
  have "recv_msg de ((u32_to_be ?len @ ser m) @ rest) = (Inr m, rest)"
    unfolding recv_msg_def append_assoc dec Let_def using n pos le assms(2) by simp
  then show ?thesis using le by (simp add: send_msg_def Let_def)
qed

text \<open>
  The wire format carries every sequence of messages: if each message serialises to between 1
  byte and 10 MiB and is read back by \<open>bincode\<close>, all of them are sent, and the receiver reads from
  the concatenated frames exactly the messages, in order, leaving what follows them on the stream.
\<close>

theorem frames_roundtrip:
  assumes "\<forall>m\<in>set ms. frame_fits ser m \<and> de (ser m) = Some m"
  shows "\<exists>fs. map (send_msg ser) ms = map Inr fs \<and>
    recv_many de (length ms) (concat fs @ rest) = (map Inr ms, rest)"
  using assms
proof (induction ms)
  case (Cons m ms)
  then obtain fs where fs: "map (send_msg ser) ms = map Inr fs"
    "recv_many de (length ms) (concat fs @ rest) = (map Inr ms, rest)" by auto
  obtain f where f: "send_msg ser m = Inr f"
    "recv_msg de (f @ concat fs @ rest) = (Inr m, concat fs @ rest)"
    using recv_send [of ser m de "concat fs @ rest"] Cons.prems by auto
  show ?case
    by (rule exI [of _ "f # fs"]) (simp add: fs f)
qed simp

theorem frames_roundtrip_witness:
  "\<exists>fs. map (send_msg (\<lambda>x :: u64. u64_to_be x)) [7, 9] = map Inr fs \<and>
    recv_many (\<lambda>bs. Some (u64_from_be bs)) (length [7, 9 :: u64]) (concat fs @ [1, 2]) = (map Inr [7, 9], [1, 2])"
  by (rule frames_roundtrip) (simp add: frame_fits_def u64_be.dec_enc)

section \<open>The progress record\<close>

datatype sync_mode = FullSync | FastSync | Catchup u64 u64

record sync_state =
  sy_mode :: sync_mode
  sy_local_height :: u64
  sy_target_height :: u64
  sy_syncing :: bool
  sy_blocks_downloaded :: u64
  sy_peer :: "bytes option"

definition sync_new :: "u64 \<Rightarrow> sync_state" where
  "sync_new h =
     \<lparr> sy_mode = Catchup h h, sy_local_height = h, sy_target_height = h, sy_syncing = False,
       sy_blocks_downloaded = 0, sy_peer = None \<rparr>"

definition update_target :: "sync_state \<Rightarrow> u64 \<Rightarrow> bytes \<Rightarrow> sync_state" where
  "update_target s peer_height peer =
     (if sy_target_height s < peer_height then
        let gap = sat_sub peer_height (sy_local_height s);
            s1 = s\<lparr> sy_target_height := peer_height,
                    sy_mode := (if 10000 < gap then FastSync
                                else Catchup (sy_local_height s + 1) peer_height) \<rparr>
        in (if \<not> sy_syncing s1 then s1\<lparr> sy_syncing := True, sy_peer := Some peer \<rparr> else s1)
      else s)"

definition on_block_applied :: "sync_state \<Rightarrow> u64 \<Rightarrow> sync_state" where
  "on_block_applied s h =
     (let s1 = s\<lparr> sy_local_height := h, sy_blocks_downloaded := sy_blocks_downloaded s + 1 \<rparr> in
      if sy_target_height s1 \<le> sy_local_height s1 then s1\<lparr> sy_syncing := False, sy_peer := None \<rparr> else s1)"

definition is_synced :: "sync_state \<Rightarrow> bool" where
  "is_synced s \<longleftrightarrow> \<not> sy_syncing s \<and> sy_target_height s \<le> sy_local_height s"

definition blocks_remaining :: "sync_state \<Rightarrow> u64" where
  "blocks_remaining s = sat_sub (sy_target_height s) (sy_local_height s)"

lemma on_block_applied_synced:
  "sy_target_height s \<le> h \<Longrightarrow> is_synced (on_block_applied s h) \<and> blocks_remaining (on_block_applied s h) = 0"
  by (auto simp: on_block_applied_def is_synced_def blocks_remaining_def sat_sub_def Let_def)

lemma update_target_syncing:
  "sy_target_height s < h \<Longrightarrow> sy_syncing (update_target s h p) \<and> sy_target_height (update_target s h p) = h"
  by (simp add: update_target_def Let_def)

section \<open>Serving and catching up\<close>

definition height_range :: "u64 \<Rightarrow> u64 \<Rightarrow> u64 list" where
  "height_range a b = map of_nat [unat a..<Suc (unat b)]"

definition serve_blocks :: "'d chain \<Rightarrow> block_request \<Rightarrow> block list" where
  "serve_blocks c req =
     (let end = min (rq_to_height req) (ch_height c) in
      List.map_filter (block_at c) (take (unat BLOCKS_PER_BATCH) (height_range (rq_from_height req) end)))"

text \<open>
  The catch-up loop: the batches it hands to the main loop. \<open>srv\<close> is the exchange of a request for
  a response; its result is \<^const>\<open>None\<close> when sending or receiving fails or another message comes,
  which ends the loop. The result of the loop is \<^const>\<open>None\<close> when it never ends.
\<close>

partial_function (option) catch_up ::
  "(block_request \<Rightarrow> block list option) \<Rightarrow> u64 \<Rightarrow> u64 \<Rightarrow> u64 \<Rightarrow> block list option" where
  "catch_up srv seed_height req_id nxt =
     (if nxt \<le> seed_height then
        let to = min (nxt + BLOCKS_PER_BATCH - 1) seed_height in
        (case srv \<lparr> rq_from_height = nxt, rq_to_height = to, rq_request_id = req_id \<rparr> of
           None \<Rightarrow> Some []
         | Some bs \<Rightarrow>
             Option.bind (catch_up srv seed_height (req_id + 1) (to + 1)) (\<lambda>rest. Some (bs @ rest)))
      else Some [])"

section \<open>What a follower receives\<close>

text \<open>A chain that holds the blocks \<open>bs\<close> above the genesis block, each at its height.\<close>

definition serves :: "'d chain \<Rightarrow> block list \<Rightarrow> bool" where
  "serves c bs \<longleftrightarrow>
     length bs < 2 ^ 64 - 200 \<and> ch_height c = of_nat (length bs) \<and>
     (\<forall>i < length bs. block_at c (of_nat (Suc i)) = Some (bs ! i))"

lemma serve_blocks_batch:
  assumes "serves c bs" "k \<le> m" "m \<le> length bs" "m - k \<le> 100"
  shows "serve_blocks c \<lparr> rq_from_height = of_nat (Suc k), rq_to_height = of_nat m, rq_request_id = i \<rparr> =
    take (m - k) (drop k bs)"
proof -
  have small: "Suc k < 2 ^ 64" "m < 2 ^ 64" "length bs < 2 ^ 64"
    using assms by (simp_all add: serves_def)
  then have "min (of_nat m) (ch_height c) = (of_nat m :: u64)"
    using assms(1,3) by (simp add: serves_def min_def word_le_nat_alt unat_of_nat_exact)
  then have "serve_blocks c \<lparr> rq_from_height = of_nat (Suc k), rq_to_height = of_nat m, rq_request_id = i \<rparr> =
      List.map_filter (block_at c) (map of_nat [Suc k..<Suc m])"
    using small assms(4)
    by (simp add: serve_blocks_def height_range_def unat_of_nat_exact BLOCKS_PER_BATCH_def del: of_nat_Suc upt_Suc)
  also have "map of_nat [Suc k..<Suc m] = map (\<lambda>i. of_nat (Suc i)) [k..<m]"
    by (simp add: map_Suc_upt [symmetric] comp_def del: upt_Suc)
  also have "List.map_filter (block_at c) (map (\<lambda>i. of_nat (Suc i)) [k..<m]) = map (\<lambda>i. bs ! i) [k..<m]"
    using assms(1,3)
    by (auto simp: serves_def map_filter_def comp_def simp del: of_nat_Suc intro!: filter_True)
  also have "\<dots> = take (m - k) (drop k bs)"
    using assms(2,3) by (intro nth_equalityI) auto
  finally show ?thesis .
qed

lemma catch_up_delivers:
  assumes "serves c bs" "k \<le> length bs"
  shows "catch_up (\<lambda>rq. Some (serve_blocks c rq)) (of_nat (length bs)) i (of_nat (Suc k)) = Some (drop k bs)"
  using assms(2)
proof (induction "length bs - k" arbitrary: k i rule: less_induct)
  case less
  let ?n = "length bs"
  have big: "?n < 2 ^ 64 - 200" using assms(1) by (simp add: serves_def)
  show ?case
  proof (cases "k = ?n")
    case True
    then have "\<not> (of_nat (Suc k) :: u64) \<le> of_nat ?n"
      using big by (simp add: word_le_nat_alt unat_of_nat_exact del: of_nat_Suc)
    then show ?thesis using True by (subst catch_up.simps) simp
  next
    case False
    with less.prems have k: "k < ?n" by simp
    let ?m = "min (k + 100) ?n"
    have le: "(of_nat (Suc k) :: u64) \<le> of_nat ?n"
      using k big by (simp add: word_le_nat_alt unat_of_nat_exact del: of_nat_Suc)
    have "(of_nat (Suc k) :: u64) + BLOCKS_PER_BATCH - 1 = of_nat (k + 100)"
      by (simp add: BLOCKS_PER_BATCH_def)
    then have to: "min ((of_nat (Suc k) :: u64) + BLOCKS_PER_BATCH - 1) (of_nat ?n) = of_nat ?m"
      using k big by (simp add: min_def word_le_nat_alt unat_of_nat_exact del: of_nat_add)
    have rec: "catch_up (\<lambda>rq. Some (serve_blocks c rq)) (of_nat ?n) (i + 1) (of_nat ?m + 1) = Some (drop ?m bs)"
      using less.hyps [of ?m "i + 1"] k by (simp add: add.commute)
    have "serve_blocks c \<lparr> rq_from_height = of_nat (Suc k), rq_to_height = of_nat ?m, rq_request_id = i \<rparr> =
        take (?m - k) (drop k bs)"
      using k by (intro serve_blocks_batch [OF assms(1)]) auto
    moreover have "take (?m - k) (drop k bs) @ drop ?m bs = drop k bs"
      using k by (metis append_take_drop_id drop_drop le_add_diff_inverse2 less_imp_le min.cobounded2 min_def le_add1)
    ultimately show ?thesis
      using le to rec by (subst catch_up.simps) (simp add: Let_def del: of_nat_Suc)
  qed
qed

section \<open>Convergence\<close>

lemma run_serves:
  fixes R :: "'d rocks"
  assumes "fair_arrivals evs" "length (accepted e R (chain_new e now) evs) < 2 ^ 64 - 200"
    and "distinct (map (block_hash_of e) (genesis now # accepted e R (chain_new e now) evs))"
  shows "serves (run (chain_step e R) (chain_new e now) evs) (accepted e R (chain_new e now) evs)"
proof -
  have "length (accepted e R (chain_new e now) evs) < 2 ^ 64 - 1"
    by (rule less_le_trans [OF assms(2)]) simp
  note facts = run_history [OF assms(1) this assms(3), unfolded Let_def]
  show ?thesis
    unfolding serves_def
  proof (intro conjI allI impI)
    fix i
    assume i: "i < length (accepted e R (chain_new e now :: 'd chain) evs)"
    with facts show "block_at (run (chain_step e R) (chain_new e now) evs) (of_nat (Suc i)) =
        Some (accepted e R (chain_new e now) evs ! i)"
      by (metis length_Cons nth_Cons_Suc Suc_less_eq)
  qed (use assms(2) facts in simp_all)
qed

lemma offer_valid:
  "valid_blocks e (in_memory c) bs \<Longrightarrow> fair_arrivals (zip scheds bs) \<Longrightarrow> length scheds = length bs \<Longrightarrow>
   in_memory (run (chain_step e R) c (zip scheds bs)) = fold (extend_chain e) bs (in_memory c)"
proof (induction bs arbitrary: c scheds)
  case (Cons b bs)
  then obtain sc scs where sc: "scheds = sc # scs" "length scs = length bs" by (cases scheds) auto
  with Cons.prems have "schedule_for (transactions b) sc" "fair_arrivals (zip scs bs)"
    by (auto simp: fair_arrivals_def)
  moreover from Cons.prems have "block_ok e c b" by simp
  ultimately have step: "chain_step e R c (sc, b) = with_store e R b (extend_chain e b c)"
    by (simp add: chain_step_accepts)
  then have mem: "in_memory (chain_step e R c (sc, b)) = extend_chain e b (in_memory c)"
    by (simp add: in_memory_extend)
  with Cons.prems have "valid_blocks e (in_memory (chain_step e R c (sc, b))) bs" by simp
  from Cons.IH [OF this \<open>fair_arrivals (zip scs bs)\<close> sc(2)] mem sc show ?case by simp
qed simp

text \<open>
  C16. Synchronisation converges: take a server that grew its chain from a genesis block by any run
  of appends, and a follower whose state is that of the server after its first \<open>k\<close> blocks. Asking
  for the missing heights in batches of at most one hundred, the follower's catch-up loop ends and
  has received exactly the server's remaining blocks in order, and appending them, in whatever order
  the parallel checks run, makes the follower's chain state equal to the server's.
\<close>

theorem sync_converges:
  fixes R :: "'d rocks" and R' :: "'f rocks"
  assumes "fair_arrivals evs" "length (accepted e R (chain_new e now) evs) < 2 ^ 64 - 200"
    and "distinct (map (block_hash_of e) (genesis now # accepted e R (chain_new e now) evs))"
    and "k \<le> length (accepted e R (chain_new e now) evs)"
    and "ch_height follower = of_nat k"
      "in_memory (follower :: 'd chain) =
        fold (extend_chain e) (take k (accepted e R (chain_new e now) evs)) (in_memory (chain_new e now))"
  shows "let server = run (chain_step e R) (chain_new e now) evs in
    \<exists>bs. catch_up (\<lambda>rq. Some (serve_blocks server rq)) (ch_height server) 0 (ch_height follower + 1) = Some bs \<and>
      bs = drop k (accepted e R (chain_new e now) evs) \<and>
      (\<forall>scheds. length scheds = length bs \<and> fair_arrivals (zip scheds bs) \<longrightarrow>
         in_memory (run (chain_step e R) follower (zip scheds bs)) = in_memory server)"
proof -
  let ?hist = "accepted e R (chain_new e now :: 'd chain) evs"
  let ?server = "run (chain_step e R) (chain_new e now :: 'd chain) evs"
  have srv: "serves ?server ?hist" using run_serves [OF assms(1-3)] .
  then have "catch_up (\<lambda>rq. Some (serve_blocks ?server rq)) (ch_height ?server) 0 (ch_height follower + 1)
      = Some (drop k ?hist)"
    using catch_up_delivers [OF srv assms(4), of 0] assms(5) by (simp add: serves_def add.commute)
  moreover have "in_memory (run (chain_step e R) follower (zip scheds (drop k ?hist))) = in_memory ?server"
    if "length scheds = length (drop k ?hist)" "fair_arrivals (zip scheds (drop k ?hist))" for scheds
  proof -
    have split: "take k ?hist @ drop k ?hist = ?hist" by simp
    have "valid_blocks e (in_memory follower) (drop k ?hist)"
      using run_is_fold(2) [OF assms(1), of e "chain_new e now" R] assms(6) split
      by (metis valid_blocks_append)
    then have "in_memory (run (chain_step e R) follower (zip scheds (drop k ?hist))) =
        fold (extend_chain e) (drop k ?hist) (in_memory follower)"
      using offer_valid that by blast
    also have "\<dots> = fold (extend_chain e) ?hist (in_memory (chain_new e now))"
      using split by (metis assms(6) comp_apply fold_append)
    also have "\<dots> = in_memory ?server" using run_is_fold(1) [OF assms(1), of e R "chain_new e now"] by simp
    finally show ?thesis .
  qed
  ultimately show ?thesis by (simp add: Let_def)
qed

text \<open>
  A node that made its own genesis block can never join: the genesis block carries the instant
  of its creation, so two nodes that first started at instants whose genesis hashes differ never
  agree. Offered the blocks of the other's history, any of them, in any order and any number of
  times, a new node accepts none and stays at its genesis block.
\<close>

theorem sync_genesis_split:
  fixes R :: "'d rocks" and R' :: "'f rocks"
  assumes "fair_arrivals evs" "length (accepted e R (chain_new e now) evs) < 2 ^ 64 - 1"
    and "block_hash_of e (genesis now) \<noteq> block_hash_of e (genesis now')"
    and "set (map snd offers) \<subseteq> set (accepted e R (chain_new e now) evs)" "fair_arrivals offers"
  shows "run (chain_step e R') (chain_new e now') offers = chain_new e now'
    \<and> accepted e R' (chain_new e now') offers = []"
proof -
  let ?hist = "accepted e R (chain_new e now :: 'd chain) evs"
  have no: "\<not> block_ok e (chain_new e now' :: 'f chain) b" if old: "b \<in> set ?hist" for b
  proof
    assume ok: "block_ok e (chain_new e now' :: 'f chain) b"
    obtain i where i: "i < length ?hist" "?hist ! i = b"
      using old unfolding in_set_conv_nth by blast
    from history_links [OF assms(1,2), of "Suc i"] i
    have "unat (hd_height (header b)) = Suc i" "hd_prev_hash (header b) = block_hash_of e ((genesis now # ?hist) ! i)"
      by (simp_all add: Let_def)
    with ok assms(3) show False by (auto simp: block_ok_def chain_new_def Let_def)
  qed
  show ?thesis
    using assms(4,5)
  proof (induction offers)
    case (Cons ev evs')
    then have s: "schedule_for (transactions (snd ev)) (fst ev)" and f: "fair_arrivals evs'"
      and h: "snd ev \<in> set ?hist" by (auto simp: fair_arrivals_def)
    with no [OF h] have "chain_step e R' (chain_new e now') ev = chain_new e now'"
      "fst (append_block e R' (fst ev) (chain_new e now') (snd ev)) \<noteq> Inr ()"
      using chain_step_accepts [OF s, of e R' "chain_new e now'"]
        append_block_accepts(2) [OF s, of e R' "chain_new e now'"] by simp_all
    with Cons f show ?case by simp
  qed simp
qed

theorem sync_converges_witness:
  "let server = run (chain_step demo mem_rocks) (chain_new demo 3) (demo_history 3) in
    \<exists>bs. catch_up (\<lambda>rq. Some (serve_blocks server rq)) (ch_height server) 0 1 = Some bs \<and>
      bs = map snd (demo_history 3) \<and>
      in_memory (run (chain_step demo mem_rocks) (chain_new demo 3) (zip [[0]] bs)) = in_memory server"
proof -
  note h = demo_history_facts
  have len: "length (demo_history 3) = 1" by (simp add: demo_history_def)
  have fair: "fair_arrivals (zip [[0]] (map snd (demo_history 3)))"
    by (auto simp: fair_arrivals_def demo_history_def schedule_for_def)
  have z: "ch_height (chain_new demo 3) = of_nat 0" by (simp add: chain_new_def Let_def)
  show ?thesis
    using sync_converges [OF h(1), of demo mem_rocks 3 3 0 "chain_new demo 3"] len fair z
      h(3) [of 3] by (auto simp: h(2) Let_def dest!: spec [of _ "[[0]]"])
qed

theorem sync_genesis_split_witness:
  "run (chain_step demo mem_rocks) (chain_new demo 4) (demo_history 3) = chain_new demo 4
   \<and> accepted demo mem_rocks (chain_new demo 4) (demo_history 3) = []"
proof (rule sync_genesis_split [OF demo_history_facts(1), of demo mem_rocks 3 3])
  note h = demo_history_facts
  show "length (accepted demo mem_rocks (chain_new demo 3) (demo_history 3)) < 2 ^ 64 - 1"
    by (simp add: h(2)) (simp add: demo_history_def)
  show "set (map snd (demo_history 3)) \<subseteq> set (accepted demo mem_rocks (chain_new demo 3) (demo_history 3))"
    by (simp add: h(2))
  show "fair_arrivals (demo_history 3)" by (rule h(1))
  show "block_hash_of demo (genesis 3) \<noteq> block_hash_of demo (genesis 4)"
  proof
    assume "block_hash_of demo (genesis 3) = block_hash_of demo (genesis 4)"
    then have "u64_to_le 0 @ u64_to_le 3 @ take 16 (zeros 32) = u64_to_le 0 @ u64_to_le 4 @ take 16 (zeros 32)"
      by (simp add: block_hash_of_def header_hash_def genesis_def pad_to_def demo_def block_hash_zero_def)
    then show False by (simp add: codec_inject)
  qed
qed

end
