(* ===== verification/Net.thy ===== *)
theory Net
  imports Sync Tendermint F64
begin

text \<open>
  The gossip layer: \<open>src/src/network/p2p.rs\<close> and \<open>src/src/network/peer.rs\<close>, and the progress of
  \<open>src/src/network/sync.rs\<close>. Instants and ages are milliseconds; an operation that reads a clock takes
  the instant. Sending on the event channel is the event that the operation yields. \<open>bincode\<close> is the
  record \<open>net_crates\<close>.
\<close>

section \<open>Peers\<close>

type_synonym peer_id = bytes

record peer_info =
  pi_peer_id :: peer_id
  pi_onion_address :: "string option"
  pi_version :: string
  pi_height :: u64

definition peer_to_hex :: "('p, 's) crates \<Rightarrow> peer_id \<Rightarrow> string" where
  "peer_to_hex e p = hex_encode e p"

record peer_reputation =
  re_peer_id :: peer_id
  re_score :: "32 word"
  re_bans :: u32

definition reputation_new :: "peer_id \<Rightarrow> peer_reputation" where
  "reputation_new p = \<lparr> re_peer_id = p, re_score = 100, re_bans = 0 \<rparr>"

text \<open>The score is an \<open>i32\<close>: the difference wraps, the maximum is signed.\<close>

definition penalize :: "peer_reputation \<Rightarrow> 32 word \<Rightarrow> peer_reputation" where
  "penalize r amount =
     (let s = re_score r - amount in r\<lparr>re_score := (if sint s < 0 then 0 else s)\<rparr>)"

definition is_banned :: "peer_reputation \<Rightarrow> bool" where
  "is_banned r \<longleftrightarrow> re_score r = 0"

section \<open>Messages and configuration\<close>

definition TOPIC_BLOCKS :: string where "TOPIC_BLOCKS = ''/cipherx/blocks/1.0.0''"
definition TOPIC_TXS :: string where "TOPIC_TXS = ''/cipherx/txs/1.0.0''"
definition TOPIC_CONSENSUS :: string where "TOPIC_CONSENSUS = ''/cipherx/consensus/1.0.0''"

lemmas topic_defs = TOPIC_BLOCKS_def TOPIC_TXS_def TOPIC_CONSENSUS_def

record gossip_message =
  gm_topic :: string
  gm_payload :: bytes
  gm_message_id :: bytes
  gm_timestamp_ms :: u64

definition gossip_message_new ::
  "('p, 's) crates \<Rightarrow> u64 \<Rightarrow> string \<Rightarrow> bytes \<Rightarrow> gossip_message" where
  "gossip_message_new e now topic payload =
     \<lparr> gm_topic = topic, gm_payload = payload, gm_message_id = sha3_256 e (payload @ str_bytes topic),
       gm_timestamp_ms = now \<rparr>"

definition is_fresh :: "u64 \<Rightarrow> gossip_message \<Rightarrow> u64 \<Rightarrow> bool" where
  "is_fresh now m max_age_ms \<longleftrightarrow> sat_sub now (gm_timestamp_ms m) < max_age_ms"

datatype network_event =
    BlockReceived block peer_id
  | TxReceived transaction peer_id
  | VoteReceived vote peer_id
  | PeerConnected peer_info
  | PeerDisconnected peer_id
  | SyncRequested block_request peer_id

record p2p_config =
  pc_max_peers :: nat
  pc_min_peers :: nat
  pc_gossip_fanout :: nat
  pc_max_message_size :: nat
  pc_dedup_window_ms :: u64
  pc_seed_nodes :: "string list"
  pc_listen_port :: "16 word"

definition p2p_config_default :: p2p_config where
  "p2p_config_default =
     \<lparr> pc_max_peers = 50, pc_min_peers = 8, pc_gossip_fanout = 6, pc_max_message_size = 10 * 1024 * 1024,
       pc_dedup_window_ms = 30000, pc_seed_nodes = [], pc_listen_port = 9152 \<rparr>"

section \<open>Deduplication\<close>

record message_cache =
  mc_seen :: "bytes \<Rightarrow> nat option"
  mc_max_age :: nat
  mc_inserts_since_evict :: u32

definition EVICT_EVERY :: u32 where "EVICT_EVERY = 128"

definition cache_new :: "u64 \<Rightarrow> message_cache" where
  "cache_new max_age_ms = \<lparr> mc_seen = Map.empty, mc_max_age = unat max_age_ms, mc_inserts_since_evict = 0 \<rparr>"

text \<open>The entries that \<open>retain\<close> keeps.\<close>

definition young :: "nat \<Rightarrow> nat \<Rightarrow> (bytes \<Rightarrow> nat option) \<Rightarrow> bytes \<Rightarrow> nat option" where
  "young now max_age seen k =
     (case seen k of None \<Rightarrow> None | Some t \<Rightarrow> if now - t < max_age then Some t else None)"

definition cache_insert :: "nat \<Rightarrow> message_cache \<Rightarrow> bytes \<Rightarrow> bool \<times> message_cache" where
  "cache_insert now c k =
     (if mc_seen c k \<noteq> None then (False, c)
      else
        (let n = mc_inserts_since_evict c + 1;
             c1 = c\<lparr>mc_inserts_since_evict := n\<rparr>;
             c2 = (if EVICT_EVERY \<le> n
                   then c1\<lparr>mc_inserts_since_evict := 0, mc_seen := young now (mc_max_age c) (mc_seen c)\<rparr>
                   else c1) in
         (True, c2\<lparr>mc_seen := (mc_seen c2)(k \<mapsto> now)\<rparr>)))"

section \<open>The node\<close>

datatype p2p_error =
  NoPeers | MessageTooLarge nat | PeerNotFound string | NotStarted | SerializeError string

record net_crates =
  nc_ser_block :: "block \<Rightarrow> string + bytes"
  nc_ser_tx :: "transaction \<Rightarrow> string + bytes"
  nc_ser_vote :: "vote \<Rightarrow> string + bytes"
  nc_de_block :: "bytes \<Rightarrow> block option"
  nc_de_tx :: "bytes \<Rightarrow> transaction option"
  nc_de_vote :: "bytes \<Rightarrow> vote option"

record p2p_node =
  pn_config :: p2p_config
  pn_peers :: "peer_id \<Rightarrow> peer_info option"
  pn_message_cache :: message_cache
  pn_running :: bool
  pn_messages_sent :: u64
  pn_messages_recv :: u64

definition p2p_new :: "p2p_config \<Rightarrow> p2p_node" where
  "p2p_new config =
     \<lparr> pn_config = config, pn_peers = Map.empty, pn_message_cache = cache_new (pc_dedup_window_ms config),
       pn_running = False, pn_messages_sent = 0, pn_messages_recv = 0 \<rparr>"

definition p2p_start :: "p2p_node \<Rightarrow> p2p_node" where
  "p2p_start n = n\<lparr>pn_running := True\<rparr>"

text \<open>\<open>wall\<close> is the wall clock of the message's timestamp, \<open>now\<close> the monotone clock of the cache.\<close>

definition gossip ::
  "('p, 's) crates \<Rightarrow> u64 \<Rightarrow> nat \<Rightarrow> p2p_node \<Rightarrow> string \<Rightarrow> bytes \<Rightarrow> (p2p_error + unit) \<times> p2p_node" where
  "gossip e wall now n topic payload =
     (if \<not> pn_running n then (Inl NotStarted, n)
      else if pc_max_message_size (pn_config n) < length payload then (Inl (MessageTooLarge (length payload)), n)
      else
        (let m = gossip_message_new e wall topic payload in
         case cache_insert now (pn_message_cache n) (gm_message_id m) of
           (False, c) \<Rightarrow> (Inr (), n\<lparr>pn_message_cache := c\<rparr>)
         | (True, c) \<Rightarrow> (Inr (), n\<lparr>pn_message_cache := c, pn_messages_sent := pn_messages_sent n + 1\<rparr>)))"

definition broadcast ::
  "('p, 's) crates \<Rightarrow> u64 \<Rightarrow> nat \<Rightarrow> p2p_node \<Rightarrow> string \<Rightarrow> string + bytes \<Rightarrow> (p2p_error + unit) \<times> p2p_node" where
  "broadcast e wall now n topic ser =
     (case ser of
        Inl err \<Rightarrow> (Inl (SerializeError err), n)
      | Inr payload \<Rightarrow> gossip e wall now n topic payload)"

definition broadcast_block ::
  "('p, 's) crates \<Rightarrow> net_crates \<Rightarrow> u64 \<Rightarrow> nat \<Rightarrow> p2p_node \<Rightarrow> block \<Rightarrow> (p2p_error + unit) \<times> p2p_node" where
  "broadcast_block e nc wall now n b = broadcast e wall now n TOPIC_BLOCKS (nc_ser_block nc b)"

definition broadcast_tx ::
  "('p, 's) crates \<Rightarrow> net_crates \<Rightarrow> u64 \<Rightarrow> nat \<Rightarrow> p2p_node \<Rightarrow> transaction \<Rightarrow> (p2p_error + unit) \<times> p2p_node" where
  "broadcast_tx e nc wall now n tx = broadcast e wall now n TOPIC_TXS (nc_ser_tx nc tx)"

definition broadcast_vote ::
  "('p, 's) crates \<Rightarrow> net_crates \<Rightarrow> u64 \<Rightarrow> nat \<Rightarrow> p2p_node \<Rightarrow> vote \<Rightarrow> (p2p_error + unit) \<times> p2p_node" where
  "broadcast_vote e nc wall now n v = broadcast e wall now n TOPIC_CONSENSUS (nc_ser_vote nc v)"

definition on_peer_connected :: "p2p_node \<Rightarrow> peer_info \<Rightarrow> network_event \<times> p2p_node" where
  "on_peer_connected n info = (PeerConnected info, n\<lparr>pn_peers := (pn_peers n)(pi_peer_id info \<mapsto> info)\<rparr>)"

definition on_peer_disconnected :: "p2p_node \<Rightarrow> peer_id \<Rightarrow> network_event \<times> p2p_node" where
  "on_peer_disconnected n p = (PeerDisconnected p, n\<lparr>pn_peers := (pn_peers n)(p := None)\<rparr>)"

definition parse_event :: "net_crates \<Rightarrow> gossip_message \<Rightarrow> peer_id \<Rightarrow> network_event option" where
  "parse_event nc m sender =
     (if gm_topic m = TOPIC_BLOCKS then map_option (\<lambda>b. BlockReceived b sender) (nc_de_block nc (gm_payload m))
      else if gm_topic m = TOPIC_TXS then map_option (\<lambda>t. TxReceived t sender) (nc_de_tx nc (gm_payload m))
      else if gm_topic m = TOPIC_CONSENSUS
      then map_option (\<lambda>v. VoteReceived v sender) (nc_de_vote nc (gm_payload m))
      else None)"

definition on_message ::
  "net_crates \<Rightarrow> u64 \<Rightarrow> nat \<Rightarrow> p2p_node \<Rightarrow> gossip_message \<Rightarrow> peer_id \<Rightarrow> network_event option \<times> p2p_node" where
  "on_message nc wall now n m sender =
     (if \<not> is_fresh wall m (pc_dedup_window_ms (pn_config n)) then (None, n)
      else
        (case cache_insert now (pn_message_cache n) (gm_message_id m) of
           (False, c) \<Rightarrow> (None, n\<lparr>pn_message_cache := c\<rparr>)
         | (True, c) \<Rightarrow>
             (parse_event nc m sender,
              n\<lparr>pn_message_cache := c, pn_messages_recv := pn_messages_recv n + 1\<rparr>)))"

definition p2p_peer_count :: "p2p_node \<Rightarrow> nat" where
  "p2p_peer_count n = card (dom (pn_peers n))"

definition needs_more_peers :: "p2p_node \<Rightarrow> bool" where
  "needs_more_peers n \<longleftrightarrow> p2p_peer_count n < pc_min_peers (pn_config n)"

section \<open>Progress of a synchronization\<close>

definition progress_pct :: "sync_state \<Rightarrow> f64" where
  "progress_pct s =
     (if sy_target_height s = 0 then Fin 100
      else f64_mul (f64_div (u64_as_f64 (sy_local_height s)) (u64_as_f64 (sy_target_height s))) (Fin 100))"

section \<open>Lemmas\<close>

lemma cache_insert_result: "fst (cache_insert now c k) \<longleftrightarrow> mc_seen c k = None"
  by (simp add: cache_insert_def Let_def)

lemma cache_insert_known: "mc_seen c k \<noteq> None \<Longrightarrow> cache_insert now c k = (False, c)"
  by (simp add: cache_insert_def)

lemma cache_insert_age: "mc_max_age (snd (cache_insert now c k)) = mc_max_age c"
  by (simp add: cache_insert_def Let_def)

lemma cache_insert_seen:
  "mc_seen c k = None \<Longrightarrow> mc_seen (snd (cache_insert now c k)) =
     (if EVICT_EVERY \<le> mc_inserts_since_evict c + 1 then young now (mc_max_age c) (mc_seen c) else mc_seen c)(k \<mapsto> now)"
  by (simp add: cache_insert_def Let_def)

text \<open>Peers: connecting and disconnecting keep the finite map, and what they tell the node.\<close>

lemma peer_count_connect:
  assumes "finite (dom (pn_peers n))"
  shows "p2p_peer_count (snd (on_peer_connected n info)) =
    (if pi_peer_id info \<in> dom (pn_peers n) then p2p_peer_count n else p2p_peer_count n + 1)"
  using assms by (auto simp: on_peer_connected_def p2p_peer_count_def insert_absorb domIff)

lemma gossip_not_started: "\<not> pn_running n \<Longrightarrow> gossip e wall now n topic payload = (Inl NotStarted, n)"
  by (simp add: gossip_def)

section \<open>What deduplication promises\<close>

text \<open>The identifiers that a sequence of insertions accepts, with their instants.\<close>

fun accepts :: "message_cache \<Rightarrow> (nat \<times> bytes) list \<Rightarrow> (nat \<times> bytes) list" where
  "accepts c [] = []"
| "accepts c ((now, k) # evs) =
     (case cache_insert now c k of (new, c') \<Rightarrow> (if new then (now, k) # accepts c' evs else accepts c' evs))"

lemma accepts_Cons:
  "accepts c ((now, k) # evs) =
     (if mc_seen c k = None then (now, k) # accepts (snd (cache_insert now c k)) evs else accepts c evs)"
  using cache_insert_result [of now c k] by (auto simp: cache_insert_known split: prod.split)

declare accepts.simps(2) [simp del]

lemma accepts_subset: "set (accepts c evs) \<subseteq> set evs"
proof (induction evs arbitrary: c)
  case (Cons ev evs)
  obtain now k where "ev = (now, k)" by fastforce
  then show ?case
    using Cons.IH [of c] Cons.IH [of "snd (cache_insert now c k)"] by (auto simp: accepts_Cons)
qed simp

definition clocked :: "nat \<Rightarrow> (nat \<times> bytes) list \<Rightarrow> bool" where
  "clocked t evs \<longleftrightarrow> sorted (t # map fst evs)"

lemma accepts_clocked: "clocked t evs \<Longrightarrow> (t', k) \<in> set (accepts c evs) \<Longrightarrow> t \<le> t'"
  using accepts_subset [of c evs] by (force simp: clocked_def)

lemma accepted_after_seen:
  "clocked t0 evs \<Longrightarrow> mc_seen c k = Some t0 \<Longrightarrow> (t, k) \<in> set (accepts c evs) \<Longrightarrow> t0 + mc_max_age c \<le> t"
proof (induction evs arbitrary: c)
  case (Cons ev evs)
  obtain now x where ev: "ev = (now, x)" by fastforce
  have le: "t0 \<le> now" and rest: "clocked t0 evs" "clocked now evs"
    using Cons.prems(1) by (auto simp: clocked_def ev)
  show ?case
  proof (cases "mc_seen c x")
    case None
    then have x: "x \<noteq> k" using Cons.prems(2) by auto
    let ?c = "snd (cache_insert now c x)"
    have mem: "(t, k) \<in> set (accepts ?c evs)"
      using Cons.prems(3) None x by (simp add: ev accepts_Cons)
    show ?thesis
    proof (cases "mc_seen ?c k")
      case None
      then have "\<not> now - t0 < mc_max_age c"
        using cache_insert_seen [OF \<open>mc_seen c x = None\<close>, of now] x Cons.prems(2)
        by (auto simp: young_def split: if_splits)
      moreover have "now \<le> t" using accepts_clocked [OF rest(2) mem] .
      ultimately show ?thesis using le by simp
    next
      case (Some t1)
      then have "t1 = t0"
        using cache_insert_seen [OF \<open>mc_seen c x = None\<close>, of now] x Cons.prems(2)
        by (auto simp: young_def split: if_splits)
      with Some Cons.IH [OF rest(1) _ mem] show ?thesis by (simp add: cache_insert_age)
    qed
  next
    case (Some t1)
    then show ?thesis
      using Cons.IH [OF rest(1) Cons.prems(2)] Cons.prems(3) by (simp add: ev accepts_Cons)
  qed
qed simp

lemma accepted_ids: "k \<in> snd ` set evs \<Longrightarrow> k \<in> snd ` set (accepts c evs) \<or> mc_seen c k \<noteq> None"
proof (induction evs arbitrary: c)
  case (Cons ev evs)
  obtain now x where ev: "ev = (now, x)" by fastforce
  let ?c = "snd (cache_insert now c x)"
  have kept: "mc_seen ?c k \<noteq> None \<Longrightarrow> k = x \<or> mc_seen c k \<noteq> None" if "mc_seen c x = None"
    by (auto simp: cache_insert_seen [OF that] young_def split: if_splits option.splits)
  show ?case
  proof (cases "k = x")
    case True
    then show ?thesis by (cases "mc_seen c x") (simp_all add: ev accepts_Cons)
  next
    case False
    then have mem: "k \<in> snd ` set evs" using Cons.prems by (simp add: ev)
    show ?thesis
      using Cons.IH [OF mem, of ?c] Cons.IH [OF mem, of c] kept False
      by (cases "mc_seen c x") (auto simp: ev accepts_Cons)
  qed
qed simp

text \<open>
  Deduplication is exact up to its window: whatever messages arrive, at non-decreasing instants,
  every identifier that arrives is accepted at least once, and two acceptances of the same
  identifier are at least the deduplication window apart, so that within a window a message is
  handled exactly once.
\<close>

theorem gossip_dedup:
  assumes "clocked t0 evs"
  shows "snd ` set (accepts (cache_new age) evs) = snd ` set evs \<and>
    (\<forall>i j. i < j \<and> j < length (accepts (cache_new age) evs) \<and>
       snd (accepts (cache_new age) evs ! i) = snd (accepts (cache_new age) evs ! j) \<longrightarrow>
       fst (accepts (cache_new age) evs ! i) + unat age \<le> fst (accepts (cache_new age) evs ! j))"
proof
  show "snd ` set (accepts (cache_new age) evs) = snd ` set evs"
    using accepted_ids [of _ evs "cache_new age"] accepts_subset [of "cache_new age" evs]
    by (auto simp: cache_new_def)
  have apart: "clocked t0 evs \<Longrightarrow> i < j \<Longrightarrow> j < length (accepts c evs) \<Longrightarrow>
      snd (accepts c evs ! i) = snd (accepts c evs ! j) \<Longrightarrow>
      fst (accepts c evs ! i) + mc_max_age c \<le> fst (accepts c evs ! j)" for i j c
  proof (induction evs arbitrary: c t0 i j)
    case (Cons ev evs)
    obtain now x where ev: "ev = (now, x)" by fastforce
    have rest: "clocked now evs" using Cons.prems(1) by (auto simp: clocked_def ev)
    show ?case
    proof (cases "mc_seen c x")
      case None
      let ?c = "snd (cache_insert now c x)"
      have acc: "accepts c (ev # evs) = (now, x) # accepts ?c evs"
        using None by (simp add: ev accepts_Cons)
      obtain j' where j: "j = Suc j'" "j' < length (accepts ?c evs)"
        using Cons.prems(2,3) by (cases j) (auto simp: acc)
      show ?thesis
      proof (cases i)
        case 0
        have "(fst (accepts ?c evs ! j'), x) \<in> set (accepts ?c evs)"
          using Cons.prems(4) j nth_mem [OF j(2)] by (metis acc 0 nth_Cons_0 nth_Cons_Suc prod.collapse snd_conv)
        moreover have "mc_seen ?c x = Some now" by (simp add: cache_insert_seen [OF None])
        ultimately have "now + mc_max_age c \<le> fst (accepts ?c evs ! j')"
          using accepted_after_seen [OF rest] cache_insert_age [of now c x] by metis
        then show ?thesis by (simp add: acc 0 j(1))
      next
        case (Suc i')
        then show ?thesis
          using Cons.IH [OF rest, of i' j' ?c] Cons.prems j by (simp add: acc cache_insert_age)
      qed
    next
      case (Some t1)
      then show ?thesis
        using Cons.IH [OF rest, of i j c] Cons.prems by (simp add: ev accepts_Cons)
    qed
  qed simp
  show "\<forall>i j. i < j \<and> j < length (accepts (cache_new age) evs) \<and>
       snd (accepts (cache_new age) evs ! i) = snd (accepts (cache_new age) evs ! j) \<longrightarrow>
       fst (accepts (cache_new age) evs ! i) + unat age \<le> fst (accepts (cache_new age) evs ! j)"
    using apart [OF assms, of _ _ "cache_new age"] by (auto simp: cache_new_def)
qed

theorem gossip_dedup_witness:
  "accepts (cache_new 5) [(1, [7]), (2, [8]), (3, [7])] = [(1, [7]), (2, [8])] \<and>
   snd ` set (accepts (cache_new 5) [(1, [7]), (2, [8]), (3, [7])]) = {[7], [8]}"
proof
  show "accepts (cache_new 5) [(1, [7]), (2, [8]), (3, [7])] = [(1, [7]), (2, [8])]"
    by (simp add: accepts_Cons cache_insert_def cache_new_def Let_def EVICT_EVERY_def word_le_nat_alt)
  show "snd ` set (accepts (cache_new 5) [(1, [7]), (2, [8]), (3, [7])]) = {[7], [8]}"
    using gossip_dedup [of 0 "[(1, [7]), (2, [8]), (3, [7])]" 5] by (auto simp: clocked_def)
qed

text \<open>
  The node's own broadcasts never leave it: the node is created and never started, and until it is
  started every broadcast of a block, a transaction or a vote that serializes fails with
  \<open>NotStarted\<close> and changes nothing; once started, the first broadcast of a payload of admissible size
  is counted as sent and its repetition is dropped silently.
\<close>

theorem broadcast_needs_start:
  "\<not> pn_running (p2p_new config)
   \<and> (\<not> pn_running n \<longrightarrow> broadcast_block e nc wall now n b =
        (Inl (case nc_ser_block nc b of Inl err \<Rightarrow> SerializeError err | Inr _ \<Rightarrow> NotStarted), n))
   \<and> (let first = gossip e wall now (p2p_start (p2p_new config)) topic payload;
          again = gossip e wall' now' (snd first) topic payload in
      length payload \<le> pc_max_message_size config \<longrightarrow>
        fst first = Inr () \<and> pn_messages_sent (snd first) = 1 \<and>
        fst again = Inr () \<and> snd again = snd first)"
proof (intro conjI impI)
  show "\<not> pn_running (p2p_new config)" by (simp add: p2p_new_def)
  show "broadcast_block e nc wall now n b =
      (Inl (case nc_ser_block nc b of Inl err \<Rightarrow> SerializeError err | Inr _ \<Rightarrow> NotStarted), n)"
    if "\<not> pn_running n"
    using that by (simp add: broadcast_block_def broadcast_def gossip_not_started split: sum.split)
  show "let first = gossip e wall now (p2p_start (p2p_new config)) topic payload;
          again = gossip e wall' now' (snd first) topic payload in
      length payload \<le> pc_max_message_size config \<longrightarrow>
        fst first = Inr () \<and> pn_messages_sent (snd first) = 1 \<and>
        fst again = Inr () \<and> snd again = snd first"
    by (auto simp: gossip_def p2p_start_def p2p_new_def cache_insert_def cache_new_def EVICT_EVERY_def
        gossip_message_new_def Let_def)
qed

theorem broadcast_needs_start_witness:
  "broadcast_block demo \<lparr> nc_ser_block = (\<lambda>b. Inr [1]), nc_ser_tx = (\<lambda>t. Inr [2]), nc_ser_vote = (\<lambda>v. Inr [3]),
      nc_de_block = (\<lambda>_. None), nc_de_tx = (\<lambda>_. None), nc_de_vote = (\<lambda>_. None) \<rparr> 0 0
      (p2p_new p2p_config_default) (genesis 0) = (Inl NotStarted, p2p_new p2p_config_default)"
  using broadcast_needs_start [of p2p_config_default "p2p_new p2p_config_default" demo
      "\<lparr> nc_ser_block = (\<lambda>b. Inr [1]), nc_ser_tx = (\<lambda>t. Inr [2]), nc_ser_vote = (\<lambda>v. Inr [3]),
      nc_de_block = (\<lambda>_. None), nc_de_tx = (\<lambda>_. None), nc_de_vote = (\<lambda>_. None) \<rparr>" 0 0 "genesis 0"]
  by (simp add: p2p_new_def)

end
