(* ===== verification/Session.thy ===== *)
theory Session
  imports Net
begin

text \<open>
  A connection between a node and a follower: the messages of \<open>src/src/network/p2p.rs\<close>, the session
  that serves an inbound peer (\<open>handle_peer_inbound\<close> in \<open>src/src/main.rs\<close>) down to the bytes that its
  reads take from the socket, and the session of a follower (\<open>run_sync_client\<close>). The serving loop
  waits for a message and for a produced block at once; when the block is first, the started read is
  dropped with the bytes that it has taken.
\<close>

section \<open>Messages\<close>

datatype network_message =
    NewBlock block
  | NewTx transaction
  | ConsensusVote vote
  | BlockRequest block_request
  | BlockResponse block_response
  | Hello hello_message
  | Bye

definition our_hello :: "'d chain \<Rightarrow> network_message" where
  "our_hello c =
     Hello \<lparr> hm_version = PROTOCOL_VERSION, hm_height = ch_height c, hm_tip_hash = zeros 32,
             hm_protocols = [''/cipherx/sync/1.0.0''], hm_onion_address = None \<rparr>"

section \<open>Reading from the socket\<close>

text \<open>
  One poll of a started \<open>recv_msg\<close>: \<open>t\<close> holds the bytes that it has taken so far, \<open>u\<close> those that the
  socket still holds. The result is \<^const>\<open>None\<close> while the message is not complete.
\<close>

definition poll_recv ::
  "(bytes \<Rightarrow> 'm option) \<Rightarrow> bytes \<Rightarrow> bytes \<Rightarrow> (frame_error + 'm) option \<times> bytes \<times> bytes" where
  "poll_recv de t u =
     (let t1 = t @ take (4 - length t) u; u1 = drop (4 - length t) u in
      if length t1 < 4 then (None, t1, u1)
      else
        let len = u32_from_be (take 4 t1) in
        if MAX_FRAME_SIZE < len then (Some (Inl (FrameTooLarge len)), [], u1)
        else if len = 0 then (Some (Inl EmptyFrame), [], u1)
        else
          let want = 4 + unat len - length t1; t2 = t1 @ take want u1; u2 = drop want u1 in
          if length t2 < 4 + unat len then (None, t2, u2)
          else (Some (case de (drop 4 t2) of None \<Rightarrow> Inl Deserialize | Some m \<Rightarrow> Inr m), [], u2))"

text \<open>The end of the stream fails a started read.\<close>

definition eof_error :: "bytes \<Rightarrow> frame_error" where
  "eof_error t = (if length t < 4 then ReadLen else ReadBody)"

section \<open>Serving a peer\<close>

datatype inbound_phase = Greet | Serving | Closed

record inbound =
  ib_phase :: inbound_phase
  ib_unread :: bytes
  ib_taken :: bytes
  ib_sent :: bytes
  ib_peer_count :: nat

text \<open>
  What can happen next: bytes arrive, the read is polled, the read meets the end of the stream (once
  all bytes are read), or the branch of the produced blocks is ready with a block, with a gap, or because the channel is closed.
\<close>

datatype inbound_event =
    Arrived bytes
  | PollRead
  | HungUp
  | FeedBlock block
  | FeedLagged nat
  | FeedClosed

definition inbound_close :: "inbound \<Rightarrow> inbound" where
  "inbound_close s = s\<lparr> ib_phase := Closed, ib_peer_count := ib_peer_count s - 1 \<rparr>"

definition inbound_send :: "(network_message \<Rightarrow> bytes) \<Rightarrow> network_message \<Rightarrow> inbound \<Rightarrow> inbound" where
  "inbound_send ser m s =
     (case send_msg ser m of Inl _ \<Rightarrow> inbound_close s | Inr f \<Rightarrow> s\<lparr> ib_sent := ib_sent s @ f \<rparr>)"

definition inbound_start :: "(network_message \<Rightarrow> bytes) \<Rightarrow> 'd chain \<Rightarrow> nat \<Rightarrow> inbound" where
  "inbound_start ser c peers =
     (let s = \<lparr> ib_phase = Greet, ib_unread = [], ib_taken = [], ib_sent = [], ib_peer_count = peers \<rparr> in
      case send_msg ser (our_hello c) of Inl _ \<Rightarrow> s\<lparr>ib_phase := Closed\<rparr> | Inr f \<Rightarrow> s\<lparr>ib_sent := f\<rparr>)"

fun inbound_message ::
  "(network_message \<Rightarrow> bytes) \<Rightarrow> 'd chain \<Rightarrow> frame_error + network_message \<Rightarrow> inbound \<Rightarrow> inbound" where
  "inbound_message ser c (Inr (BlockRequest rq)) s =
     inbound_send ser (BlockResponse \<lparr> rs_request_id = rq_request_id rq, rs_blocks = serve_blocks c rq \<rparr>) s"
| "inbound_message ser c (Inr Bye) s = inbound_close s"
| "inbound_message ser c (Inl err) s = inbound_close s"
| "inbound_message ser c (Inr m) s = s"

definition inbound_received ::
  "(network_message \<Rightarrow> bytes) \<Rightarrow> 'd chain \<Rightarrow> frame_error + network_message \<Rightarrow> inbound \<Rightarrow> inbound" where
  "inbound_received ser c r s =
     (case ib_phase s of
        Greet \<Rightarrow>
          (case r of
             Inr (Hello m) \<Rightarrow> s\<lparr> ib_phase := Serving, ib_peer_count := ib_peer_count s + 1 \<rparr>
           | _ \<Rightarrow> s\<lparr> ib_phase := Closed \<rparr>)
      | Serving \<Rightarrow> inbound_message ser c r s
      | Closed \<Rightarrow> s)"

text \<open>The produced blocks are only looked at in the loop; there, that branch drops the started read.\<close>

fun inbound_step ::
  "(network_message \<Rightarrow> bytes) \<Rightarrow> (bytes \<Rightarrow> network_message option) \<Rightarrow> inbound \<Rightarrow> 'd chain \<times> inbound_event \<Rightarrow> inbound"
where
  "inbound_step ser de s (c, Arrived bs) = s\<lparr> ib_unread := ib_unread s @ bs \<rparr>"
| "inbound_step ser de s (c, PollRead) =
     (if ib_phase s = Closed then s
      else
        (case poll_recv de (ib_taken s) (ib_unread s) of
           (None, t, u) \<Rightarrow> s\<lparr> ib_taken := t, ib_unread := u \<rparr>
         | (Some r, t, u) \<Rightarrow> inbound_received ser c r (s\<lparr> ib_taken := t, ib_unread := u \<rparr>)))"
| "inbound_step ser de s (c, HungUp) =
     (if ib_phase s = Closed \<or> ib_unread s \<noteq> [] then s
      else inbound_received ser c (Inl (eof_error (ib_taken s))) (s\<lparr> ib_taken := [] \<rparr>))"
| "inbound_step ser de s (c, FeedBlock b) =
     (if ib_phase s = Serving then inbound_send ser (NewBlock b) (s\<lparr> ib_taken := [] \<rparr>) else s)"
| "inbound_step ser de s (c, FeedLagged n) =
     (if ib_phase s = Serving then s\<lparr> ib_taken := [] \<rparr> else s)"
| "inbound_step ser de s (c, FeedClosed) =
     (if ib_phase s = Serving then inbound_close (s\<lparr> ib_taken := [] \<rparr>) else s)"

section \<open>Following a seed\<close>

text \<open>
  The session of a follower between its connection and the loss of it. In \<open>CatchingUp to id h\<close> the
  answer to a request up to height \<open>to\<close> is awaited, \<open>id\<close> is the next request's and \<open>h\<close> the height that
  the seed announced. A step takes the height of the follower's chain and what \<open>recv_msg\<close> returned,
  and yields the messages sent and the blocks handed to the main loop.
\<close>

datatype follower = Greeting | CatchingUp u64 u64 u64 | Live | Disconnected

definition request_from :: "u64 \<Rightarrow> u64 \<Rightarrow> u64 \<Rightarrow> follower \<times> network_message list" where
  "request_from seed_height nxt req_id =
     (if nxt \<le> seed_height then
        let to = min (nxt + BLOCKS_PER_BATCH - 1) seed_height in
        (CatchingUp to (req_id + 1) seed_height,
         [BlockRequest \<lparr> rq_from_height = nxt, rq_to_height = to, rq_request_id = req_id \<rparr>])
      else (Live, []))"

fun follow_step ::
  "u64 \<Rightarrow> follower \<Rightarrow> frame_error + network_message \<Rightarrow> follower \<times> network_message list \<times> block list" where
  "follow_step h Greeting (Inr (Hello m)) = (case request_from (hm_height m) (h + 1) 0 of (f, out) \<Rightarrow> (f, out, []))"
| "follow_step h Greeting r = (Disconnected, [], [])"
| "follow_step h (CatchingUp to req_id seed_height) (Inr (BlockResponse rs)) =
     (case request_from seed_height (to + 1) req_id of (f, out) \<Rightarrow> (f, out, rs_blocks rs))"
| "follow_step h (CatchingUp to req_id seed_height) r = (Live, [], [])"
| "follow_step h Live (Inr (NewBlock b)) = (Live, [], [b])"
| "follow_step h Live (Inr Bye) = (Disconnected, [], [])"
| "follow_step h Live (Inl err) = (Disconnected, [], [])"
| "follow_step h Live (Inr m) = (Live, [], [])"
| "follow_step h Disconnected r = (Disconnected, [], [])"

text \<open>A whole session over the results of its reads: the blocks handed to the main loop.\<close>

fun follow_run :: "u64 \<Rightarrow> follower \<Rightarrow> (frame_error + network_message) list \<Rightarrow> follower \<times> network_message list \<times> block list" where
  "follow_run h f [] = (f, [], [])"
| "follow_run h f (r # rs) =
     (case follow_step h f r of (f', out, bs) \<Rightarrow>
        (case follow_run h f' rs of (f'', outs, bss) \<Rightarrow> (f'', out @ outs, bs @ bss)))"

section \<open>Polled reads and whole frames\<close>

definition msg_frame :: "('m \<Rightarrow> bytes) \<Rightarrow> 'm \<Rightarrow> bytes" where
  "msg_frame ser m = u32_to_be (of_nat (length (ser m))) @ ser m"

lemma length_msg_frame [size_simps]: "length (msg_frame ser m) = 4 + length (ser m)"
  by (simp add: msg_frame_def)

lemma frame_fits_value:
  assumes "frame_fits ser m"
  shows "unat (of_nat (length (ser m)) :: u32) = length (ser m)" "(of_nat (length (ser m)) :: u32) \<noteq> 0"
    "\<not> MAX_FRAME_SIZE < (of_nat (length (ser m)) :: u32)"
proof -
  show n: "unat (of_nat (length (ser m)) :: u32) = length (ser m)"
    using assms by (simp add: frame_fits_def unat_of_nat_exact)
  show "(of_nat (length (ser m)) :: u32) \<noteq> 0" using assms n by (auto simp: frame_fits_def)
  show "\<not> MAX_FRAME_SIZE < (of_nat (length (ser m)) :: u32)"
    using assms n by (simp add: MAX_FRAME_SIZE_def frame_fits_def word_less_nat_alt)
qed

lemma send_msg_frame: "frame_fits ser m \<Longrightarrow> send_msg ser m = Inr (msg_frame ser m)"
  using frame_fits_value [of ser m] by (simp add: send_msg_def msg_frame_def Let_def)

text \<open>However many bytes were already taken, a poll of the bytes of a frame reads the message.\<close>

lemma poll_frame:
  assumes "frame_fits ser m" "de (ser m) = Some m" "t @ u = msg_frame ser m @ rest"
    and "length t < length (msg_frame ser m)"
  shows "poll_recv de t u = (Some (Inr m), [], rest)"
proof -
  let ?l = "of_nat (length (ser m)) :: u32" and ?f = "msg_frame ser m"
  note v = frame_fits_value [OF assms(1)]
  define t1 u1 where "t1 = t @ take (4 - length t) u" and "u1 = drop (4 - length t) u"
  have t1u1: "t1 @ u1 = ?f @ rest" using assms(3) by (simp add: t1_def u1_def)
  have long: "4 \<le> length t + length u"
    using arg_cong [OF assms(3), of length] by (simp add: length_msg_frame)
  then have len1: "length t1 = max 4 (length t)" by (auto simp: t1_def)
  then have "take 4 t1 = take 4 (t1 @ u1)" by simp
  then have "take 4 t1 = u32_to_be ?l" unfolding t1u1 by (simp add: msg_frame_def)
  then have l: "u32_from_be (take 4 t1) = ?l" by (simp add: u32_be.dec_enc)
  let ?w = "4 + length (ser m) - length t1"
  have "t1 @ take ?w u1 = take (length ?f) (t1 @ u1)"
    using assms(4) len1 by (simp add: length_msg_frame)
  then have t2: "t1 @ take ?w u1 = ?f" using t1u1 by simp
  then have "t1 @ u1 = ?f @ drop ?w u1" by (metis append.assoc append_take_drop_id)
  then have u2: "drop ?w u1 = rest" using t1u1 by simp
  have d: "drop 4 ?f = ser m" by (simp add: msg_frame_def)
  have "\<not> length t1 < 4" using len1 by simp
  then show ?thesis
    unfolding poll_recv_def Let_def t1_def [symmetric] u1_def [symmetric] l v(1)
    using v(2,3) t2 u2 d assms(2) by (simp add: length_msg_frame)
qed

text \<open>A poll of fewer bytes takes them all and keeps waiting.\<close>

lemma poll_partial:
  assumes "frame_fits ser m" "t @ u @ v = msg_frame ser m" "v \<noteq> []"
  shows "poll_recv de t u = (None, t @ u, [])"
proof (cases "length (t @ u) < 4")
  case True
  then show ?thesis by (simp add: poll_recv_def Let_def)
next
  case False
  let ?l = "of_nat (length (ser m)) :: u32"
  note val = frame_fits_value [OF assms(1)]
  define t1 u1 where "t1 = t @ take (4 - length t) u" and "u1 = drop (4 - length t) u"
  have tu: "t1 @ u1 = t @ u" by (simp add: t1_def u1_def)
  have "take 4 t1 = take 4 (t @ u @ v)" using False by (auto simp: t1_def)
  then have l: "u32_from_be (take 4 t1) = ?l" using assms(2) by (simp add: msg_frame_def u32_be.dec_enc)
  have "length (t @ u) < length (msg_frame ser m)" using assms(2,3) by (metis append.assoc length_append length_greater_0_conv less_add_same_cancel1)
  then have all: "length t + length u < 4 + length (ser m)" by (simp add: length_msg_frame)
  then have short: "length t1 + length u1 < 4 + length (ser m)" using tu by (metis length_append)
  then have "take (4 + length (ser m) - length t1) u1 = u1" "drop (4 + length (ser m) - length t1) u1 = []" by simp_all
  moreover have "\<not> length t1 < 4" using False by (auto simp: t1_def)
  ultimately show ?thesis
    unfolding poll_recv_def Let_def t1_def [symmetric] u1_def [symmetric] l val(1)
    using val(2,3) short all tu by simp
qed

section \<open>An undisturbed session\<close>

definition reply :: "(network_message \<Rightarrow> bytes) \<Rightarrow> 'd chain \<Rightarrow> network_message \<Rightarrow> bytes" where
  "reply ser c m =
     (case m of
        BlockRequest rq \<Rightarrow>
          msg_frame ser (BlockResponse \<lparr> rs_request_id = rq_request_id rq, rs_blocks = serve_blocks c rq \<rparr>)
      | _ \<Rightarrow> [])"

text \<open>A message of the loop that is read back and is no goodbye, with a frame, and an answer's, within the limit.\<close>

definition orderly ::
  "(network_message \<Rightarrow> bytes) \<Rightarrow> (bytes \<Rightarrow> network_message option) \<Rightarrow> 'd chain \<Rightarrow> network_message \<Rightarrow> bool" where
  "orderly ser de c m \<longleftrightarrow>
     frame_fits ser m \<and> de (ser m) = Some m \<and> m \<noteq> Bye \<and>
     (\<forall>rq. m = BlockRequest rq \<longrightarrow>
        frame_fits ser (BlockResponse \<lparr> rs_request_id = rq_request_id rq, rs_blocks = serve_blocks c rq \<rparr>))"

text \<open>The bytes taken, unread and still to come are the frames of the messages \<open>ms\<close>.\<close>

definition awaits :: "(network_message \<Rightarrow> bytes) \<Rightarrow> inbound \<Rightarrow> bytes \<Rightarrow> network_message list \<Rightarrow> bool" where
  "awaits ser s later ms \<longleftrightarrow>
     ib_phase s = Serving \<and> ib_taken s @ ib_unread s @ later = concat (map (msg_frame ser) ms) \<and>
     (ms \<noteq> [] \<longrightarrow> length (ib_taken s) < length (msg_frame ser (hd ms)))"

definition replied ::
  "(network_message \<Rightarrow> bytes) \<Rightarrow> 'd chain \<Rightarrow> inbound \<Rightarrow> network_message list \<Rightarrow> inbound \<Rightarrow> bool" where
  "replied ser c s ms s' \<longleftrightarrow>
     ib_sent s' = ib_sent s @ concat (map (reply ser c) ms) \<and> ib_peer_count s' = ib_peer_count s"

lemma replied_trans: "replied ser c s ms s' \<Longrightarrow> replied ser c s' ms' s'' \<Longrightarrow> replied ser c s (ms @ ms') s''"
  by (simp add: replied_def)

lemma inbound_message_orderly:
  assumes "orderly ser de c m" "ib_phase s = Serving"
  shows "ib_phase (inbound_message ser c (Inr m) s) = Serving" "replied ser c s [m] (inbound_message ser c (Inr m) s)"
    "ib_taken (inbound_message ser c (Inr m) s) = ib_taken s"
    "ib_unread (inbound_message ser c (Inr m) s) = ib_unread s"
  using assms by (cases m; simp add: orderly_def inbound_send_def send_msg_frame replied_def reply_def)+

lemma poll_awaits:
  assumes "\<forall>m\<in>set ms. orderly ser de c m" "awaits ser s later ms"
  defines "s' \<equiv> inbound_step ser de s (c, PollRead)"
  shows "(\<exists>m ms'. ms = m # ms' \<and> awaits ser s' later ms' \<and> replied ser c s [m] s') \<or>
    (awaits ser s' later ms \<and> replied ser c s [] s' \<and> (ms = [] \<or> later \<noteq> []))"
proof (cases ms)
  case Nil
  with assms(2) show ?thesis
    by (simp add: awaits_def s'_def poll_recv_def Let_def replied_def)
next
  case (Cons m ms')
  let ?f = "msg_frame ser m" and ?rest = "concat (map (msg_frame ser) ms')"
  have m: "frame_fits ser m" "de (ser m) = Some m" "orderly ser de c m"
    using assms(1) Cons by (simp_all add: orderly_def)
  have serving: "ib_phase s = Serving" and short: "length (ib_taken s) < length ?f"
    and bytes: "ib_taken s @ ib_unread s @ later = ?f @ ?rest"
    using assms(2) Cons by (simp_all add: awaits_def)
  obtain r where "ib_taken s @ ib_unread s = ?f @ r \<and> r @ later = ?rest \<or>
      (ib_taken s @ ib_unread s) @ r = ?f \<and> later = r @ ?rest"
    using bytes by (auto simp: append_eq_append_conv2 simp flip: append_assoc)
  then consider (whole) "ib_taken s @ ib_unread s = ?f @ r" "r @ later = ?rest"
    | (part) "ib_taken s @ ib_unread s @ r = ?f" "r \<noteq> []" "later = r @ ?rest"
    by (metis append.assoc append_Nil append_Nil2)
  then show ?thesis
  proof cases
    case r: whole
    have "s' = inbound_message ser c (Inr m) (s\<lparr>ib_taken := [], ib_unread := r\<rparr>)"
      unfolding s'_def using serving poll_frame [where de = de and ser = ser, OF m(1,2) r(1) short] by (simp add: inbound_received_def)
    with inbound_message_orderly [OF m(3), of "s\<lparr>ib_taken := [], ib_unread := r\<rparr>"] serving r(2)
    have "awaits ser s' later ms'" "replied ser c s [m] s'"
      by (cases ms'; simp add: awaits_def replied_def length_msg_frame)+
    with Cons show ?thesis by blast
  next
    case part
    then have "s' = s\<lparr>ib_taken := ib_taken s @ ib_unread s, ib_unread := []\<rparr>"
      unfolding s'_def using serving poll_partial [where de = de, OF m(1) part(1,2)] by simp
    moreover have "length (ib_taken s @ ib_unread s) < length ?f"
      using part(1,2) by (metis append.assoc length_append length_greater_0_conv less_add_same_cancel1)
    ultimately show ?thesis
      using Cons part bytes serving by (simp add: awaits_def replied_def)
  qed
qed

lemma poll_awaits_split:
  assumes "\<forall>m\<in>set ms. orderly ser de c m" "awaits ser s later ms"
  shows "\<exists>one todo. ms = one @ todo \<and> awaits ser (inbound_step ser de s (c, PollRead)) later todo \<and>
    replied ser c s one (inbound_step ser de s (c, PollRead)) \<and> (later = [] \<longrightarrow> length todo \<le> length ms - 1)"
  using poll_awaits [OF assms]
proof (elim disjE exE conjE)
  fix m ms'
  assume "ms = m # ms'" "awaits ser (inbound_step ser de s (c, PollRead)) later ms'"
    "replied ser c s [m] (inbound_step ser de s (c, PollRead))"
  then show ?thesis by (intro exI [of _ "[m]"] exI [of _ ms']) simp
next
  assume "awaits ser (inbound_step ser de s (c, PollRead)) later ms"
    "replied ser c s [] (inbound_step ser de s (c, PollRead))"
    "ms = []"
  then show ?thesis by simp
next
  assume "awaits ser (inbound_step ser de s (c, PollRead)) later ms"
    "replied ser c s [] (inbound_step ser de s (c, PollRead))"
    "later \<noteq> []"
  then show ?thesis by (intro exI [of _ "[]"] exI [of _ ms]) simp
qed

text \<open>Bytes that arrive and reads, in any order.\<close>

fun reading :: "inbound_event \<Rightarrow> bool" where
  "reading (Arrived bs) = True"
| "reading PollRead = True"
| "reading _ = False"

fun arrived :: "inbound_event list \<Rightarrow> bytes" where
  "arrived [] = []"
| "arrived (Arrived bs # evs) = bs @ arrived evs"
| "arrived (_ # evs) = arrived evs"

lemma reading_run:
  assumes "\<forall>ev\<in>set evs. reading ev" "\<forall>m\<in>set ms. orderly ser de c m" "awaits ser s (arrived evs) ms"
  shows "\<exists>handled todo. ms = handled @ todo \<and>
    awaits ser (run (inbound_step ser de) s (map (Pair c) evs)) [] todo \<and>
    replied ser c s handled (run (inbound_step ser de) s (map (Pair c) evs))"
  using assms
proof (induction evs arbitrary: s ms)
  case Nil
  then show ?case by (intro exI [of _ "[]"] exI [of _ ms]) (simp add: replied_def)
next
  case (Cons ev evs)
  let ?s = "inbound_step ser de s (c, ev)"
  have "\<exists>one todo. ms = one @ todo \<and> awaits ser ?s (arrived evs) todo \<and> replied ser c s one ?s"
  proof (cases ev)
    case (Arrived bs)
    with Cons.prems(3) show ?thesis
      by (intro exI [of _ "[]"] exI [of _ ms]) (simp add: awaits_def replied_def)
  next
    case PollRead
    then have "awaits ser s (arrived evs) ms" using Cons.prems(3) by simp
    from poll_awaits_split [OF Cons.prems(2) this] show ?thesis unfolding PollRead by blast
  qed (use Cons.prems(1) in simp_all)
  then obtain one todo where o: "ms = one @ todo" "awaits ser ?s (arrived evs) todo" "replied ser c s one ?s"
    by blast
  obtain handled todo' where "todo = handled @ todo'"
    "awaits ser (run (inbound_step ser de) ?s (map (Pair c) evs)) [] todo'"
    "replied ser c ?s handled (run (inbound_step ser de) ?s (map (Pair c) evs))"
    using Cons.IH [of todo ?s] Cons.prems o by auto
  with o show ?case
    by (intro exI [of _ "one @ handled"] exI [of _ todo']) (auto intro: replied_trans)
qed

lemma poll_all:
  "\<forall>m\<in>set ms. orderly ser de c m \<Longrightarrow> awaits ser s [] ms \<Longrightarrow> length ms \<le> n \<Longrightarrow>
   awaits ser (run (inbound_step ser de) s (replicate n (c, PollRead))) [] [] \<and>
   replied ser c s ms (run (inbound_step ser de) s (replicate n (c, PollRead)))"
proof (induction n arbitrary: s ms)
  case (Suc n)
  let ?s = "inbound_step ser de s (c, PollRead)"
  obtain one todo where o: "ms = one @ todo" "awaits ser ?s [] todo" "replied ser c s one ?s"
    and "length todo \<le> length ms - 1"
    using poll_awaits_split [OF Suc.prems(1,2)] by blast
  then have "length todo \<le> n" using Suc.prems(3) by simp
  moreover have "\<forall>m\<in>set todo. orderly ser de c m" using Suc.prems(1) o(1) by simp
  ultimately have rest: "awaits ser (run (inbound_step ser de) ?s (replicate n (c, PollRead))) [] []"
    "replied ser c ?s todo (run (inbound_step ser de) ?s (replicate n (c, PollRead)))"
    using Suc.IH o(2) by blast+
  show ?case
    unfolding replicate_Suc run.simps o(1) by (intro conjI rest(1) replied_trans [OF o(3) rest(2)])
qed (simp add: replied_def)

lemma fresh_awaits:
  "ib_phase s = Serving \<Longrightarrow> ib_taken s = [] \<Longrightarrow> ib_unread s = [] \<Longrightarrow>
   later = concat (map (msg_frame ser) ms) \<Longrightarrow> awaits ser s later ms"
  by (cases ms) (simp_all add: awaits_def length_msg_frame)

lemma reading_all:
  assumes "\<forall>ev\<in>set evs. reading ev" "\<forall>m\<in>set ms. orderly ser de c m" "awaits ser s (arrived evs) ms"
  defines "s' \<equiv> run (inbound_step ser de) s (map (Pair c) (evs @ replicate (length ms) PollRead))"
  shows "awaits ser s' [] []" "replied ser c s ms s'"
proof -
  let ?s = "run (inbound_step ser de) s (map (Pair c) evs)"
  obtain handled todo where r: "ms = handled @ todo" "awaits ser ?s [] todo" "replied ser c s handled ?s"
    using reading_run [OF assms(1-3)] by blast
  have "\<forall>m\<in>set todo. orderly ser de c m" "length todo \<le> length ms" using assms(2) r(1) by simp_all
  from poll_all [OF this(1) r(2) this(2)] replied_trans [OF r(3)] r(1)
  show "awaits ser s' [] []" "replied ser c s ms s'" by (simp_all add: s'_def run_append)
qed

text \<open>
  C19. A session that is left alone serves its peer however the stream is cut into pieces. The conditions
  are: no message says goodbye, each one is read back from its bytes, the bytes of each message and of
  each answer to a request for blocks are not empty and at most the repository's limit of 10 MiB, and
  meanwhile nothing happens but arrivals and reads, the chain staying as it is and the node producing
  no block. Then, however the frames of the messages are cut into the pieces that arrive and
  whenever the loop reads, the session has at every moment sent exactly the answers to an initial part
  of the messages, in order, and once everything has arrived, as many more reads as there are messages
  leave every one answered; the session stays open and the count of peers unchanged. A produced
  block can break this: \<open>push_breaks_request\<close> below.
\<close>

theorem session_answers:
  assumes "\<forall>m\<in>set ms. orderly ser de c m" "\<forall>ev\<in>set evs. reading ev"
    and "arrived evs = concat (map (msg_frame ser) ms)"
    and "ib_phase s = Serving" "ib_taken s = []" "ib_unread s = []"
  shows "(\<exists>handled todo. ms = handled @ todo \<and>
      ib_sent (run (inbound_step ser de) s (map (Pair c) evs)) = ib_sent s @ concat (map (reply ser c) handled)) \<and>
    (let s' = run (inbound_step ser de) s (map (Pair c) (evs @ replicate (length ms) PollRead)) in
      ib_sent s' = ib_sent s @ concat (map (reply ser c) ms) \<and> ib_phase s' = Serving \<and>
      ib_taken s' = [] \<and> ib_unread s' = [] \<and> ib_peer_count s' = ib_peer_count s)"
proof -
  have start: "awaits ser s (arrived evs) ms" using fresh_awaits [OF assms(4-6)] assms(3) by blast
  show ?thesis
    using reading_run [OF assms(2,1) start] reading_all [OF assms(2,1) start]
    by (auto simp: Let_def awaits_def replied_def)
qed

section \<open>A produced block during a read\<close>

text \<open>\<open>bincode\<close> writes an enum's variant first, as four little-endian bytes.\<close>

definition request_tag :: "(network_message \<Rightarrow> bytes) \<Rightarrow> bool" where
  "request_tag ser \<longleftrightarrow> (\<forall>rq. take 4 (ser (BlockRequest rq)) = [3, 0, 0, 0] \<and> 4 < length (ser (BlockRequest rq)))"

text \<open>
  A block produced while a request is being read ends the connection: the request's length has
  arrived and was read, then the node produces a block, and then the rest of the request arrives.
  The loop drops the started read together with the length, takes the beginning of the request for
  a length, refuses it as too large and closes the session; the request is never answered. Without
  the block in between it is.
\<close>

theorem push_breaks_request:
  assumes "orderly ser de c (BlockRequest rq)" "request_tag ser" "frame_fits ser (NewBlock b)"
    and "ib_phase s = Serving" "ib_taken s = []" "ib_unread s = []"
  shows "let f = msg_frame ser (BlockRequest rq);
      cut = run (inbound_step ser de) s
        (map (Pair c) [Arrived (take 4 f), PollRead, FeedBlock b, Arrived (drop 4 f), PollRead]);
      uncut = run (inbound_step ser de) s (map (Pair c) [Arrived (take 4 f), PollRead, Arrived (drop 4 f), PollRead]) in
    ib_phase cut = Closed \<and> ib_sent cut = ib_sent s @ msg_frame ser (NewBlock b) \<and>
    ib_phase uncut = Serving \<and> ib_sent uncut = ib_sent s @ reply ser c (BlockRequest rq)"
proof -
  let ?m = "BlockRequest rq" and ?f = "msg_frame ser (BlockRequest rq)"
  have fits: "frame_fits ser ?m" and tag: "take 4 (ser ?m) = [3, 0, 0, 0]" "4 < length (ser ?m)"
    using assms(1,2) by (simp_all add: orderly_def request_tag_def)
  have f: "take 4 ?f @ drop 4 ?f = ?f" "drop 4 ?f = ser ?m" "drop 4 ?f \<noteq> []"
    using tag(2) by (auto simp: msg_frame_def)
  have part: "poll_recv de [] (take 4 ?f) = (None, take 4 ?f, [])"
    using poll_partial [OF fits, of "[]" "take 4 ?f" "drop 4 ?f"] f by simp
  have "u32_from_be [3, 0, 0, 0] = 50331648" by (simp add: u32_from_be_def)
  then have large: "poll_recv de [] (ser ?m) = (Some (Inl (FrameTooLarge 50331648)), [], drop 4 (ser ?m))"
    using tag by (simp add: poll_recv_def Let_def MAX_FRAME_SIZE_def)
  have whole: "poll_recv de (take 4 ?f) (drop 4 ?f) = (Some (Inr ?m), [], [])"
    using poll_frame [where de = de and ser = ser and m = ?m and rest = "[]"] assms(1) f tag(2)
    by (simp add: orderly_def length_msg_frame)
  have "frame_fits ser (BlockResponse \<lparr>rs_request_id = rq_request_id rq, rs_blocks = serve_blocks c rq\<rparr>)"
    using assms(1) by (simp add: orderly_def)
  then show ?thesis
    using assms(3-6) part large whole f(2)
    by (simp add: Let_def inbound_received_def inbound_send_def send_msg_frame inbound_close_def reply_def)
qed

section \<open>A follower on the wire\<close>

text \<open>The requests of a follower with \<open>k\<close> blocks to a seed that announced the height \<open>n\<close>.\<close>

function requests :: "nat \<Rightarrow> nat \<Rightarrow> u64 \<Rightarrow> block_request list" where
  "requests n k i =
     (if k < n
      then \<lparr> rq_from_height = of_nat (Suc k), rq_to_height = of_nat (min (k + 100) n), rq_request_id = i \<rparr> #
        requests n (min (k + 100) n) (i + 1)
      else [])"
  by pat_completeness auto
termination by (relation "measure (\<lambda>(n, k, i). n - k)") auto

declare requests.simps [simp del]

definition response :: "'d chain \<Rightarrow> block_request \<Rightarrow> network_message" where
  "response c rq = BlockResponse \<lparr> rs_request_id = rq_request_id rq, rs_blocks = serve_blocks c rq \<rparr>"

lemma request_from_requests:
  assumes "k \<le> n" "n < 2 ^ 64 - 200"
  shows "request_from (of_nat n) (of_nat (Suc k)) i =
    (case requests n k i of
       [] \<Rightarrow> (Live, [])
     | rq # _ \<Rightarrow> (CatchingUp (of_nat (min (k + 100) n)) (i + 1) (of_nat n), [BlockRequest rq]))"
proof -
  have small: "k + 100 < 2 ^ 64" "n < 2 ^ 64" "Suc k < 2 ^ 64" using assms by simp_all
  have le: "(of_nat (Suc k) :: u64) \<le> of_nat n \<longleftrightarrow> k < n"
    using small by (simp add: word_le_nat_alt unat_of_nat_exact Suc_le_eq del: of_nat_Suc)
  have "(of_nat (Suc k) :: u64) + BLOCKS_PER_BATCH - 1 = of_nat (k + 100)" by (simp add: BLOCKS_PER_BATCH_def)
  then have "min ((of_nat (Suc k) :: u64) + BLOCKS_PER_BATCH - 1) (of_nat n) = of_nat (min (k + 100) n)"
    using small by (simp add: min_def word_le_nat_alt unat_of_nat_exact del: of_nat_add of_nat_Suc)
  then show ?thesis
    using le by (subst requests.simps) (simp add: request_from_def Let_def del: of_nat_Suc)
qed

text \<open>Answered in order, the follower sends these requests and receives the blocks that it misses.\<close>

lemma follow_requests:
  assumes "serves c bs" "k \<le> length bs"
  shows "case request_from (of_nat (length bs)) (of_nat (Suc k)) i of (f, out) \<Rightarrow>
    \<exists>outs. follow_run h f (map (Inr \<circ> response c) (requests (length bs) k i)) = (Live, outs, drop k bs) \<and>
      out @ outs = map BlockRequest (requests (length bs) k i)"
  using assms(2)
proof (induction "length bs - k" arbitrary: k i rule: less_induct)
  case less
  let ?n = "length bs"
  have big: "?n < 2 ^ 64 - 200" using assms(1) by (simp add: serves_def)
  show ?case
  proof (cases "k < ?n")
    case False
    then show ?thesis
      using less.prems request_from_requests [OF less.prems big] by (simp add: requests.simps)
  next
    case True
    let ?m = "min (k + 100) ?n"
    let ?rq = "\<lparr> rq_from_height = of_nat (Suc k), rq_to_height = of_nat ?m, rq_request_id = i \<rparr>"
    have reqs: "requests ?n k i = ?rq # requests ?n ?m (i + 1)"
      using True by (subst requests.simps) simp
    obtain f out where next_step: "request_from (of_nat ?n) (of_nat ?m + 1) (i + 1) = (f, out)" by fastforce
    have "?n - ?m < ?n - k" "?m \<le> ?n" using True by auto
    from less.hyps [OF this, of "i + 1"] next_step obtain outs where
      rest: "follow_run h f (map (Inr \<circ> response c) (requests ?n ?m (i + 1))) = (Live, outs, drop ?m bs)"
        "out @ outs = map BlockRequest (requests ?n ?m (i + 1))"
      by (auto simp: add.commute)
    have "serve_blocks c ?rq = take (?m - k) (drop k bs)"
      using True by (intro serve_blocks_batch [OF assms(1)]) auto
    moreover have "take (?m - k) (drop k bs) @ drop ?m bs = drop k bs"
      using True by (metis append_take_drop_id drop_drop le_add_diff_inverse2 less_imp_le min.cobounded2 min_def le_add1)
    ultimately show ?thesis
      using request_from_requests [OF less.prems big, of i] reqs next_step rest
      by (simp add: response_def del: of_nat_Suc)
  qed
qed

lemma recv_many_frames:
  "\<forall>m\<in>set ms. frame_fits ser m \<and> de (ser m) = Some m \<Longrightarrow>
   recv_many de (length ms) (concat (map (msg_frame ser) ms)) = (map Inr ms, [])"
proof (induction ms)
  case (Cons m ms)
  then have "recv_msg de (msg_frame ser m @ concat (map (msg_frame ser) ms)) =
      (Inr m, concat (map (msg_frame ser) ms))"
    using recv_send [of ser m de] send_msg_frame [of ser m] by fastforce
  with Cons show ?case by simp
qed simp

text \<open>
  C17. Catching up over the wire, undisturbed and within the frame limit: a server that grew its chain by a
  run of appends and a follower that has its first \<open>k\<close> blocks. The conditions are: the run accepts fewer
  than \<open>2^64 - 200\<close> blocks and their hashes are distinct; every request of the follower and every
  answer to it, a batch of up to 100 blocks, is read back from its bytes, and these bytes are not
  empty and at most the repository's limit of 10 MiB; and meanwhile nothing happens at the server's end but
  arrivals and reads: its chain stays as it is and it produces no block. Then, however the bytes of
  the follower's requests are cut into pieces and whenever the server's loop reads, the bytes that the
  server sends are read by the follower as the answers to its requests, the follower's session sends
  exactly those requests, hands the main loop exactly the blocks that it misses, in order, and is
  then live. What a block does that is produced during the catch-up is the subject of the next property.
\<close>

theorem wire_sync_delivers:
  fixes R :: "'d rocks"
  assumes "fair_arrivals evs" "length (accepted e R (chain_new e now) evs) < 2 ^ 64 - 200"
    and "distinct (map (block_hash_of e) (genesis now # accepted e R (chain_new e now) evs))"
    and "k \<le> length (accepted e R (chain_new e now) evs)"
    and "\<forall>rq\<in>set (requests (length (accepted e R (chain_new e now) evs)) k 0).
      orderly ser de (run (chain_step e R) (chain_new e now) evs) (BlockRequest rq) \<and>
      de (ser (response (run (chain_step e R) (chain_new e now) evs) rq)) =
        Some (response (run (chain_step e R) (chain_new e now) evs) rq)"
    and "\<forall>ev\<in>set reads. reading ev"
    and "arrived reads = concat (map (msg_frame ser \<circ> BlockRequest)
      (requests (length (accepted e R (chain_new e now) evs)) k 0))"
    and "ib_phase s = Serving" "ib_taken s = []" "ib_unread s = []" "ib_sent s = []"
  shows "let server = run (chain_step e R) (chain_new e now) evs; hist = accepted e R (chain_new e now) evs;
      reqs = requests (length hist) k 0;
      s' = run (inbound_step ser de) s (map (Pair server) (reads @ replicate (length reqs) PollRead));
      rs = fst (recv_many de (length reqs) (ib_sent s')) in
    follow_run (of_nat k) Greeting (Inr (our_hello server) # rs) = (Live, map BlockRequest reqs, drop k hist)"
proof -
  let ?hist = "accepted e R (chain_new e now :: 'd chain) evs"
  let ?server = "run (chain_step e R) (chain_new e now :: 'd chain) evs"
  let ?reqs = "requests (length ?hist) k 0"
  let ?s' = "run (inbound_step ser de) s (map (Pair ?server) (reads @ replicate (length ?reqs) PollRead))"
  have srv: "serves ?server ?hist" using run_serves [OF assms(1-3)] .
  have ok: "\<forall>m\<in>set (map BlockRequest ?reqs). orderly ser de ?server m" using assms(5) by auto
  have start: "awaits ser s (arrived reads) (map BlockRequest ?reqs)"
    using assms(7) by (intro fresh_awaits assms(8-10)) simp
  have "ib_sent ?s' = concat (map (reply ser ?server) (map BlockRequest ?reqs))"
    using reading_all(2) [OF assms(6) ok start] assms(11) by (simp add: replied_def)
  also have "\<dots> = concat (map (msg_frame ser) (map (response ?server) ?reqs))"
    by (simp add: reply_def response_def comp_def)
  finally have sent: "ib_sent ?s' = concat (map (msg_frame ser) (map (response ?server) ?reqs))" .
  have "\<forall>m\<in>set (map (response ?server) ?reqs). frame_fits ser m \<and> de (ser m) = Some m"
    using assms(5) by (auto simp: orderly_def response_def)
  from recv_many_frames [OF this]
  have rs: "fst (recv_many de (length ?reqs) (ib_sent ?s')) = map (Inr \<circ> response ?server) ?reqs"
    unfolding sent by simp
  have "ch_height ?server = of_nat (length ?hist)" using srv by (simp add: serves_def)
  with follow_requests [OF srv assms(4), where i = 0 and h = "of_nat k"] show ?thesis
    unfolding Let_def rs by (auto simp: our_hello_def add.commute split: prod.splits)
qed

section \<open>A produced block during the catch-up\<close>

definition beyond :: "u64 \<Rightarrow> frame_error + network_message \<Rightarrow> bool" where
  "beyond h r \<longleftrightarrow> (\<forall>b. r = Inr (NewBlock b) \<longrightarrow> h < hd_height (header b))"

lemma live_delivers:
  assumes "\<forall>r\<in>set rs. beyond h r" "f = Live \<or> f = Disconnected"
  shows "\<exists>f' bs. follow_run k f rs = (f', [], bs) \<and> (\<forall>b\<in>set bs. h < hd_height (header b))"
  using assms
proof (induction rs arbitrary: f)
  case (Cons r rs)
  obtain f' bs where step: "follow_step k f r = (f', [], bs)" "f' = Live \<or> f' = Disconnected"
    "\<forall>b\<in>set bs. h < hd_height (header b)"
  proof (cases r)
    case (Inl err)
    with Cons.prems(2) show ?thesis by (intro that [of Disconnected "[]"]) auto
  next
    case (Inr m)
    show ?thesis
    proof (cases "f = Live")
      case True
      with Inr Cons.prems(1) show ?thesis by (cases m) (auto simp: beyond_def intro: that)
    next
      case False
      with Cons.prems(2) show ?thesis by (intro that [of Disconnected "[]"]) auto
    qed
  qed
  moreover obtain f'' bs' where "follow_run k f' rs = (f'', [], bs')" "\<forall>b\<in>set bs'. h < hd_height (header b)"
    using Cons.IH [OF _ step(2)] Cons.prems(1) by auto
  ultimately show ?case by auto
qed simp

lemma chain_step_height:
  "hd_height (header (snd ev)) \<noteq> ch_height c + 1 \<Longrightarrow> chain_step e R c ev = c"
  by (simp add: chain_step_def append_block_def Let_def)

lemma run_wrong_heights:
  "\<forall>b\<in>set bs. hd_height (header b) \<noteq> ch_height c + 1 \<Longrightarrow> run (chain_step e R) c (zip scheds bs) = c"
proof (induction bs arbitrary: scheds)
  case (Cons b bs)
  then show ?case by (cases scheds) (simp_all add: chain_step_height)
qed simp

text \<open>
  C18. A block produced during the catch-up strands the follower: the follower lacks blocks of the seed
  and has sent its first request; before the seed's session reads it, the seed produces a block and
  pushes it. The follower takes the block for the answer, gives up catching up, drops the block, and
  ignores the answer that follows. From then on, whatever the connection brings, it sends no request
  and no block that it receives extends its chain: the blocks that the seed pushes are all above the
  gap.
\<close>

theorem push_strands_follower:
  assumes "ch_height (follower :: 'f chain) < ch_height seed"
    and "follow_step (ch_height follower) Greeting (Inr (our_hello seed)) = (f, [BlockRequest rq], [])"
    and "orderly ser de c (BlockRequest rq)" "de (ser (response c rq)) = Some (response c rq)"
    and "frame_fits ser (NewBlock b)" "de (ser (NewBlock b)) = Some (NewBlock b)"
    and "ib_phase s = Serving" "ib_taken s = []" "ib_unread s = []" "ib_sent s = []"
    and "\<forall>r\<in>set later. beyond (ch_height seed) r"
  shows "let s' = run (inbound_step ser de) s
        (map (Pair c) [FeedBlock b, Arrived (msg_frame ser (BlockRequest rq)), PollRead]);
      rs = fst (recv_many de 2 (ib_sent s'));
      (f', sent, blocks) = follow_run (ch_height follower) f (rs @ later) in
    rs = [Inr (NewBlock b), Inr (response c rq)] \<and> sent = [] \<and>
    (\<forall>scheds. run (chain_step e R) follower (zip scheds blocks) = follower)"
proof -
  have fits: "frame_fits ser (BlockRequest rq)" "de (ser (BlockRequest rq)) = Some (BlockRequest rq)"
    "frame_fits ser (response c rq)"
    using assms(3) by (simp_all add: orderly_def response_def)
  let ?s' = "run (inbound_step ser de) s
    (map (Pair c) [FeedBlock b, Arrived (msg_frame ser (BlockRequest rq)), PollRead])"
  have "poll_recv de [] (msg_frame ser (BlockRequest rq)) = (Some (Inr (BlockRequest rq)), [], [])"
    using poll_frame [where de = de and ser = ser and t = "[]" and rest = "[]", OF fits(1,2)]
    by (simp add: length_msg_frame)
  then have "ib_sent ?s' = concat (map (msg_frame ser) [NewBlock b, response c rq])"
    using assms(5,7-10) fits(3) by (simp add: inbound_send_def send_msg_frame inbound_received_def response_def)
  then have rs: "fst (recv_many de 2 (ib_sent ?s')) = [Inr (NewBlock b), Inr (response c rq)]"
    using recv_many_frames [of "[NewBlock b, response c rq]" ser de] assms(4-6) fits(3)
    by (simp add: numeral_2_eq_2)
  obtain to i where f: "f = CatchingUp to i (ch_height seed)"
    using assms(2) by (auto simp: our_hello_def request_from_def Let_def split: if_splits)
  obtain f' bs where live: "follow_run (ch_height follower) Live later = (f', [], bs)"
    "\<forall>b\<in>set bs. ch_height seed < hd_height (header b)"
    using live_delivers [OF assms(11)] by blast
  have "hd_height (header b) \<noteq> ch_height follower + 1" if "b \<in> set bs" for b
    using live(2) that assms(1) by (metis inc_le not_less)
  then have "run (chain_step e R) follower (zip scheds bs) = follower" for scheds
    by (intro run_wrong_heights) blast
  then show ?thesis
    unfolding Let_def rs f using live(1) by (simp add: response_def)
qed

section \<open>Demonstration\<close>

text \<open>Messages as their variant, a request with its fields; the messages \<open>ms\<close> are read back.\<close>

fun demo_ser :: "network_message \<Rightarrow> bytes" where
  "demo_ser (NewBlock b) = [0, 0, 0, 0]"
| "demo_ser (NewTx t) = [1, 0, 0, 0]"
| "demo_ser (ConsensusVote v) = [2, 0, 0, 0]"
| "demo_ser (BlockRequest rq) =
     [3, 0, 0, 0] @ u64_to_le (rq_from_height rq) @ u64_to_le (rq_to_height rq) @ u64_to_le (rq_request_id rq)"
| "demo_ser (BlockResponse r) = [4, 0, 0, 0]"
| "demo_ser (Hello h) = [5, 0, 0, 0]"
| "demo_ser Bye = [6, 0, 0, 0]"

definition demo_de :: "network_message list \<Rightarrow> bytes \<Rightarrow> network_message option" where
  "demo_de ms = map_of (map (\<lambda>m. (demo_ser m, m)) ms)"

definition demo_rq :: block_request where
  "demo_rq = \<lparr> rq_from_height = 1, rq_to_height = 1, rq_request_id = 0 \<rparr>"

definition demo_session :: inbound where
  "demo_session = \<lparr> ib_phase = Serving, ib_unread = [], ib_taken = [], ib_sent = [], ib_peer_count = 1 \<rparr>"

lemma demo_session_fresh:
  "ib_phase demo_session = Serving" "ib_taken demo_session = []" "ib_unread demo_session = []" "ib_sent demo_session = []"
  by (simp_all add: demo_session_def)

lemma demo_fits: "frame_fits demo_ser m"
  by (cases m) (simp_all add: frame_fits_def)

lemma demo_orderly:
  "demo_de [BlockRequest demo_rq, response c demo_rq, NewBlock b] (demo_ser (BlockRequest demo_rq)) = Some (BlockRequest demo_rq)"
  "demo_de [BlockRequest demo_rq, response c demo_rq, NewBlock b] (demo_ser (response c demo_rq)) = Some (response c demo_rq)"
  "demo_de [BlockRequest demo_rq, response c demo_rq, NewBlock b] (demo_ser (NewBlock b)) = Some (NewBlock b)"
  "orderly demo_ser (demo_de [BlockRequest demo_rq, response c demo_rq, NewBlock b]) c' (BlockRequest demo_rq)"
  by (simp_all add: demo_de_def response_def orderly_def demo_fits)

lemma demo_tag: "request_tag demo_ser"
  by (simp add: request_tag_def)

theorem session_answers_witness:
  "let f = msg_frame demo_ser (BlockRequest demo_rq); c = chain_new demo 3 :: unit chain;
      de = demo_de [BlockRequest demo_rq, response c demo_rq, NewBlock (genesis 3)] in
    ib_sent (run (inbound_step demo_ser de) demo_session
      (map (Pair c) [Arrived (take 2 f), PollRead, Arrived (drop 2 f), PollRead])) =
    reply demo_ser c (BlockRequest demo_rq)"
proof -
  let ?f = "msg_frame demo_ser (BlockRequest demo_rq)" and ?c = "chain_new demo 3 :: unit chain"
  let ?de = "demo_de [BlockRequest demo_rq, response ?c demo_rq, NewBlock (genesis 3)]"
  have ok: "\<forall>m\<in>set [BlockRequest demo_rq]. orderly demo_ser ?de ?c m" using demo_orderly(4) by simp
  have reads: "\<forall>ev\<in>set [Arrived (take 2 ?f), PollRead, Arrived (drop 2 ?f)]. reading ev" by simp
  have arr: "arrived [Arrived (take 2 ?f), PollRead, Arrived (drop 2 ?f)] =
      concat (map (msg_frame demo_ser) [BlockRequest demo_rq])" by simp
  show ?thesis
    using session_answers [OF ok reads arr demo_session_fresh(1-3)] demo_session_fresh(4)
    by (simp add: Let_def del: inbound_step.simps run.simps)
qed

theorem push_breaks_request_witness:
  "let f = msg_frame demo_ser (BlockRequest demo_rq); c = chain_new demo 3 :: unit chain;
      de = demo_de [BlockRequest demo_rq, response c demo_rq, NewBlock (genesis 3)] in
    ib_phase (run (inbound_step demo_ser de) demo_session
      (map (Pair c) [Arrived (take 4 f), PollRead, FeedBlock (genesis 3), Arrived (drop 4 f), PollRead])) = Closed"
  using push_breaks_request [where ser = demo_ser and c = "chain_new demo 3 :: unit chain" and rq = demo_rq
      and b = "genesis 3" and s = demo_session, OF demo_orderly(4) [where c = "chain_new demo 3 :: unit chain" and b = "genesis 3"]
        demo_tag demo_fits demo_session_fresh(1-3)]
  by (simp add: Let_def del: inbound_step.simps run.simps)

theorem push_strands_follower_witness:
  "let c = (chain_new demo 3 :: unit chain)\<lparr>ch_height := 1\<rparr>; b = (genesis 3)\<lparr>header := (header (genesis 3))\<lparr>hd_height := 2\<rparr>\<rparr>;
      de = demo_de [BlockRequest demo_rq, response c demo_rq, NewBlock b];
      s' = run (inbound_step demo_ser de) demo_session
        (map (Pair c) [FeedBlock b, Arrived (msg_frame demo_ser (BlockRequest demo_rq)), PollRead]);
      rs = fst (recv_many de 2 (ib_sent s'));
      (f', sent, blocks) = follow_run 0 (CatchingUp 1 1 1) (rs @ [Inr (NewBlock b)]) in
    sent = [] \<and> (\<forall>scheds. run (chain_step demo mem_rocks) (chain_new demo 3) (zip scheds blocks) = chain_new demo 3)"
proof -
  let ?c = "(chain_new demo 3 :: unit chain)\<lparr>ch_height := 1\<rparr>"
  let ?b = "(genesis 3)\<lparr>header := (header (genesis 3))\<lparr>hd_height := 2\<rparr>\<rparr>"
  have h: "ch_height (chain_new demo 3) = 0" by (simp add: chain_new_def Let_def)
  have hello: "follow_step (ch_height (chain_new demo 3)) Greeting (Inr (our_hello ?c)) =
      (CatchingUp 1 1 1, [BlockRequest demo_rq], [])"
    unfolding h by (simp add: our_hello_def request_from_def BLOCKS_PER_BATCH_def demo_rq_def)
  have "\<forall>r\<in>set [Inr (NewBlock ?b)]. beyond (ch_height ?c) r" by (simp add: beyond_def)
  note demo = demo_orderly [where c = ?c and b = ?b]
  from push_strands_follower [where R = mem_rocks and e = demo, OF _ hello demo(4,2) demo_fits demo(3)
      demo_session_fresh \<open>\<forall>r\<in>_. _\<close>] show ?thesis
    by (auto simp: h Let_def simp del: inbound_step.simps follow_run.simps run.simps split: prod.splits)
qed

theorem wire_sync_delivers_witness:
  "let server = run (chain_step demo mem_rocks) (chain_new demo 3) (demo_history 3);
      de = demo_de [BlockRequest demo_rq, response server demo_rq, NewBlock (genesis 3)];
      s' = run (inbound_step demo_ser de) demo_session
        (map (Pair server) [Arrived (msg_frame demo_ser (BlockRequest demo_rq)), PollRead]);
      rs = fst (recv_many de 1 (ib_sent s')) in
    follow_run 0 Greeting (Inr (our_hello server) # rs) = (Live, [BlockRequest demo_rq], map snd (demo_history 3))"
proof -
  note h = demo_history_facts
  let ?server = "run (chain_step demo mem_rocks) (chain_new demo 3) (demo_history 3)"
  let ?de = "demo_de [BlockRequest demo_rq, response ?server demo_rq, NewBlock (genesis 3)]"
  have len: "length (demo_history 3) = 1" by (simp add: demo_history_def)
  have reqs: "requests (Suc 0) 0 0 = [demo_rq]"
    by (simp add: requests.simps demo_rq_def)
  show ?thesis
    using wire_sync_delivers [OF h(1), of demo mem_rocks 3 3 0 demo_ser ?de
        "[Arrived (msg_frame demo_ser (BlockRequest demo_rq))]" demo_session]
      len h(3) [of 3]
    by (simp add: h(2) reqs demo_orderly demo_session_fresh Let_def del: inbound_step.simps follow_run.simps run.simps recv_many.simps demo_ser.simps)
qed

end
