(* ===== verification/Rpc.thy ===== *)
theory Rpc
  imports ChainGaps Gas
begin

text \<open>
  The JSON-RPC interface: the handlers of \<open>src/src/network/rpc.rs\<close>, the state that \<open>run_rpc_server\<close> in
  \<open>src/src/main.rs\<close> hands to them, and the wallet's reading of the replies (\<open>get_chain_height\<close>,
  \<open>get_outputs_in_range\<close> in \<open>src/src/bin/wallet.rs\<close>). The text form of JSON is not part of the model: requests
  and replies are JSON values. HTTP is in \<open>Http\<close>.
\<close>

section \<open>Numbers in text\<close>

definition digit_chars :: string where
  "digit_chars = ''0123456789abcdef''"

fun radix_text :: "nat \<Rightarrow> nat \<Rightarrow> string" where
  "radix_text b n =
     (if b < 2 \<or> n < b then [digit_chars ! n] else radix_text b (n div b) @ [digit_chars ! (n mod b)])"

declare radix_text.simps [simp del]

definition dec_text :: "u64 \<Rightarrow> string" where
  "dec_text n = radix_text 10 (unat n)"

definition hex_0x :: "u64 \<Rightarrow> string" where
  "hex_0x n = ''0x'' @ radix_text 16 (unat n)"

definition hex_digit_value :: "char \<Rightarrow> nat option" where
  "hex_digit_value c =
     (let n = of_char c :: nat in
      if 48 \<le> n \<and> n \<le> 57 then Some (n - 48)
      else if 97 \<le> n \<and> n \<le> 102 then Some (n - 87)
      else if 65 \<le> n \<and> n \<le> 70 then Some (n - 55) else None)"

fun hex_accum :: "nat \<Rightarrow> string \<Rightarrow> nat option" where
  "hex_accum acc [] = Some acc"
| "hex_accum acc (c # cs) =
     (case hex_digit_value c of
        None \<Rightarrow> None
      | Some d \<Rightarrow> (if 2 ^ 64 \<le> 16 * acc + d then None else hex_accum (16 * acc + d) cs))"

text \<open>\<open>u64::from_str_radix(s, 16)\<close>: one leading plus sign is allowed, the empty text is not.\<close>

definition u64_from_hex :: "string \<Rightarrow> u64 option" where
  "u64_from_hex s =
     (let ds = (if 1 < length s \<and> hd s = CHR ''+'' then tl s else s) in
      if ds = [] then None else map_option of_nat (hex_accum 0 ds))"

function trim_0x :: "string \<Rightarrow> string" where
  "trim_0x s = (if take 2 s = ''0x'' then trim_0x (drop 2 s) else s)"
  by auto
termination
proof (relation "measure length")
  fix s :: string
  assume "take 2 s = ''0x''"
  then have "s \<noteq> []" by auto
  then show "(drop 2 s, s) \<in> measure length" by (cases s) auto
qed simp

declare trim_0x.simps [simp del]

section \<open>Requests and replies\<close>

datatype json_value =
    JNull | JBool bool | JUint u64 | JInt i64 | JFloat f64 | JString string
  | JArray "json_value list" | JObject "(string \<times> json_value) list"

fun as_str :: "json_value \<Rightarrow> string option" where
  "as_str (JString s) = Some s"
| "as_str _ = None"

fun as_u64 :: "json_value \<Rightarrow> u64 option" where
  "as_u64 (JUint n) = Some n"
| "as_u64 _ = None"

fun as_array :: "json_value \<Rightarrow> json_value list option" where
  "as_array (JArray xs) = Some xs"
| "as_array _ = None"

text \<open>Indexing a value by a key: anything that is missing is null.\<close>

fun json_field :: "json_value \<Rightarrow> string \<Rightarrow> json_value" where
  "json_field (JObject kvs) k = (case map_of kvs k of None \<Rightarrow> JNull | Some v \<Rightarrow> v)"
| "json_field _ k = JNull"

record rpc_request =
  rq_id :: json_value
  rq_method :: string
  rq_params :: "json_value list"

record rpc_response =
  rp_jsonrpc :: string
  rp_id :: json_value
  rp_result :: "json_value option"
  rp_error :: "(int \<times> string) option"

definition rpc_ok :: "json_value \<Rightarrow> json_value \<Rightarrow> rpc_response" where
  "rpc_ok i r = \<lparr> rp_jsonrpc = ''2.0'', rp_id = i, rp_result = Some r, rp_error = None \<rparr>"

definition rpc_err :: "json_value \<Rightarrow> int \<Rightarrow> string \<Rightarrow> rpc_response" where
  "rpc_err i code message =
     \<lparr> rp_jsonrpc = ''2.0'', rp_id = i, rp_result = None, rp_error = Some (code, message) \<rparr>"

definition ERR_METHOD :: int where "ERR_METHOD = - 32601"
definition ERR_PARAMS :: int where "ERR_PARAMS = - 32602"
definition ERR_INTERNAL :: int where "ERR_INTERNAL = - 32603"
definition ERR_NOT_FOUND :: int where "ERR_NOT_FOUND = - 32000"


record block_output_ref =
  bo_tx_pubkey :: string
  bo_one_time_pubkey :: string
  bo_amount_commitment :: string
  bo_encrypted_amount :: string
  bo_output_index :: u32
  bo_tx_id :: string
  bo_block_height :: u64

text \<open>\<open>ns_progress\<close> is the progress as the reply prints it, with one decimal.\<close>

record node_state =
  ns_chain_height :: u64
  ns_tip_hash :: bytes
  ns_peer_count :: u64
  ns_syncing :: bool
  ns_progress :: string
  ns_base_fee_per_gas :: u64
  ns_circulating_supply_ncip :: u64
  ns_block_reward_ncip :: u64
  ns_block_outputs :: "block_output_ref list"

section \<open>Handlers\<close>

definition output_json :: "block_output_ref \<Rightarrow> json_value" where
  "output_json o' =
     JObject
       [(''tx_pubkey'', JString (bo_tx_pubkey o')),
        (''one_time_pubkey'', JString (bo_one_time_pubkey o')),
        (''amount_commitment'', JString (bo_amount_commitment o')),
        (''encrypted_amount'', JString (bo_encrypted_amount o')),
        (''output_index'', JUint (ucast (bo_output_index o'))),
        (''tx_id'', JString (bo_tx_id o')),
        (''block_height'', JUint (bo_block_height o'))]"

definition param_u64 :: "json_value list \<Rightarrow> nat \<Rightarrow> u64 option" where
  "param_u64 params i = (if i < length params then as_u64 (params ! i) else None)"

definition param_str :: "json_value list \<Rightarrow> nat \<Rightarrow> string option" where
  "param_str params i = (if i < length params then as_str (params ! i) else None)"

definition rpc_block_number :: "json_value \<Rightarrow> node_state \<Rightarrow> rpc_response" where
  "rpc_block_number i st = rpc_ok i (JString (hex_0x (ns_chain_height st)))"

definition rpc_get_block_count :: "json_value \<Rightarrow> node_state \<Rightarrow> rpc_response" where
  "rpc_get_block_count i st = rpc_ok i (JUint (ns_chain_height st))"

definition rpc_get_block ::
  "('p, 's) crates \<Rightarrow> i64 \<Rightarrow> json_value \<Rightarrow> json_value list \<Rightarrow> node_state \<Rightarrow> rpc_response" where
  "rpc_get_block e now i params st =
     (case param_u64 params 0 of
        None \<Rightarrow> rpc_err i ERR_PARAMS ''Expected block height''
      | Some height \<Rightarrow>
          (if ns_chain_height st < height
           then rpc_err i ERR_NOT_FOUND (''Block '' @ dec_text height @ '' not found'')
           else
             (let outs = map output_json (filter (\<lambda>x. bo_block_height x = height) (ns_block_outputs st)) in
              rpc_ok i (JObject
                [(''height'', JUint height), (''hash'', JString (hex_encode e (ns_tip_hash st))),
                 (''timestamp'', JInt now), (''txCount'', JUint (if outs = [] then 0 else 1)),
                 (''outputs'', JArray outs)]))))"

definition rpc_get_outputs :: "json_value \<Rightarrow> json_value list \<Rightarrow> node_state \<Rightarrow> rpc_response" where
  "rpc_get_outputs i params st =
     (case param_u64 params 0 of
        None \<Rightarrow> rpc_err i ERR_PARAMS ''Expected from height''
      | Some a \<Rightarrow>
     (case param_u64 params 1 of
        None \<Rightarrow> rpc_err i ERR_PARAMS ''Expected to height''
      | Some b \<Rightarrow>
          (if b < a then rpc_err i ERR_PARAMS ''from must be <= to''
           else if ns_chain_height st < b
           then rpc_err i ERR_NOT_FOUND
             (''Block '' @ dec_text b @ '' not yet available (current height: ''
                @ dec_text (ns_chain_height st) @ '')'')
           else rpc_ok i (JArray (map output_json
                  (filter (\<lambda>x. a \<le> bo_block_height x \<and> bo_block_height x \<le> b) (ns_block_outputs st)))))))"

definition rpc_gas_price :: "json_value \<Rightarrow> node_state \<Rightarrow> rpc_response" where
  "rpc_gas_price i st = rpc_ok i (JString (hex_0x (ns_base_fee_per_gas st)))"

definition rpc_sync_status :: "json_value \<Rightarrow> node_state \<Rightarrow> rpc_response" where
  "rpc_sync_status i st =
     rpc_ok i (JObject
       [(''syncing'', JBool (ns_syncing st)), (''currentBlock'', JUint (ns_chain_height st)),
        (''progress'', JString (ns_progress st @ ''%''))])"

definition rpc_peer_count :: "json_value \<Rightarrow> node_state \<Rightarrow> rpc_response" where
  "rpc_peer_count i st = rpc_ok i (JString (hex_0x (ns_peer_count st)))"

definition rpc_tx_status :: "json_value \<Rightarrow> json_value list \<Rightarrow> rpc_response" where
  "rpc_tx_status i params =
     (case param_str params 0 of
        None \<Rightarrow> rpc_err i ERR_PARAMS ''Expected tx_id''
      | Some txid \<Rightarrow>
          rpc_ok i (JObject
            [(''txId'', JString txid), (''status'', JString ''unknown''), (''blockHeight'', JNull)]))"

definition rpc_send_raw_tx :: "json_value \<Rightarrow> json_value list \<Rightarrow> rpc_response" where
  "rpc_send_raw_tx i params = rpc_err i ERR_INTERNAL ''Use handle_send_raw_tx with mempool''"

definition rpc_chain_id :: "json_value \<Rightarrow> rpc_response" where
  "rpc_chain_id i = rpc_ok i (JString ''0x43495054'')"

definition rpc_protocol_version :: "json_value \<Rightarrow> rpc_response" where
  "rpc_protocol_version i = rpc_ok i (JString ''1'')"

definition rpc_get_supply :: "json_value \<Rightarrow> node_state \<Rightarrow> rpc_response" where
  "rpc_get_supply i st =
     rpc_ok i (JObject
       [(''circulatingSupply'', JUint (ns_circulating_supply_ncip st)),
        (''circulatingSupplyCIP'', JUint (ns_circulating_supply_ncip st div 1000000000)),
        (''maxSupply'', JUint 100000000),
        (''blockReward'', JUint (ns_block_reward_ncip st)),
        (''blockRewardCIP'', JUint (ns_block_reward_ncip st div 1000000000))])"

definition rpc_wallet_balance :: "json_value \<Rightarrow> node_state \<Rightarrow> rpc_response" where
  "rpc_wallet_balance i st =
     rpc_ok i (JObject
       [(''balance'', JUint (ns_circulating_supply_ncip st)),
        (''balanceCIP'', JUint (ns_circulating_supply_ncip st div 1000000000))])"

definition handle_request ::
  "('p, 's) crates \<Rightarrow> i64 \<Rightarrow> rpc_request \<Rightarrow> node_state \<Rightarrow> rpc_response" where
  "handle_request e now rq st =
     (let i = rq_id rq; m = rq_method rq; ps = rq_params rq in
      if m = ''cipherx_blockNumber'' then rpc_block_number i st
      else if m = ''cipherx_getBlockCount'' then rpc_get_block_count i st
      else if m = ''cipherx_getBlock'' then rpc_get_block e now i ps st
      else if m = ''cipherx_getOutputs'' then rpc_get_outputs i ps st
      else if m = ''cipherx_gasPrice'' then rpc_gas_price i st
      else if m = ''cipherx_syncStatus'' then rpc_sync_status i st
      else if m = ''cipherx_peerCount'' then rpc_peer_count i st
      else if m = ''cipherx_getTxStatus'' then rpc_tx_status i ps
      else if m = ''cipherx_sendRawTransaction'' then rpc_send_raw_tx i ps
      else if m = ''cipherx_chainId'' then rpc_chain_id i
      else if m = ''cipherx_protocolVersion'' then rpc_protocol_version i
      else if m = ''cipherx_getSupply'' then rpc_get_supply i st
      else if m = ''wallet_getBalance'' then rpc_wallet_balance i st
      else if m = ''net_version'' then rpc_chain_id i
      else rpc_err i ERR_METHOD (''Method not found: '' @ m))"

section \<open>Submitting a transaction\<close>

definition cont_byte :: "u8 \<Rightarrow> bool" where
  "cont_byte b \<longleftrightarrow> 0x80 \<le> b \<and> b \<le> 0xBF"

text \<open>\<open>std::str::from_utf8\<close>: the well-formed byte sequences of the Unicode standard.\<close>

fun utf8_valid :: "bytes \<Rightarrow> bool" where
  "utf8_valid [] = True"
| "utf8_valid (b # bs) =
     (if b \<le> 0x7F then utf8_valid bs
      else
        (case bs of
           c # cs \<Rightarrow>
             (if 0xC2 \<le> b \<and> b \<le> 0xDF then cont_byte c \<and> utf8_valid cs
              else
                (case cs of
                   d # ds \<Rightarrow>
                     (if 0xE0 \<le> b \<and> b \<le> 0xEF
                      then (if b = 0xE0 then 0xA0 \<le> c \<and> c \<le> 0xBF
                            else if b = 0xED then 0x80 \<le> c \<and> c \<le> 0x9F else cont_byte c)
                        \<and> cont_byte d \<and> utf8_valid ds
                      else
                        (case ds of
                           f # fs \<Rightarrow>
                             0xF0 \<le> b \<and> b \<le> 0xF4
                             \<and> (if b = 0xF0 then 0x90 \<le> c \<and> c \<le> 0xBF
                                else if b = 0xF4 then 0x80 \<le> c \<and> c \<le> 0x8F else cont_byte c)
                             \<and> cont_byte d \<and> cont_byte f \<and> utf8_valid fs
                         | [] \<Rightarrow> False))
                 | [] \<Rightarrow> False))
         | [] \<Rightarrow> False))"

lemma utf8_valid_ascii: "\<forall>b\<in>set bs. b \<le> 0x7F \<Longrightarrow> utf8_valid bs"
  by (induction bs) auto

text \<open>The pending transactions of the node are a vector behind a lock.\<close>

definition handle_send_raw_tx ::
  "('p, 's) crates \<Rightarrow> rpc_request \<Rightarrow> transaction list \<Rightarrow> rpc_response \<times> transaction list" where
  "handle_send_raw_tx e rq mempool =
     (let i = rq_id rq in
      case param_str (rq_params rq) 0 of
        None \<Rightarrow> (rpc_err i ERR_PARAMS ''Expected raw tx hex'', mempool)
      | Some raw_hex \<Rightarrow>
     (case hex_decode e raw_hex of
        None \<Rightarrow> (rpc_err i ERR_PARAMS ''Invalid hex encoding'', mempool)
      | Some json_bytes \<Rightarrow>
          (if \<not> utf8_valid json_bytes then (rpc_err i ERR_PARAMS ''Invalid UTF-8 in payload'', mempool)
           else
             (case from_lite_raw e (bytes_str json_bytes) of
                Some tx \<Rightarrow> (rpc_ok i (JString (''0x'' @ hex_encode e (tx_ident e tx))), mempool @ [tx])
              | None \<Rightarrow> (rpc_err i ERR_PARAMS ''Invalid transaction format'', mempool)))))"

definition utxo_ref :: "('p, 's) crates \<Rightarrow> utxo_entry \<Rightarrow> block_output_ref" where
  "utxo_ref e u =
     \<lparr> bo_tx_pubkey = hex_encode e (tx_pubkey (ut_output u)),
       bo_one_time_pubkey = hex_encode e (one_time_pubkey (ut_output u)),
       bo_amount_commitment = hex_encode e (amount_commitment (ut_output u)),
       bo_encrypted_amount = hex_encode e (encrypted_amount (ut_output u)),
       bo_output_index = ut_output_index u,
       bo_tx_id = hex_encode e (ut_tx_id u),
       bo_block_height = ut_block_height u \<rparr>"

text \<open>The state that the server hands to the handlers; \<open>ks\<close> lists the keys of the output map.\<close>

definition rpc_state :: "('p, 's) crates \<Rightarrow> (tx_id \<times> u32) list \<Rightarrow> nat \<Rightarrow> 'd chain \<Rightarrow> node_state" where
  "rpc_state e ks peers c =
     (let s = stats e c in
      \<lparr> ns_chain_height = cs_height s, ns_tip_hash = zeros 32, ns_peer_count = of_nat peers,
        ns_syncing = False, ns_progress = ''1.0'', ns_base_fee_per_gas = 0,
        ns_circulating_supply_ncip = cs_circulating_supply_cip s * 1000000000,
        ns_block_reward_ncip = cs_next_block_reward_cip s * 1000000000,
        ns_block_outputs = map (utxo_ref e) (all_utxos ks c) \<rparr>)"

definition serve_rpc ::
  "('p, 's) crates \<Rightarrow> i64 \<Rightarrow> (tx_id \<times> u32) list \<Rightarrow> nat \<Rightarrow> 'd chain \<Rightarrow> transaction list \<Rightarrow> rpc_request \<Rightarrow>
   rpc_response \<times> transaction list" where
  "serve_rpc e now ks peers c mempool rq =
     (if rq_method rq = ''cipherx_sendRawTransaction'' then handle_send_raw_tx e rq mempool
      else (handle_request e now rq (rpc_state e ks peers c), mempool))"

section \<open>The wallet's reading\<close>

text \<open>A call answers the result of the reply; \<^const>\<open>None\<close> also stands for a node that cannot be reached.\<close>

definition get_chain_height :: "json_value option \<Rightarrow> u64 option" where
  "get_chain_height result =
     (case result of None \<Rightarrow> None | Some v \<Rightarrow>
     (case as_str v of None \<Rightarrow> None | Some s \<Rightarrow> u64_from_hex (trim_0x s)))"

type_synonym fetched_output = "string \<times> string \<times> string \<times> u64 \<times> u32 \<times> string"

definition str_or_empty :: "json_value \<Rightarrow> string" where
  "str_or_empty v = (case as_str v of Some s \<Rightarrow> s | None \<Rightarrow> [])"

definition u64_or_zero :: "json_value \<Rightarrow> u64" where
  "u64_or_zero v = (case as_u64 v of Some n \<Rightarrow> n | None \<Rightarrow> 0)"

definition fetched_item :: "json_value \<Rightarrow> fetched_output" where
  "fetched_item item =
     (str_or_empty (json_field item ''tx_pubkey''), str_or_empty (json_field item ''one_time_pubkey''),
      str_or_empty (json_field item ''encrypted_amount''), u64_or_zero (json_field item ''block_height''),
      ucast (u64_or_zero (json_field item ''output_index'')), str_or_empty (json_field item ''tx_id''))"

definition get_outputs_in_range :: "json_value option \<Rightarrow> fetched_output list" where
  "get_outputs_in_range result =
     (case result of None \<Rightarrow> [] | Some v \<Rightarrow>
     (case as_array v of
        None \<Rightarrow> []
      | Some arr \<Rightarrow> filter (\<lambda>(tp, op, _). tp \<noteq> [] \<and> op \<noteq> []) (map fetched_item arr)))"

section \<open>Lemmas\<close>

lemma hex_digit_value_digit: "n < 16 \<Longrightarrow> hex_digit_value (digit_chars ! n) = Some n"
proof -
  have "\<forall>n \<in> set [0..<16]. hex_digit_value (digit_chars ! n) = Some n"
    by (simp add: digit_chars_def hex_digit_value_def upt_rec numeral_eq_Suc)
  then show "n < 16 \<Longrightarrow> hex_digit_value (digit_chars ! n) = Some n" by simp
qed

lemma hex_accum_append:
  "hex_accum acc (xs @ ys) = (case hex_accum acc xs of None \<Rightarrow> None | Some a \<Rightarrow> hex_accum a ys)"
  by (induction xs arbitrary: acc) (auto split: option.splits)

lemma hex_accum_radix: "n < 2 ^ 64 \<Longrightarrow> hex_accum 0 (radix_text 16 n) = Some n"
proof (induction "16 :: nat" n rule: radix_text.induct)
  case (1 n)
  show ?case
  proof (cases "n < 16")
    case True
    then show ?thesis by (simp add: radix_text.simps [of 16 n] hex_digit_value_digit)
  next
    case False
    have "n div 16 < 2 ^ 64" using 1(2) by simp
    with 1(1) False have "hex_accum 0 (radix_text 16 (n div 16)) = Some (n div 16)" by simp
    with False 1(2) show ?thesis
      by (simp add: radix_text.simps [of 16 n] hex_accum_append hex_digit_value_digit)
  qed
qed

lemma radix_text_digits: "set (radix_text 16 n) \<subseteq> set digit_chars \<and> radix_text 16 n \<noteq> []"
proof (induction "16 :: nat" n rule: radix_text.induct)
  case (1 n)
  have "length digit_chars = 16" by (simp add: digit_chars_def)
  then have d: "digit_chars ! (n mod 16) \<in> set digit_chars" "n < 16 \<Longrightarrow> digit_chars ! n \<in> set digit_chars"
    by simp_all
  with 1 show ?case by (cases "n < 16") (auto simp: radix_text.simps [of 16 n])
qed

lemma parse_hex_0x: "u64_from_hex (trim_0x (hex_0x n)) = Some n"
proof -
  let ?t = "radix_text 16 (unat n)"
  have digits: "set ?t \<subseteq> set digit_chars" "?t \<noteq> []" using radix_text_digits by auto
  have x: "CHR ''x'' \<notin> set digit_chars" "CHR ''+'' \<notin> set digit_chars" by (simp_all add: digit_chars_def)
  have "take 2 ?t \<noteq> ''0x''"
  proof
    assume "take 2 ?t = ''0x''"
    then have "CHR ''x'' \<in> set ?t" by (metis in_set_takeD list.set_intros(1,2))
    with digits x show False by auto
  qed
  then have trim: "trim_0x (hex_0x n) = ?t" by (simp add: hex_0x_def trim_0x.simps)
  have "hd ?t \<noteq> CHR ''+''" using digits x by (metis hd_in_set subsetD)
  then show ?thesis
    using digits unsigned_less [of n, where ?'a = nat]
    by (simp add: trim u64_from_hex_def hex_accum_radix)
qed

lemma fetched_output_json:
  "fetched_item (output_json r) =
     (bo_tx_pubkey r, bo_one_time_pubkey r, bo_encrypted_amount r, bo_block_height r, bo_output_index r, bo_tx_id r)"
  by (simp add: fetched_item_def output_json_def str_or_empty_def u64_or_zero_def
      unsigned_ucast_eq take_bit_word_eq_self)

definition fetched_utxo :: "('p, 's) crates \<Rightarrow> utxo_entry \<Rightarrow> fetched_output" where
  "fetched_utxo e u =
     (hex_encode e (tx_pubkey (ut_output u)), hex_encode e (one_time_pubkey (ut_output u)),
      hex_encode e (encrypted_amount (ut_output u)), ut_block_height u, ut_output_index u,
      hex_encode e (ut_tx_id u))"

lemma height_read_back:
  "get_chain_height (rp_result (fst (serve_rpc e now ks peers c mempool
     \<lparr> rq_id = i, rq_method = ''cipherx_blockNumber'', rq_params = [] \<rparr>))) = Some (ch_height c)"
  by (simp add: serve_rpc_def handle_request_def rpc_block_number_def rpc_ok_def get_chain_height_def
      rpc_state_def stats_def parse_hex_0x Let_def)

text \<open>The node's answer to the wallet's request for the outputs of a range.\<close>

definition node_outputs ::
  "('p, 's) crates \<Rightarrow> i64 \<Rightarrow> (tx_id \<times> u32) list \<Rightarrow> nat \<Rightarrow> 'd chain \<Rightarrow> u64 \<Rightarrow> u64 \<Rightarrow> json_value option" where
  "node_outputs e now ks peers c a b =
     rp_result (fst (serve_rpc e now ks peers c []
       \<lparr> rq_id = JUint 1, rq_method = ''cipherx_getOutputs'', rq_params = [JUint a, JUint b] \<rparr>))"

definition keyed :: "utxo_entry \<Rightarrow> bool" where
  "keyed u \<longleftrightarrow> length (tx_pubkey (ut_output u)) = 32 \<and> length (one_time_pubkey (ut_output u)) = 32"

lemma outputs_read_back:
  assumes "\<forall>b. length (hex_encode e b) = 2 * length b" "\<forall>u\<in>set (all_utxos ks c). keyed u"
    and "a \<le> b" "b \<le> ch_height c"
  shows "get_outputs_in_range (node_outputs e now ks peers c a b) =
    map (fetched_utxo e) (filter (\<lambda>u. a \<le> ut_block_height u \<and> ut_block_height u \<le> b) (all_utxos ks c))"
proof -
  let ?us = "all_utxos ks c"
  let ?in = "\<lambda>u. a \<le> ut_block_height u \<and> ut_block_height u \<le> b"
  have item: "fetched_item (output_json (utxo_ref e u)) = fetched_utxo e u" for u
    by (simp add: fetched_output_json utxo_ref_def fetched_utxo_def)
  have ne: "hex_encode e (tx_pubkey (ut_output u)) \<noteq> []" "hex_encode e (one_time_pubkey (ut_output u)) \<noteq> []"
    if "u \<in> set ?us" for u
    using assms(1) assms(2) [rule_format, OF that] unfolding keyed_def
    by (metis length_0_conv mult_eq_0_iff zero_neq_numeral)+
  have "filter (\<lambda>x. a \<le> bo_block_height x \<and> bo_block_height x \<le> b) (map (utxo_ref e) ?us) =
      map (utxo_ref e) (filter ?in ?us)"
    by (simp add: filter_map comp_def utxo_ref_def)
  moreover have "filter (\<lambda>(tp, op, _). tp \<noteq> [] \<and> op \<noteq> []) (map (fetched_utxo e) (filter ?in ?us)) =
      map (fetched_utxo e) (filter ?in ?us)"
    using ne by (intro filter_True) (auto simp: fetched_utxo_def)
  ultimately show ?thesis
    using assms(3,4)
    by (simp add: node_outputs_def serve_rpc_def handle_request_def rpc_get_outputs_def param_u64_def
        rpc_ok_def get_outputs_in_range_def rpc_state_def stats_def item comp_def not_less Let_def leD)
qed









text \<open>
  The wallet reads what the node serves: the reply to \<open>cipherx_blockNumber\<close> is read back as the
  height of the chain, and for a range of heights that the chain covers the reply to
  \<open>cipherx_getOutputs\<close> is read back as exactly the outputs of the chain's output set in that range, in
  the order of the listing.
\<close>

theorem rpc_wallet_agree:
  assumes "\<forall>b. length (hex_encode e b) = 2 * length b" "\<forall>u\<in>set (all_utxos ks c). keyed u"
    and "a \<le> b" "b \<le> ch_height c"
  shows "get_chain_height (rp_result (fst (serve_rpc e now ks peers c mempool
        \<lparr> rq_id = i, rq_method = ''cipherx_blockNumber'', rq_params = [] \<rparr>))) = Some (ch_height c)
    \<and> get_outputs_in_range (node_outputs e now ks peers c a b) =
      map (fetched_utxo e) (filter (\<lambda>u. a \<le> ut_block_height u \<and> ut_block_height u \<le> b) (all_utxos ks c))"
  using height_read_back outputs_read_back [OF assms] by blast

definition demo_utxo :: utxo_entry where
  "demo_utxo =
     \<lparr> ut_output = hd (outputs (coinbase_placeholder 5)), ut_block_height = 5, ut_tx_id = zeros 32,
       ut_output_index = 0 \<rparr>"

theorem rpc_wallet_agree_witness:
  "let c = (chain_new demo 3 :: unit chain)\<lparr>utxo_set := [(zeros 32, 0) \<mapsto> demo_utxo], ch_height := 5\<rparr> in
    get_chain_height (rp_result (fst (serve_rpc demo 0 [(zeros 32, 0)] 2 c []
      \<lparr> rq_id = JNull, rq_method = ''cipherx_blockNumber'', rq_params = [] \<rparr>))) = Some 5
    \<and> get_outputs_in_range (node_outputs demo 0 [(zeros 32, 0)] 2 c 4 5) = [fetched_utxo demo demo_utxo]"
proof -
  let ?c = "(chain_new demo 3 :: unit chain)\<lparr>utxo_set := [(zeros 32, 0) \<mapsto> demo_utxo], ch_height := 5\<rparr>"
  have all: "all_utxos [(zeros 32, 0)] ?c = [demo_utxo]" by (simp add: all_utxos_def)
  have u: "ut_block_height demo_utxo = 5" "keyed demo_utxo"
    by (simp_all add: demo_utxo_def keyed_def coinbase_placeholder_def)
  then have keys: "\<forall>u\<in>set (all_utxos [(zeros 32, 0)] ?c). keyed u" by (simp add: all)
  show ?thesis
    using rpc_wallet_agree [OF demo_hex_length keys, of 4 5 0 2 "[]" JNull] u by (simp add: all)
qed

end
