(* ===== verification/Mnemonic.thy ===== *)
theory Mnemonic
  imports Data "HOL-Library.List_Lexorder" "HOL-Library.Char_ord"
begin

text \<open>
  The mnemonic of a wallet (\<open>generate_mnemonic\<close> and \<open>validate_mnemonic\<close> in \<open>src/src/bin/wallet.rs\<close>): 24
  words from a list of 256, one for each byte of entropy. \<open>split_whitespace\<close> of the standard library
  is modelled on the UTF-8 bytes of the string, with all the white space of Unicode.
\<close>

section \<open>The word list\<close>

definition WORDS :: "string list" where
  "WORDS =
    [
     ''abandon'', ''ability'', ''able'', ''about'', ''above'', ''absent'', ''absorb'', ''abstract'',
     ''absurd'', ''abuse'', ''access'', ''accident'', ''account'', ''accuse'', ''achieve'', ''acid'',
     ''acoustic'', ''acquire'', ''across'', ''act'', ''action'', ''actor'', ''actress'', ''actual'',
     ''adapt'', ''add'', ''addict'', ''address'', ''adjust'', ''admit'', ''adult'', ''advance'',
     ''advice'', ''aerobic'', ''afford'', ''afraid'', ''again'', ''agent'', ''agree'', ''ahead'',
     ''aim'', ''air'', ''airport'', ''aisle'', ''alarm'', ''album'', ''alcohol'', ''alert'',
     ''alien'', ''all'', ''alley'', ''allow'', ''almost'', ''alone'', ''alpha'', ''already'',
     ''also'', ''alter'', ''always'', ''amateur'', ''amazing'', ''among'', ''amount'', ''amused'',
     ''analyst'', ''anchor'', ''ancient'', ''anger'', ''angle'', ''angry'', ''animal'', ''ankle'',
     ''announce'', ''annual'', ''another'', ''answer'', ''antenna'', ''antique'', ''anxiety'', ''any'',
     ''apart'', ''apology'', ''appear'', ''apple'', ''approve'', ''april'', ''arch'', ''area'',
     ''argue'', ''arm'', ''army'', ''around'', ''arrange'', ''arrest'', ''arrive'', ''arrow'',
     ''art'', ''artefact'', ''artist'', ''artwork'', ''ask'', ''aspect'', ''assault'', ''asset'',
     ''assist'', ''assume'', ''asthma'', ''athlete'', ''atom'', ''attack'', ''attend'', ''attitude'',
     ''attract'', ''auction'', ''audit'', ''august'', ''aunt'', ''author'', ''auto'', ''autumn'',
     ''average'', ''avocado'', ''avoid'', ''awake'', ''aware'', ''away'', ''awesome'', ''awful'',
     ''awkward'', ''axis'', ''baby'', ''balance'', ''bamboo'', ''banana'', ''banner'', ''barely'',
     ''bargain'', ''barrel'', ''base'', ''basic'', ''basket'', ''battle'', ''beach'', ''bean'',
     ''beauty'', ''because'', ''become'', ''beef'', ''before'', ''begin'', ''behave'', ''behind'',
     ''believe'', ''below'', ''belt'', ''bench'', ''benefit'', ''best'', ''betray'', ''better'',
     ''between'', ''beyond'', ''bicycle'', ''bid'', ''bike'', ''bind'', ''biology'', ''bird'',
     ''birth'', ''bitter'', ''black'', ''blade'', ''blame'', ''blanket'', ''blast'', ''bleak'',
     ''bless'', ''blind'', ''blood'', ''blossom'', ''blouse'', ''blue'', ''blur'', ''blush'',
     ''board'', ''boat'', ''body'', ''boil'', ''bomb'', ''bone'', ''bonus'', ''book'',
     ''boost'', ''border'', ''boring'', ''borrow'', ''boss'', ''bottom'', ''bounce'', ''box'',
     ''boy'', ''bracket'', ''brain'', ''brand'', ''brass'', ''brave'', ''bread'', ''breeze'',
     ''brick'', ''bridge'', ''brief'', ''bright'', ''bring'', ''brisk'', ''broccoli'', ''broken'',
     ''bronze'', ''broom'', ''brother'', ''brown'', ''brush'', ''bubble'', ''buddy'', ''budget'',
     ''buffalo'', ''build'', ''bulb'', ''bulk'', ''bullet'', ''bundle'', ''bunker'', ''burden'',
     ''burger'', ''burst'', ''bus'', ''business'', ''busy'', ''butter'', ''buyer'', ''buzz'',
     ''cabbage'', ''cabin'', ''cable'', ''cactus'', ''cage'', ''cake'', ''call'', ''calm'',
     ''camera'', ''camp'', ''can'', ''canal'', ''cancel'', ''candy'', ''cannon'', ''canoe''
    ]"

definition MNEMONIC_WORDS :: nat where
  "MNEMONIC_WORDS = 24"

definition word_char :: "char \<Rightarrow> bool" where
  "word_char c \<longleftrightarrow> 97 \<le> (of_char c :: nat) \<and> (of_char c :: nat) \<le> 122"

definition plain_word :: "string \<Rightarrow> bool" where
  "plain_word w \<longleftrightarrow> w \<noteq> [] \<and> list_all word_char w"

lemma WORDS_plain: "list_all plain_word WORDS"
  by code_simp

lemma length_WORDS: "length WORDS = 256"
  by (simp add: WORDS_def)

lemma distinct_WORDS: "distinct WORDS"
proof -
  have "successively (<) WORDS" by code_simp
  then have "sorted_wrt (<) WORDS" by (simp add: successively_conv_sorted_wrt)
  then show ?thesis by (simp add: strict_sorted_iff)
qed

section \<open>White space\<close>

text \<open>The length in UTF-8 bytes of the white-space character that the bytes begin with, if any.\<close>

definition ws_len :: "nat list \<Rightarrow> nat" where
  "ws_len bs =
     (if bs \<noteq> [] \<and> hd bs \<in> {9, 10, 11, 12, 13, 32} then 1
      else if take 2 bs \<in> {[0xC2, 0x85], [0xC2, 0xA0]} then 2
      else if take 3 bs \<in> {[0xE1, 0x9A, 0x80], [0xE2, 0x80, 0xA8], [0xE2, 0x80, 0xA9], [0xE2, 0x80, 0xAF],
          [0xE2, 0x81, 0x9F], [0xE3, 0x80, 0x80]}
        \<or> (take 2 bs = [0xE2, 0x80] \<and> 2 < length bs \<and> 0x80 \<le> bs ! 2 \<and> bs ! 2 \<le> 0x8A) then 3
      else 0)"

definition flush :: "string \<Rightarrow> string list" where
  "flush cur = (if cur = [] then [] else [cur])"

function split_ws :: "string \<Rightarrow> string \<Rightarrow> string list" where
  "split_ws cur [] = flush cur"
| "split_ws cur (c # cs) =
     (let n = ws_len (map of_char (c # cs)) in
      if n = 0 then split_ws (cur @ [c]) cs else flush cur @ split_ws [] (drop n (c # cs)))"
  by pat_completeness auto
termination
  by (relation "measure (\<lambda>(cur, s). length s)") auto

definition split_whitespace :: "string \<Rightarrow> string list" where
  "split_whitespace s = split_ws [] s"

fun join_space :: "string list \<Rightarrow> string" where
  "join_space [] = []"
| "join_space [w] = w"
| "join_space (w # ws) = w @ '' '' @ join_space ws"

section \<open>Generating and validating\<close>

definition generate_mnemonic :: "bytes \<Rightarrow> string" where
  "generate_mnemonic entropy = join_space (map (\<lambda>i. WORDS ! unat (entropy ! i)) [0..<MNEMONIC_WORDS])"

fun word_position :: "string \<Rightarrow> string list \<Rightarrow> nat option" where
  "word_position w [] = None"
| "word_position w (x # xs) = (if x = w then Some 0 else map_option Suc (word_position w xs))"

fun word_positions :: "string list \<Rightarrow> nat list option" where
  "word_positions [] = Some []"
| "word_positions (w # ws) =
     (case word_position w WORDS of
        None \<Rightarrow> None
      | Some i \<Rightarrow> map_option (Cons i) (word_positions ws))"

definition validate_mnemonic :: "string \<Rightarrow> nat list option" where
  "validate_mnemonic mnemonic =
     (let mnem = split_whitespace mnemonic in
      if length mnem \<noteq> MNEMONIC_WORDS then None else word_positions mnem)"

section \<open>Lemmas\<close>

lemma ws_len_word: "word_char c \<Longrightarrow> ws_len (of_char c # bs) = 0"
  by (auto simp: ws_len_def word_char_def)

lemma ws_len_space: "ws_len (map of_char (CHR '' '' # cs)) = 1"
  by (simp add: ws_len_def)

lemma split_ws_word: "list_all word_char w \<Longrightarrow> split_ws cur (w @ s) = split_ws (cur @ w) s"
  by (induction w arbitrary: cur) (auto simp: ws_len_word)

lemma split_ws_space: "split_ws cur (CHR '' '' # s) = flush cur @ split_ws [] s"
  by (simp only: split_ws.simps ws_len_space Let_def) simp

lemma split_join: "list_all plain_word ws \<Longrightarrow> split_whitespace (join_space ws) = ws"
  unfolding split_whitespace_def
proof (induction ws rule: join_space.induct)
  case (2 w)
  then show ?case
    using split_ws_word [of w "[]" "[]"] by (simp add: plain_word_def flush_def)
next
  case (3 w v vs)
  then show ?case
    using split_ws_word [of w "[]" "CHR '' '' # join_space (v # vs)"]
    by (simp add: plain_word_def flush_def split_ws_space del: split_ws.simps)
qed (simp add: flush_def)

lemma word_position_nth: "distinct xs \<Longrightarrow> i < length xs \<Longrightarrow> word_position (xs ! i) xs = Some i"
  by (induction xs arbitrary: i) (auto simp: nth_Cons split: nat.split)

lemma word_position_sound: "word_position w xs = Some i \<Longrightarrow> i < length xs \<and> xs ! i = w"
  by (induction xs arbitrary: i) (auto split: if_splits)

lemma word_positions_nth:
  "\<forall>i\<in>set is. i < 256 \<Longrightarrow> word_positions (map ((!) WORDS) is) = Some is"
  by (induction "is") (auto simp: word_position_nth distinct_WORDS length_WORDS)

lemma word_positions_sound: "word_positions ws = Some is \<Longrightarrow> ws = map ((!) WORDS) is \<and> (\<forall>i\<in>set is. i < 256)"
  by (induction ws arbitrary: "is")
    (auto simp: length_WORDS dest!: word_position_sound split: option.splits)

lemma validate_words:
  assumes "length is = 24" "\<forall>i\<in>set is. i < 256"
  shows "validate_mnemonic (join_space (map ((!) WORDS) is)) = Some is"
proof -
  have "list_all plain_word (map ((!) WORDS) is)"
    using assms(2) WORDS_plain by (auto simp: list_all_iff length_WORDS)
  then show ?thesis
    using assms by (simp add: validate_mnemonic_def split_join word_positions_nth MNEMONIC_WORDS_def)
qed

lemma generate_indices:
  "24 \<le> length entropy \<Longrightarrow> generate_mnemonic entropy = join_space (map ((!) WORDS) (map unat (take 24 entropy)))"
  by (simp add: generate_mnemonic_def MNEMONIC_WORDS_def comp_def)
    (rule arg_cong [of _ _ join_space], rule nth_equalityI, simp_all)

text \<open>
  The mnemonic stands for 24 bytes of entropy and nothing more: a generated phrase is valid and
  its words are those 24 bytes, so phrases are equal exactly when those bytes are, whatever the last
  8 of the 32 bytes; and every choice of 24 words of the list is a valid phrase, so no word serves
  as a checksum.
\<close>

theorem mnemonic_roundtrip:
  assumes "length entropy = 32" "length entropy' = 32"
  shows "validate_mnemonic (generate_mnemonic entropy) = Some (map unat (take 24 entropy))
    \<and> (generate_mnemonic entropy = generate_mnemonic entropy' \<longleftrightarrow> take 24 entropy = take 24 entropy')
    \<and> (\<forall>is. length is = 24 \<and> (\<forall>i\<in>set is. i < 256) \<longrightarrow>
         validate_mnemonic (join_space (map ((!) WORDS) is)) = Some is)"
proof -
  have valid: "validate_mnemonic (generate_mnemonic x) = Some (map unat (take 24 x))"
    if "length x = 32" for x :: bytes
  proof -
    have "\<forall>i\<in>set (map unat (take 24 x)). i < 256"
    proof
      fix i
      assume "i \<in> set (map unat (take 24 x))"
      then obtain b :: u8 where "i = unat b" by auto
      then show "i < 256" using unsigned_less [of b, where ?'a = nat] by simp
    qed
    then show ?thesis using that by (simp only: generate_indices validate_words length_map length_take)
  qed
  moreover have "take 24 entropy = take 24 entropy'" if "generate_mnemonic entropy = generate_mnemonic entropy'"
  proof -
    have "map unat (take 24 entropy) = map unat (take 24 entropy')"
      using valid [OF assms(1)] valid [OF assms(2)] that by simp
    then show ?thesis by (rule map_injective) (simp add: inj_def word_unat_eq_iff)
  qed
  ultimately show ?thesis
    using assms validate_words by (auto simp: generate_indices)
qed

theorem mnemonic_roundtrip_witness:
  "validate_mnemonic (generate_mnemonic (zeros 31 @ [255])) = Some (map unat (take 24 (zeros 31 @ [255])))
    \<and> generate_mnemonic (zeros 31 @ [255]) = generate_mnemonic (zeros 32)"
  using mnemonic_roundtrip [of "zeros 31 @ [255]" "zeros 32"] by auto

end
