(* ===== verification/Http.thy ===== *)
theory Http
  imports Rpc Mnemonic
begin

text \<open>
  The HTTP side of \<open>run_rpc_server\<close> in \<open>src/src/main.rs\<close>: reading a request byte by byte up to the empty
  line, the length header, the body, and the answer. A connection is the list of bytes that the
  client sends before it closes. Strings are their UTF-8 bytes; the functions of the standard library
  that the server uses are modelled on them, \<open>serde_json\<close> is an argument.
\<close>

section \<open>Strings\<close>

text \<open>
  The first character of the bytes: its length and \<^const>\<open>True\<close>, or the length of what
  \<open>String::from_utf8_lossy\<close> replaces by one replacement character.
\<close>

definition byte_at :: "bytes \<Rightarrow> nat \<Rightarrow> u8" where
  "byte_at bs i = (if i < length bs then bs ! i else 0)"

definition second_ok :: "u8 \<Rightarrow> u8 \<Rightarrow> bool" where
  "second_ok b c \<longleftrightarrow>
     (if b = 0xE0 then 0xA0 \<le> c \<and> c \<le> 0xBF
      else if b = 0xED then 0x80 \<le> c \<and> c \<le> 0x9F
      else if b = 0xF0 then 0x90 \<le> c \<and> c \<le> 0xBF
      else if b = 0xF4 then 0x80 \<le> c \<and> c \<le> 0x8F else cont_byte c)"

definition utf8_first :: "bytes \<Rightarrow> nat \<times> bool" where
  "utf8_first bs =
     (let b = byte_at bs 0; c = byte_at bs 1; d = byte_at bs 2; f = byte_at bs 3 in
      if b \<le> 0x7F then (1, True)
      else if 0xC2 \<le> b \<and> b \<le> 0xDF then (if cont_byte c then (2, True) else (1, False))
      else if 0xE0 \<le> b \<and> b \<le> 0xEF then
        (if \<not> second_ok b c then (1, False) else if \<not> cont_byte d then (2, False) else (3, True))
      else if 0xF0 \<le> b \<and> b \<le> 0xF4 then
        (if \<not> second_ok b c then (1, False) else if \<not> cont_byte d then (2, False)
         else if \<not> cont_byte f then (3, False) else (4, True))
      else (1, False))"

lemma utf8_first_pos: "0 < fst (utf8_first bs)"
  by (simp add: utf8_first_def Let_def)

function from_utf8_lossy :: "bytes \<Rightarrow> bytes" where
  "from_utf8_lossy [] = []"
| "from_utf8_lossy (b # bs) =
     (let (n, ok) = utf8_first (b # bs) in
      (if ok then take n (b # bs) else [0xEF, 0xBF, 0xBD]) @ from_utf8_lossy (drop n (b # bs)))"
  by pat_completeness auto
termination
proof (relation "measure length")
  fix b :: u8 and bs :: bytes and x n ok
  assume "x = utf8_first (b # bs)" "(n, ok) = x"
  then have "0 < n" using utf8_first_pos [of "b # bs"] by (metis fst_conv)
  then show "(drop n (b # bs), b # bs) \<in> measure length" by simp
qed simp

declare from_utf8_lossy.simps(2) [simp del]

fun split_on :: "u8 \<Rightarrow> bytes \<Rightarrow> bytes list" where
  "split_on c [] = [[]]"
| "split_on c (b # bs) =
     (if b = c then [] # split_on c bs
      else (case split_on c bs of [] \<Rightarrow> [[b]] | p # ps \<Rightarrow> (b # p) # ps))"

definition strip_cr :: "bytes \<Rightarrow> bytes" where
  "strip_cr l = (if l \<noteq> [] \<and> last l = 13 then butlast l else l)"

definition text_lines :: "bytes \<Rightarrow> bytes list" where
  "text_lines s =
     (let ps = split_on 10 s in map strip_cr (butlast ps) @ (if last ps = [] then [] else [last ps]))"

definition ascii_lower :: "u8 \<Rightarrow> u8" where
  "ascii_lower b = (if 65 \<le> b \<and> b \<le> 90 then b + 32 else b)"

definition starts_with :: "bytes \<Rightarrow> bytes \<Rightarrow> bool" where
  "starts_with p s \<longleftrightarrow> take (length p) s = p"

function trim_start :: "bytes \<Rightarrow> bytes" where
  "trim_start s = (let n = ws_len (map unat s) in if n = 0 \<or> s = [] then s else trim_start (drop n s))"
  by auto
termination by (relation "measure length") auto

declare trim_start.simps [simp del]

text \<open>The length of the white-space character that the bytes end with, if any.\<close>

definition ws_end :: "bytes \<Rightarrow> nat" where
  "ws_end s =
     (case find (\<lambda>n. n \<le> length s \<and> ws_len (map unat (drop (length s - n) s)) = n) [1, 2, 3] of
        None \<Rightarrow> 0 | Some n \<Rightarrow> n)"

function trim_end :: "bytes \<Rightarrow> bytes" where
  "trim_end s = (let n = ws_end s in if n = 0 \<or> s = [] then s else trim_end (take (length s - n) s))"
  by auto
termination by (relation "measure length") auto

declare trim_end.simps [simp del]

definition trim :: "bytes \<Rightarrow> bytes" where
  "trim s = trim_end (trim_start s)"

definition trim_nul :: "bytes \<Rightarrow> bytes" where
  "trim_nul s = rev (dropWhile (\<lambda>b. b = 0) (rev (dropWhile (\<lambda>b. b = 0) s)))"

text \<open>\<open>str::parse::<usize>\<close>.\<close>

fun dec_accum :: "nat \<Rightarrow> bytes \<Rightarrow> nat option" where
  "dec_accum acc [] = Some acc"
| "dec_accum acc (b # bs) =
     (if b < 48 \<or> 57 < b then None
      else let n = 10 * acc + unat (b - 48) in if 2 ^ 64 \<le> n then None else dec_accum n bs)"

definition parse_usize :: "bytes \<Rightarrow> nat option" where
  "parse_usize s =
     (let ds = (if s \<noteq> [] \<and> hd s = 43 then tl s else s) in if ds = [] then None else dec_accum 0 ds)"

section \<open>Requests\<close>

definition CRLF :: bytes where "CRLF = [13, 10]"

definition ends_with :: "bytes \<Rightarrow> bytes \<Rightarrow> bool" where
  "ends_with s p \<longleftrightarrow> length p \<le> length s \<and> drop (length s - length p) s = p"

text \<open>The head of the request and the bytes after it; \<^const>\<open>None\<close> when the connection is dropped.\<close>

fun read_head :: "bytes \<Rightarrow> bytes \<Rightarrow> (bytes \<times> bytes) option" where
  "read_head buf [] = None"
| "read_head buf (b # st) =
     (let buf' = buf @ [b] in
      if ends_with buf' (CRLF @ CRLF) then Some (buf', st)
      else if 16384 < length buf' then None
      else read_head buf' st)"

definition content_length :: "bytes \<Rightarrow> nat" where
  "content_length buf =
     (case find (\<lambda>l. starts_with (str_bytes ''content-length:'') (map ascii_lower l)) (text_lines (from_utf8_lossy buf)) of
        None \<Rightarrow> 0
      | Some l \<Rightarrow>
          (case split_on 58 l of
             _ # v # _ \<Rightarrow> (case parse_usize (trim v) of Some n \<Rightarrow> n | None \<Rightarrow> 0)
           | _ \<Rightarrow> 0))"

fun find_sub :: "bytes \<Rightarrow> bytes \<Rightarrow> nat option" where
  "find_sub p [] = (if p = [] then Some 0 else None)"
| "find_sub p (b # bs) = (if starts_with p (b # bs) then Some 0 else map_option Suc (find_sub p bs))"

text \<open>
  What becomes of a connection: dropped without an answer, its task panics, the process aborts
  because the memory for the announced body cannot be had, or an answer is written.
\<close>

datatype http_outcome = Dropped | Panicked | Aborted | Answered bytes

definition preflight :: bytes where
  "preflight =
     str_bytes ''HTTP/1.1 204 No Content'' @ CRLF @ str_bytes ''Access-Control-Allow-Origin: *'' @ CRLF @
     str_bytes ''Access-Control-Allow-Methods: POST'' @ CRLF @
     str_bytes ''Access-Control-Allow-Headers: Content-Type'' @ CRLF @ CRLF"

definition http_reply :: "bytes \<Rightarrow> bytes" where
  "http_reply body =
     str_bytes ''HTTP/1.1 200 OK'' @ CRLF @ str_bytes ''Content-Type: application/json'' @ CRLF @
     str_bytes ''Content-Length: '' @ str_bytes (radix_text 10 (length body)) @ CRLF @
     str_bytes ''Connection: close'' @ CRLF @ str_bytes ''Access-Control-Allow-Origin: *'' @ CRLF @ CRLF @ body"

record json_text =
  parse_request :: "bytes \<Rightarrow> rpc_request option"
  print_response :: "rpc_response \<Rightarrow> bytes"

text \<open>The whole request has been read; \<open>serve\<close> is the dispatch to the handlers.\<close>

definition http_handle ::
  "json_text \<Rightarrow> (rpc_request \<Rightarrow> rpc_response \<times> transaction list) \<Rightarrow> transaction list \<Rightarrow> bytes \<Rightarrow>
   http_outcome \<times> transaction list" where
  "http_handle j serve mempool buf =
     (let raw = from_utf8_lossy buf in
      if starts_with (str_bytes ''OPTIONS'') raw then (Answered preflight, mempool)
      else
        (case find_sub (CRLF @ CRLF) raw of
           None \<Rightarrow> (Dropped, mempool)
         | Some pos \<Rightarrow>
             (let body = trim_nul (drop (pos + 4) raw) in
              if body = [] then (Dropped, mempool)
              else
                (case parse_request j body of
                   None \<Rightarrow> (Dropped, mempool)
                 | Some rq \<Rightarrow> (case serve rq of (resp, mp) \<Rightarrow> (Answered (http_reply (print_response j resp)), mp))))))"

text \<open>
  A connection. \<open>mem\<close> tells whether a buffer of the given size can be had. A length that wraps the
  size of the buffer makes the slice start past its end, and one past the maximal size of a vector
  is a capacity overflow: both panic.
\<close>

definition serve_http ::
  "('p, 's) crates \<Rightarrow> json_text \<Rightarrow> (nat \<Rightarrow> bool) \<Rightarrow> i64 \<Rightarrow> (tx_id \<times> u32) list \<Rightarrow> nat \<Rightarrow> 'd chain \<Rightarrow>
   transaction list \<Rightarrow> bytes \<Rightarrow> http_outcome \<times> transaction list" where
  "serve_http e j mem now ks peers c mempool st =
     (case read_head [] st of
        None \<Rightarrow> (Dropped, mempool)
      | Some (buf, rest) \<Rightarrow>
          (let n = content_length buf; size = length buf + n in
           if n = 0 then http_handle j (serve_rpc e now ks peers c mempool) mempool buf
           else if 2 ^ 63 \<le> size then (Panicked, mempool)
           else if \<not> mem size then (Aborted, mempool)
           else if length rest < n then (Dropped, mempool)
           else http_handle j (serve_rpc e now ks peers c mempool) mempool (buf @ take n rest)))"

section \<open>Lemmas on the strings\<close>

definition ascii :: "bytes \<Rightarrow> bool" where
  "ascii s \<longleftrightarrow> (\<forall>b\<in>set s. b \<le> 0x7F)"

lemma lossy_ascii: "ascii s \<Longrightarrow> from_utf8_lossy (s @ t) = s @ from_utf8_lossy t"
proof (induction s)
  case (Cons b s)
  then have "utf8_first (b # s @ t) = (1, True)" by (simp add: utf8_first_def byte_at_def ascii_def)
  with Cons show ?case by (simp add: from_utf8_lossy.simps(2) ascii_def)
qed simp

lemma second_ok_three: "b \<le> 0xEF \<Longrightarrow> second_ok b c =
    (if b = 0xE0 then 0xA0 \<le> c \<and> c \<le> 0xBF else if b = 0xED then 0x80 \<le> c \<and> c \<le> 0x9F else cont_byte c)"
  by (auto simp: second_ok_def)

lemma second_ok_four: "0xF0 \<le> b \<Longrightarrow> second_ok b c =
    (if b = 0xF0 then 0x90 \<le> c \<and> c \<le> 0xBF else if b = 0xF4 then 0x80 \<le> c \<and> c \<le> 0x8F else cont_byte c)"
  by (auto simp: second_ok_def)

lemma utf8_valid_cases:
  assumes "utf8_valid (b # bs)"
  shows "(b \<le> 0x7F \<and> utf8_valid bs) \<or>
    (\<exists>c cs. \<not> b \<le> 0x7F \<and> 0xC2 \<le> b \<and> b \<le> 0xDF \<and> bs = c # cs \<and> cont_byte c \<and> utf8_valid cs) \<or>
    (\<exists>c d ds. \<not> b \<le> 0x7F \<and> 0xE0 \<le> b \<and> b \<le> 0xEF \<and> bs = c # d # ds \<and> second_ok b c \<and> cont_byte d \<and> utf8_valid ds) \<or>
    (\<exists>c d f fs. \<not> b \<le> 0x7F \<and> 0xF0 \<le> b \<and> b \<le> 0xF4 \<and> bs = c # d # f # fs \<and> second_ok b c \<and> cont_byte d \<and>
       cont_byte f \<and> utf8_valid fs)"
proof (cases "b \<le> 0x7F")
  case False
  then obtain c cs where c: "bs = c # cs" using assms by (cases bs) simp_all
  show ?thesis
  proof (cases "0xC2 \<le> b \<and> b \<le> 0xDF")
    case True
    with assms False c show ?thesis by simp
  next
    case n2: False
    then obtain d ds where d: "cs = d # ds" using assms by (cases cs) (simp_all add: False c n2)
    show ?thesis
    proof (cases "0xE0 \<le> b \<and> b \<le> 0xEF")
      case True
      then show ?thesis using assms by (simp add: False c d n2 second_ok_three)
    next
      case n3: False
      then obtain f fs where f: "ds = f # fs" using assms by (cases ds) (simp_all add: False c d n2 n3)
      have "0xF0 \<le> b" using assms by (simp add: False c d f n2 n3)
      then show ?thesis using assms by (simp add: False c d f n2 n3 second_ok_four)
    qed
  qed
qed (use assms in simp)

lemma lossy_valid: "utf8_valid s \<Longrightarrow> from_utf8_lossy s = s"
proof (induction s rule: length_induct)
  case (1 s)
  show ?case
  proof (cases s)
    case (Cons b bs)
    have step: "from_utf8_lossy s = s"
      if first: "utf8_first (b # bs) = (Suc n, True)" and valid: "utf8_valid (drop n bs)" for n
    proof -
      have "length (drop n bs) < length s" using Cons by simp
      then have "from_utf8_lossy (drop n bs) = drop n bs" using 1(1) valid by blast
      with first Cons show ?thesis by (simp add: from_utf8_lossy.simps(2))
    qed
    have v: "utf8_valid (b # bs)" using 1(2) Cons by simp
    have order: "\<not> b \<le> 0x7F \<Longrightarrow> 0xE0 \<le> b \<Longrightarrow> \<not> (0xC2 \<le> b \<and> b \<le> 0xDF)" by (auto simp: word_le_nat_alt)
    from utf8_valid_cases [OF v] consider (one) "b \<le> 0x7F" "utf8_valid bs"
      | (two) c cs where "\<not> b \<le> 0x7F" "0xC2 \<le> b" "b \<le> 0xDF" "bs = c # cs" "cont_byte c" "utf8_valid cs"
      | (three) c d ds where "\<not> b \<le> 0x7F" "0xE0 \<le> b" "b \<le> 0xEF" "bs = c # d # ds" "second_ok b c" "cont_byte d" "utf8_valid ds"
      | (four) c d f fs where "\<not> b \<le> 0x7F" "0xF0 \<le> b" "b \<le> 0xF4" "bs = c # d # f # fs" "second_ok b c" "cont_byte d" "cont_byte f" "utf8_valid fs"
      by blast
    then show ?thesis
    proof cases
      case one
      then show ?thesis using step [of 0] by (simp add: utf8_first_def byte_at_def)
    next
      case two
      then show ?thesis using step [of 1] by (simp add: utf8_first_def byte_at_def)
    next
      case three
      then show ?thesis using step [of 2] order by (simp add: utf8_first_def byte_at_def numeral_2_eq_2)
    next
      case four
      moreover have "\<not> b \<le> 0xEF" "0xE0 \<le> b" using four(2) by (auto simp: word_le_nat_alt)
      ultimately show ?thesis using step [of 3] order by (simp add: utf8_first_def byte_at_def numeral_3_eq_3)
    qed
  qed simp
qed

lemma split_on_line: "c \<notin> set l \<Longrightarrow> split_on c (l @ c # t) = l # split_on c t"
  by (induction l) auto

lemma split_on_none: "c \<notin> set l \<Longrightarrow> split_on c l = [l]"
  by (induction l) auto

lemma split_on_nonempty: "split_on c s \<noteq> []"
  by (induction s) (auto split: list.split)

text \<open>The header lines of a request, each with its end, and the empty line.\<close>

definition http_head :: "bytes list \<Rightarrow> bytes" where
  "http_head ls = concat (map (\<lambda>l. l @ CRLF) ls) @ CRLF"

definition plain_line :: "bytes \<Rightarrow> bool" where
  "plain_line l \<longleftrightarrow> l \<noteq> [] \<and> ascii l \<and> 10 \<notin> set l \<and> 13 \<notin> set l"

lemma ascii_head: "\<forall>l\<in>set ls. plain_line l \<Longrightarrow> ascii (http_head ls)"
  by (auto simp: http_head_def ascii_def plain_line_def CRLF_def)

lemma text_lines_line: "10 \<notin> set l \<Longrightarrow> text_lines (l @ CRLF @ t) = l # text_lines t"
proof -
  assume "10 \<notin> set l"
  then have "split_on 10 (l @ CRLF @ t) = (l @ [13]) # split_on 10 t"
    using split_on_line [of 10 "l @ [13]" t] by (simp add: CRLF_def)
  then show ?thesis
    using split_on_nonempty [of 10 t] by (simp add: text_lines_def Let_def strip_cr_def)
qed

lemma text_lines_head: "\<forall>l\<in>set ls. plain_line l \<Longrightarrow> text_lines (http_head ls) = ls @ [[]]"
proof (induction ls)
  case Nil
  then show ?case using text_lines_line [of "[]" "[]"] by (simp add: http_head_def text_lines_def)
next
  case (Cons l ls)
  then show ?case by (simp add: http_head_def text_lines_line plain_line_def)
qed

lemma read_head_line:
  assumes "10 \<notin> set l" "length (buf @ l) \<le> 16384"
  shows "read_head buf (l @ st) = read_head (buf @ l) st"
  using assms
proof (induction l arbitrary: buf)
  case (Cons b l)
  have "\<not> ends_with (buf @ [b]) (CRLF @ CRLF)"
  proof
    assume "ends_with (buf @ [b]) (CRLF @ CRLF)"
    then have "last (drop (length (buf @ [b]) - 4) (buf @ [b])) = 10" by (simp add: ends_with_def CRLF_def)
    then show False using Cons.prems(1) by (simp add: last_drop)
  qed
  with Cons.IH [of "buf @ [b]"] Cons.prems show ?case by simp
qed simp

section \<open>Reading a head\<close>

lemma ends_with_iff: "ends_with s p \<longleftrightarrow> (\<exists>q. s = q @ p)"
proof
  assume "ends_with s p"
  then show "\<exists>q. s = q @ p" unfolding ends_with_def by (metis append_take_drop_id)
qed (auto simp: ends_with_def)

lemma read_head_line_end:
  assumes "plain_line l" "length (buf @ l @ CRLF) \<le> 16384"
  shows "read_head buf (l @ CRLF @ st) = read_head (buf @ l @ CRLF) st"
proof -
  have "read_head buf (l @ CRLF @ st) = read_head (buf @ l @ [13]) (10 # st)"
    using read_head_line [of "l @ [13]" buf "10 # st"] assms by (simp add: CRLF_def plain_line_def)
  moreover have "\<not> ends_with (buf @ l @ [13, 10]) (CRLF @ CRLF)"
  proof
    assume "ends_with (buf @ l @ [13, 10]) (CRLF @ CRLF)"
    then obtain q where "(buf @ l) @ [13, 10] = (q @ [13, 10]) @ [13, 10]" by (auto simp: ends_with_iff CRLF_def)
    then have "buf @ l = q @ [13, 10]" by simp
    then have "last (buf @ l) = 10" by simp
    then show False using assms(1) by (metis last_appendR last_in_set plain_line_def)
  qed
  ultimately show ?thesis using assms(2) by (simp add: CRLF_def)
qed

lemma read_head_empty_line:
  assumes "length buf + 4 \<le> 16385"
  shows "read_head (buf @ CRLF) (CRLF @ st) = Some (buf @ CRLF @ CRLF, st)"
proof -
  have "\<not> ends_with ((buf @ [13, 10]) @ [13]) (CRLF @ CRLF)"
    by (auto simp: ends_with_iff CRLF_def)
  moreover have "ends_with (buf @ [13, 10, 13, 10]) (CRLF @ CRLF)" by (simp add: ends_with_iff CRLF_def)
  ultimately show ?thesis using assms by (simp add: CRLF_def)
qed

lemma read_head_lines:
  "\<forall>l\<in>set (l # ls). plain_line l \<Longrightarrow> length (buf @ http_head (l # ls)) \<le> 16385 \<Longrightarrow>
   read_head buf (http_head (l # ls) @ st) = Some (buf @ http_head (l # ls), st)"
proof (induction ls arbitrary: l buf)
  case Nil
  then have "length (buf @ l @ CRLF) \<le> 16384" "length (buf @ l) + 4 \<le> 16385" by (simp_all add: http_head_def CRLF_def)
  then show ?case
    using read_head_line_end [of l buf "CRLF @ st"] read_head_empty_line [of "buf @ l" st] Nil.prems
    by (simp add: http_head_def)
next
  case (Cons l' ls)
  have "length (buf @ l @ CRLF) \<le> 16384" using Cons.prems(2) by (simp add: http_head_def CRLF_def)
  then have "read_head buf (http_head (l # l' # ls) @ st) = read_head (buf @ l @ CRLF) (http_head (l' # ls) @ st)"
    using read_head_line_end [of l buf "http_head (l' # ls) @ st"] Cons.prems(1) by (simp add: http_head_def)
  also have "\<dots> = Some ((buf @ l @ CRLF) @ http_head (l' # ls), st)"
    using Cons.prems by (intro Cons.IH) (simp_all add: http_head_def)
  finally show ?case by (simp add: http_head_def)
qed

section \<open>Reading the length\<close>

definition dec_bytes :: "nat \<Rightarrow> bytes" where
  "dec_bytes n = str_bytes (radix_text 10 n)"

lemma digit_bytes: "k < 10 \<Longrightarrow> str_bytes [digit_chars ! k] = [of_nat (48 + k)]"
  by (auto simp: str_bytes_def digit_chars_def less_Suc_eq numeral_eq_Suc)

lemma dec_bytes_rec:
  "dec_bytes n = (if n < 10 then [of_nat (48 + n)] else dec_bytes (n div 10) @ [of_nat (48 + n mod 10)])"
  using digit_bytes [of n] digit_bytes [of "n mod 10"]
  by (subst dec_bytes_def, subst radix_text.simps) (simp add: dec_bytes_def str_bytes_def)

lemma digit_value: "k < 10 \<Longrightarrow> \<not> (of_nat (48 + k) :: u8) < 48 \<and> \<not> 57 < (of_nat (48 + k) :: u8) \<and>
    unat ((of_nat (48 + k) :: u8) - 48) = k"
proof -
  assume k: "k < 10"
  then have "unat (of_nat (48 + k) :: u8) = 48 + k" by (intro unat_of_nat_exact) simp
  moreover have "(of_nat (48 + k) :: u8) - 48 = of_nat k" by simp
  moreover have "unat (of_nat k :: u8) = k" using k by (intro unat_of_nat_exact) simp
  ultimately show ?thesis using k by (simp add: word_less_nat_alt del: of_nat_add)
qed

lemma dec_accum_append:
  "dec_accum acc (s @ t) = (case dec_accum acc s of None \<Rightarrow> None | Some a \<Rightarrow> dec_accum a t)"
  by (induction s arbitrary: acc) (auto simp: Let_def)

lemma dec_accum_bytes: "n < 2 ^ 64 \<Longrightarrow> dec_accum 0 (dec_bytes n) = Some n"
proof (induction n rule: less_induct)
  case (less n)
  show ?case
  proof (cases "n < 10")
    case True
    with digit_value [OF True] less.prems show ?thesis by (subst dec_bytes_rec) (simp add: Let_def)
  next
    case False
    then have "dec_accum 0 (dec_bytes (n div 10)) = Some (n div 10)" using less by auto
    then show ?thesis
      using False digit_value [of "n mod 10"] less.prems
      by (subst dec_bytes_rec) (simp add: dec_accum_append Let_def)
  qed
qed

lemma dec_bytes_digits: "\<forall>b\<in>set (dec_bytes n). 48 \<le> b \<and> b \<le> 57"
proof (induction n rule: less_induct)
  case (less n)
  have d: "48 \<le> (of_nat (48 + k) :: u8) \<and> (of_nat (48 + k) :: u8) \<le> 57" if "k < 10" for k
    using digit_value [OF that] by (auto simp: not_less)
  show ?case
  proof (cases "n < 10")
    case True
    with d show ?thesis by (subst dec_bytes_rec) (simp del: of_nat_add)
  next
    case False
    then have "\<forall>b\<in>set (dec_bytes (n div 10)). 48 \<le> b \<and> b \<le> 57" by (intro less) simp
    with False d [of "n mod 10"] show ?thesis by (subst dec_bytes_rec) (simp del: of_nat_add)
  qed
qed

lemma dec_bytes_nonempty: "dec_bytes n \<noteq> []"
  by (subst dec_bytes_rec) simp

lemma ws_len_none: "xs \<noteq> [] \<Longrightarrow> 33 \<le> hd xs \<Longrightarrow> hd xs < 0x80 \<Longrightarrow> ws_len xs = 0"
  by (cases xs) (auto simp: ws_len_def)

lemma trim_plain:
  assumes "\<forall>b\<in>set d. 33 \<le> unat b \<and> unat b < 0x80" "d \<noteq> []"
  shows "trim (32 # d) = d"
proof -
  have none: "ws_len (map unat x) = 0" if "x \<noteq> []" "set x \<subseteq> set d" for x
    using that assms(1) by (cases x) (auto intro!: ws_len_none)
  have "ws_len (map unat (32 # d)) = 1" by (simp add: ws_len_def)
  then have "trim_start (32 # d) = trim_start d" by (subst trim_start.simps) simp
  then have start: "trim_start (32 # d) = d" using none [of d] assms(2) by (subst (asm) (2) trim_start.simps) simp
  have "ws_len (map unat (drop (length d - n) d)) = 0" if "0 < n" for n
  proof -
    have "length d - n < length d" using that assms(2) by (intro diff_less) auto
    then show ?thesis by (intro none) (auto dest: in_set_dropD)
  qed
  then have "ws_end d = 0" by (simp add: ws_end_def)
  then show ?thesis unfolding trim_def start by (subst trim_end.simps) simp
qed

lemma parse_length: "n < 2 ^ 64 \<Longrightarrow> parse_usize (trim (32 # dec_bytes n)) = Some n"
proof -
  assume n: "n < 2 ^ 64"
  have d: "\<forall>b\<in>set (dec_bytes n). 33 \<le> unat b \<and> unat b < 0x80"
    using dec_bytes_digits [of n] by (auto simp: word_le_nat_alt)
  have "hd (dec_bytes n) \<noteq> 43"
    using dec_bytes_digits [of n] dec_bytes_nonempty [of n] by (cases "dec_bytes n") auto
  then show "parse_usize (trim (32 # dec_bytes n)) = Some n"
    using trim_plain [OF d dec_bytes_nonempty] dec_bytes_nonempty [of n] dec_accum_bytes [OF n]
    by (simp add: parse_usize_def)
qed

definition is_length_line :: "bytes \<Rightarrow> bool" where
  "is_length_line l \<longleftrightarrow> starts_with (str_bytes ''content-length:'') (map ascii_lower l)"

definition length_line :: "bytes \<Rightarrow> nat \<Rightarrow> bytes" where
  "length_line name n = name @ str_bytes '': '' @ dec_bytes n"

lemma content_length_head:
  assumes "\<forall>l\<in>set (pre @ [length_line name n] @ post). plain_line l" "\<forall>l\<in>set pre. \<not> is_length_line l"
    and "map ascii_lower name = str_bytes ''content-length''" "n < 2 ^ 64"
  shows "content_length (http_head (pre @ [length_line name n] @ post)) = n"
proof -
  let ?ls = "pre @ [length_line name n] @ post"
  have "from_utf8_lossy (http_head ?ls) = http_head ?ls"
    using lossy_ascii [OF ascii_head [OF assms(1)], of "[]"] by simp
  then have lines: "text_lines (from_utf8_lossy (http_head ?ls)) = ?ls @ [[]]"
    using text_lines_head [OF assms(1)] by simp
  have colon: "str_bytes '': '' = [58, 32]" by (simp add: str_bytes_def)
  have name: "length name = 14" using arg_cong [OF assms(3), of length] by (simp add: str_bytes_def)
  have tag: "str_bytes ''content-length:'' = str_bytes ''content-length'' @ [58]" by (simp add: str_bytes_def)
  have here: "is_length_line (length_line name n)"
    unfolding is_length_line_def length_line_def starts_with_def tag colon
    using assms(3) name by (simp add: ascii_lower_def str_bytes_def)
  have find_first: "find P (xs @ y # ys) = Some y" if "\<forall>x\<in>set xs. \<not> P x" "P y" for P xs and y :: bytes and ys
    using that by (induction xs) auto
  have found: "find (\<lambda>l. starts_with (str_bytes ''content-length:'') (map ascii_lower l)) (?ls @ [[]]) =
      Some (length_line name n)"
    using find_first [of pre is_length_line "length_line name n" "post @ [[]]"] assms(2) here
    unfolding is_length_line_def [abs_def] by simp
  have "58 \<notin> set name"
  proof
    assume "58 \<in> set name"
    then have "58 \<in> set (map ascii_lower name)" by (force simp: ascii_lower_def)
    then show False unfolding assms(3) by (simp add: str_bytes_def)
  qed
  moreover have "58 \<notin> set (32 # dec_bytes n)" using dec_bytes_digits [of n] by auto
  ultimately have "split_on 58 (length_line name n) = [name, 32 # dec_bytes n]"
    using split_on_line [of 58 name "32 # dec_bytes n"] split_on_none [of 58 "32 # dec_bytes n"]
    by (simp add: length_line_def colon)
  then show ?thesis
    unfolding content_length_def lines found by (simp add: parse_length [OF assms(4)])
qed

lemma content_length_none:
  assumes "\<forall>l\<in>set ls. plain_line l" "\<forall>l\<in>set ls. \<not> is_length_line l"
  shows "content_length (http_head ls) = 0"
proof -
  have lines: "text_lines (from_utf8_lossy (http_head ls)) = ls @ [[]]"
    using lossy_ascii [OF ascii_head [OF assms(1)], of "[]"] text_lines_head [OF assms(1)] by simp
  have "\<not> is_length_line []" by (simp add: is_length_line_def starts_with_def str_bytes_def)
  then have "find is_length_line (ls @ [[]]) = None" using assms(2) by (auto simp: find_None_iff)
  then show ?thesis unfolding content_length_def lines is_length_line_def [abs_def] by simp
qed

text \<open>The lines of a head announce a body of \<open>n\<close> bytes: by their first length header, or by having none.\<close>

definition announces :: "bytes list \<Rightarrow> nat \<Rightarrow> bool" where
  "announces ls n \<longleftrightarrow>
     (n = 0 \<and> (\<forall>l\<in>set ls. \<not> is_length_line l)) \<or>
     (\<exists>pre name post. ls = pre @ [length_line name n] @ post \<and> (\<forall>l\<in>set pre. \<not> is_length_line l) \<and>
        map ascii_lower name = str_bytes ''content-length'' \<and> n < 2 ^ 64)"

lemma content_length_announced:
  assumes "\<forall>l\<in>set ls. plain_line l" "announces ls n"
  shows "content_length (http_head ls) = n"
  using assms(2) unfolding announces_def
proof (elim disjE exE conjE)
  fix pre name post
  assume ls: "ls = pre @ [length_line name n] @ post" and rest: "\<forall>l\<in>set pre. \<not> is_length_line l"
    "map ascii_lower name = str_bytes ''content-length''" "n < 2 ^ 64"
  show ?thesis using content_length_head [OF _ rest] assms(1) unfolding ls by blast
qed (use content_length_none [OF assms(1)] in simp)

section \<open>A request with a body\<close>

lemma find_sub_skip:
  "13 \<notin> set l \<Longrightarrow> find_sub (13 # p) (l @ t) = map_option ((+) (length l)) (find_sub (13 # p) t)"
proof (induction l)
  case Nil
  have "(+) 0 = (\<lambda>n :: nat. n)" by auto
  then show ?case by (simp add: option.map_ident)
next
  case (Cons b l)
  then have "find_sub (13 # p) (b # l @ t) = map_option Suc (find_sub (13 # p) (l @ t))" by (simp add: starts_with_def)
  with Cons show ?case by (simp add: option.map_comp comp_def)
qed

lemma find_sub_head:
  "\<forall>l\<in>set (l # ls). plain_line l \<Longrightarrow>
   find_sub (CRLF @ CRLF) (http_head (l # ls) @ t) = Some (length (http_head (l # ls)) - 4)"
proof (induction ls arbitrary: l)
  case Nil
  have "find_sub (CRLF @ CRLF) (CRLF @ CRLF @ t) = Some 0" by (simp add: CRLF_def starts_with_def)
  then show ?case
    using find_sub_skip [of l "[10, 13, 10]" "CRLF @ CRLF @ t"] Nil by (simp add: http_head_def plain_line_def CRLF_def)
next
  case (Cons l' ls)
  obtain b r where l': "l' = b # r" "b \<noteq> 13" using Cons.prems by (cases l') (auto simp: plain_line_def)
  let ?t = "http_head (l' # ls) @ t"
  have "find_sub (CRLF @ CRLF) (CRLF @ ?t) = map_option ((+) 2) (find_sub (CRLF @ CRLF) ?t)"
    using l' by (simp add: CRLF_def starts_with_def http_head_def option.map_comp comp_def)
  also have "find_sub (CRLF @ CRLF) ?t = Some (length (http_head (l' # ls)) - 4)"
    using Cons.prems by (intro Cons.IH) simp
  finally have "find_sub (CRLF @ CRLF) (CRLF @ ?t) = Some (length (http_head (l' # ls)) - 2)"
    by (simp add: http_head_def CRLF_def)
  then show ?case
    using find_sub_skip [of l "[10, 13, 10]" "CRLF @ ?t"] Cons.prems
    by (simp add: http_head_def plain_line_def CRLF_def)
qed

lemma trim_nul_id: "s \<noteq> [] \<Longrightarrow> hd s \<noteq> 0 \<Longrightarrow> last s \<noteq> 0 \<Longrightarrow> trim_nul s = s"
proof -
  assume s: "s \<noteq> []" "hd s \<noteq> 0" "last s \<noteq> 0"
  then have "dropWhile (\<lambda>b. b = 0) s = s" by (cases s) simp_all
  moreover have "dropWhile (\<lambda>b. b = 0) (rev s) = rev s" using s by (cases "rev s") (simp_all add: last_rev hd_rev flip: rev_swap)
  ultimately show "trim_nul s = s" by (simp add: trim_nul_def)
qed

lemma starts_with_line: "13 \<notin> set p \<Longrightarrow> starts_with p (l @ 13 # x) = starts_with p l"
proof (cases "length p \<le> length l")
  case False
  then have "take (length p) (l @ 13 # x) = l @ 13 # take (length p - Suc (length l)) x"
    by (simp add: take_Cons')
  moreover assume "13 \<notin> set p"
  ultimately have "\<not> starts_with p (l @ 13 # x)" unfolding starts_with_def by (metis in_set_conv_decomp)
  then show ?thesis using False by (auto simp: starts_with_def)
qed (simp add: starts_with_def)

lemma options_cr: "13 \<notin> set (str_bytes ''OPTIONS'')"
  by (simp add: str_bytes_def)

text \<open>What the handler makes of a head and the bytes of the body.\<close>

lemma http_handle_head:
  assumes "ls \<noteq> []" "\<forall>l\<in>set ls. plain_line l"
  shows "http_handle j f mempool (http_head ls @ b) =
    (let body = trim_nul (from_utf8_lossy b) in
      if starts_with (str_bytes ''OPTIONS'') (hd ls) then (Answered preflight, mempool)
      else if body = [] then (Dropped, mempool)
      else
        (case parse_request j body of
           None \<Rightarrow> (Dropped, mempool)
         | Some rq \<Rightarrow> (Answered (http_reply (print_response j (fst (f rq)))), snd (f rq))))"
proof -
  obtain l ls' where ls: "ls = l # ls'" using assms(1) by (cases ls) auto
  let ?head = "http_head ls" and ?t = "from_utf8_lossy b"
  have raw: "from_utf8_lossy (?head @ b) = ?head @ ?t" by (rule lossy_ascii [OF ascii_head [OF assms(2)]])
  have "?head @ ?t = l @ 13 # drop (length l + 1) (?head @ ?t)" unfolding ls by (simp add: http_head_def CRLF_def)
  then have options: "starts_with (str_bytes ''OPTIONS'') (?head @ ?t) = starts_with (str_bytes ''OPTIONS'') (hd ls)"
    using starts_with_line [of "str_bytes ''OPTIONS''" l] unfolding ls by (metis (no_types) list.sel(1) options_cr)
  have pos: "find_sub (CRLF @ CRLF) (?head @ ?t) = Some (length ?head - 4)"
    using find_sub_head assms(2) unfolding ls by blast
  have "4 \<le> length ?head" unfolding ls by (simp add: http_head_def CRLF_def)
  then have "drop (length ?head - 4 + 4) (?head @ ?t) = ?t" by simp
  then show ?thesis
    unfolding http_handle_def Let_def raw options pos by (simp add: case_prod_beta split: option.split)
qed

text \<open>
  C33. A request over HTTP, for every head of lines of ASCII text, at most 16385 bytes with the empty line,
  that announces a body of \<open>n\<close> bytes, in a first length header of the form \<open>name: n\<close> with the name in
  whatever case, or that has no such header and announces none. A length that takes the size of the
  buffer to \<open>2^63\<close> or more makes the task panic; if the memory for it cannot be had the process aborts; both
  before a byte of the body has been read and whatever follows. If fewer bytes follow, the connection is
  dropped. Otherwise a head that begins with \<open>OPTIONS\<close> is answered by the preflight reply, whatever its
  body; for any other one the next \<open>n\<close> bytes, read as text and stripped of zero bytes at both ends, are
  parsed. When nothing is left of them or they are no request the connection is dropped; when they are,
  the handlers' answer is written and their change of the pending transactions, the only one in any
  case, takes effect. A body of text that neither begins nor ends with a zero byte reaches the parser
  as it is: every byte of it, and none after it.
\<close>

theorem http_request_exact:
  assumes "ls \<noteq> []" "\<forall>l\<in>set ls. plain_line l" "announces ls n" "length (http_head ls) \<le> 16385"
  shows "let size = length (http_head ls) + n;
      body = trim_nul (from_utf8_lossy (take n st));
      served = serve_rpc e now ks peers c mempool in
    serve_http e j mem now ks peers c mempool (http_head ls @ st) =
      (if 0 < n \<and> 2 ^ 63 \<le> size then (Panicked, mempool)
       else if 0 < n \<and> \<not> mem size then (Aborted, mempool)
       else if length st < n then (Dropped, mempool)
       else if starts_with (str_bytes ''OPTIONS'') (hd ls) then (Answered preflight, mempool)
       else if body = [] then (Dropped, mempool)
       else
         (case parse_request j body of
            None \<Rightarrow> (Dropped, mempool)
          | Some rq \<Rightarrow> (Answered (http_reply (print_response j (fst (served rq)))), snd (served rq)))) \<and>
    (0 < n \<and> n \<le> length st \<and> utf8_valid (take n st) \<and> hd st \<noteq> 0 \<and> last (take n st) \<noteq> 0 \<longrightarrow> body = take n st)"
proof -
  let ?head = "http_head ls"
  obtain l ls' where ls: "ls = l # ls'" using assms(1) by (cases ls) auto
  have head: "read_head [] (?head @ st) = Some (?head, st)"
    using read_head_lines [of l ls' "[]"] assms(2,4) unfolding ls by simp
  note len = content_length_announced [OF assms(2,3)]
  note handle = http_handle_head [OF assms(1,2), of j "serve_rpc e now ks peers c mempool" mempool, unfolded Let_def]
  have body: "trim_nul (from_utf8_lossy (take n st)) = take n st"
    if "0 < n" "n \<le> length st" "utf8_valid (take n st)" "hd st \<noteq> 0" "last (take n st) \<noteq> 0"
  proof -
    have "take n st \<noteq> []" "hd (take n st) = hd st" using that by auto
    then show ?thesis using that lossy_valid [OF that(3)] by (simp add: trim_nul_id)
  qed
  have "serve_http e j mem now ks peers c mempool (?head @ st) =
      (if 0 < n \<and> 2 ^ 63 \<le> length ?head + n then (Panicked, mempool)
       else if 0 < n \<and> \<not> mem (length ?head + n) then (Aborted, mempool)
       else if length st < n then (Dropped, mempool)
       else http_handle j (serve_rpc e now ks peers c mempool) mempool (?head @ take n st))"
    unfolding serve_http_def Let_def using head len by simp
  then show ?thesis unfolding Let_def handle using body by blast
qed

definition demo_json :: json_text where
  "demo_json =
     \<lparr> parse_request = (\<lambda>b. if b = [123, 125]
         then Some \<lparr> rq_id = JNull, rq_method = ''cipherx_chainId'', rq_params = [] \<rparr> else None),
       print_response = (\<lambda>r. []) \<rparr>"

text \<open>The witness has one head for each announced length: none, two bytes, and \<open>2^63\<close>.\<close>

theorem http_request_exact_witness:
  "let post = str_bytes ''POST / HTTP/1.1'';
      sized = (\<lambda>n. http_head [post, length_line (str_bytes ''Content-Length'') n]);
      outcome = (\<lambda>mem st. serve_http demo demo_json mem 0 [] 0 (chain_new demo 3 :: unit chain) [] st) in
    outcome (\<lambda>_. False) (sized 2 @ [123, 125]) = (Aborted, []) \<and>
    outcome (\<lambda>_. True) (sized 2 @ [123]) = (Dropped, []) \<and>
    outcome (\<lambda>_. True) (sized 2 @ [123, 125, 7]) = (Answered (http_reply []), []) \<and>
    outcome (\<lambda>_. True) (sized (2 ^ 63)) = (Panicked, []) \<and>
    outcome (\<lambda>_. False) (http_head [str_bytes ''OPTIONS / HTTP/1.1''] @ [1]) = (Answered preflight, [])"
proof -
  let ?post = "str_bytes ''POST / HTTP/1.1''" and ?name = "str_bytes ''Content-Length''"
  let ?sized = "\<lambda>n. [?post, length_line ?name n]" and ?opt = "[str_bytes ''OPTIONS / HTTP/1.1'']"
  have plain_post: "plain_line ?post" "plain_line (hd ?opt)" by (simp_all add: plain_line_def ascii_def str_bytes_def)
  have plain_length: "plain_line (length_line ?name n)" for n
    using dec_bytes_digits [of n]
    by (auto simp: plain_line_def ascii_def length_line_def str_bytes_def word_le_nat_alt)
  have plain: "\<forall>l\<in>set (?sized n). plain_line l" for n
    using plain_post plain_length by simp
  have no_length: "\<not> is_length_line ?post" "\<not> is_length_line (hd ?opt)"
    by (simp_all add: is_length_line_def starts_with_def str_bytes_def ascii_lower_def)
  have "map ascii_lower ?name = str_bytes ''content-length''" by (simp add: str_bytes_def ascii_lower_def)
  then have ann: "announces (?sized n) n" if "n < 2 ^ 64" for n
    using that no_length(1) unfolding announces_def
    by (intro disjI2 exI [of _ "[?post]"] exI [of _ ?name] exI [of _ "[]"]) simp
  have ann0: "announces ?opt 0" using no_length(2) by (simp add: announces_def)
  have digits: "length (dec_bytes 2) = 1" "length (dec_bytes 9223372036854775808) = 19"
    by (simp_all add: dec_bytes_rec)
  have len: "length (http_head (?sized 2)) \<le> 16385" "length (http_head (?sized (2 ^ 63))) \<le> 16385"
    "length (http_head ?opt) \<le> 16385"
    by (simp_all add: http_head_def length_line_def str_bytes_def CRLF_def digits)
  have small: "\<not> 2 ^ 63 \<le> length (http_head (?sized 2)) + 2" using len(1) by simp
  have opt: "\<not> starts_with (str_bytes ''OPTIONS'') ?post" "starts_with (str_bytes ''OPTIONS'') (hd ?opt)"
    by (simp_all add: starts_with_def str_bytes_def)
  have "snd (serve_rpc demo 0 [] 0 (chain_new demo 3 :: unit chain) [] rq) = []"
    if "rq_method rq = ''cipherx_chainId''" for rq
    using that by (simp add: serve_rpc_def)
  note served = this
  note exact = http_request_exact [where e = demo and now = 0 and ks = "[]" and peers = 0 and c = "chain_new demo 3 :: unit chain"
      and mempool = "[]" and j = demo_json]
  note two = exact [OF _ plain ann len(1), unfolded Let_def]
  have valid: "utf8_valid [123, 125]" by simp
  show ?thesis
    unfolding Let_def
    using two [where st = "[123, 125]" and mem = "\<lambda>_. False"] two [where st = "[123]" and mem = "\<lambda>_. True"]
      two [where st = "[123, 125, 7]" and mem = "\<lambda>_. True"]
      exact [OF _ plain ann len(2), where st = "[]" and mem = "\<lambda>_. True"]
      exact [OF _ _ ann0 len(3), where st = "[1]" and mem = "\<lambda>_. False"] served small opt plain_post valid
    by (simp add: demo_json_def Let_def)
qed

end
