(* ===== verification/Address.thy ===== *)
theory Address
  imports Keys Instance
begin

text \<open>
  The printed stealth address: \<open>CX1\<close> and the base58 text of both public keys with a checksum. The
  wallet prints it (\<open>derive_keys\<close> in \<open>src/src/bin/wallet.rs\<close>), the wallet and the node parse it
  (\<open>parse_cx1_address\<close> there, \<open>parse_stealth_address\<close> in \<open>src/src/main.rs\<close>).
\<close>

definition address_checksum :: "('p, 's) crates \<Rightarrow> bytes \<Rightarrow> bytes" where
  "address_checksum e keys = take 4 (sha3_256 e (str_bytes ''CipherX_addr_v1'' @ keys))"

definition address_text :: "('p, 's) crates \<Rightarrow> bytes \<Rightarrow> bytes \<Rightarrow> string" where
  "address_text e spend view =
     (let addr_bytes = spend @ view in ''CX1'' @ bs58_encode e (addr_bytes @ address_checksum e addr_bytes))"

definition parse_stealth_address :: "('p, 's) crates \<Rightarrow> string \<Rightarrow> stealth_address option" where
  "parse_stealth_address e addr =
     (if take 3 addr \<noteq> ''CX1'' \<or> length addr < 10 then None
      else
        (case bs58_decode e (drop 3 addr) of
           None \<Rightarrow> None
         | Some decoded \<Rightarrow>
             (if length decoded \<noteq> 68 then None
              else if address_checksum e (take 64 decoded) \<noteq> subslice 64 68 decoded then None
              else Some \<lparr> public_spend = take 32 decoded, public_view = subslice 32 64 decoded \<rparr>)))"

definition parse_cx1_address :: "('p, 's) crates \<Rightarrow> string \<Rightarrow> (public_key \<times> public_key) option" where
  "parse_cx1_address e addr =
     (if take 3 addr \<noteq> ''CX1'' then None
      else
        (case bs58_decode e (drop 3 addr) of
           None \<Rightarrow> None
         | Some bs \<Rightarrow>
             (if length bs \<noteq> 68 then None
              else if drop 64 bs \<noteq> address_checksum e (take 64 bs) then None
              else Some (take 32 bs, subslice 32 64 bs))))"

text \<open>
  What \<open>bs58\<close> promises: decoding inverts encoding, and a text of \<open>n\<close> digits in base 58 stands for
  at most \<open>n\<close> and, as a digit carries more than 5.6 bits, at least seven tenths of \<open>n - 1\<close> bytes.
\<close>

definition bs58_laws :: "('p, 's) crates \<Rightarrow> bool" where
  "bs58_laws e \<longleftrightarrow>
     (\<forall>b. bs58_decode e (bs58_encode e b) = Some b) \<and>
     (\<forall>s b. bs58_decode e s = Some b \<longrightarrow> length b \<le> length s \<and> 7 * (length s - 1) \<le> 10 * length b)"

lemma bs58_lengths:
  "bs58_laws e \<Longrightarrow> bs58_decode e s = Some b \<Longrightarrow> length b \<le> length s"
  "bs58_laws e \<Longrightarrow> bs58_decode e s = Some b \<Longrightarrow> 7 * (length s - 1) \<le> 10 * length b"
  unfolding bs58_laws_def by blast+

lemma demo_bs58: "bs58_laws demo"
  by (auto simp: bs58_laws_def demo_def)

text \<open>The wallet's and the node's parsers are the same function.\<close>

lemma parsers_agree:
  assumes "bs58_laws e"
  shows "parse_cx1_address e s = map_option (\<lambda>a. (public_spend a, public_view a)) (parse_stealth_address e s)"
proof (cases "take 3 s = ''CX1'' \<and> length s < 10")
  case True
  have "length b \<noteq> 68" if "bs58_decode e (drop 3 s) = Some b" for b
  proof -
    have "length b \<le> length (drop 3 s)" using bs58_lengths(1) [OF assms that] .
    with True show ?thesis by auto
  qed
  with True show ?thesis
    by (auto simp: parse_cx1_address_def parse_stealth_address_def split: option.splits)
next
  case False
  then show ?thesis
    by (auto simp: parse_cx1_address_def parse_stealth_address_def subslice_def split: option.splits)
qed

lemma parse_address_text:
  assumes "bs58_laws e" "\<forall>bs. length (sha3_256 e bs) = 32" "length spend = 32" "length view = 32"
  shows "parse_stealth_address e (address_text e spend view) =
    Some \<lparr> public_spend = spend, public_view = view \<rparr>"
proof -
  let ?full = "spend @ view @ address_checksum e (spend @ view)"
  have dec: "bs58_decode e (bs58_encode e ?full) = Some ?full" using assms(1) by (simp add: bs58_laws_def)
  have len: "length (address_checksum e (spend @ view)) = 4" using assms(2) by (simp add: address_checksum_def)
  then have full: "length ?full = 68" using assms by simp
  have "68 \<le> length (bs58_encode e ?full)"
    using bs58_lengths(1) [OF assms(1) dec] full by simp
  then show ?thesis
    using dec full len assms(3,4) by (simp add: parse_stealth_address_def address_text_def Let_def subslice_def)
qed

lemma parse_printed_address:
  assumes "bs58_laws e" "\<forall>b. length (hex_encode e b) = 2 * length b"
    and "length (public_spend a) = 32" "length (public_view a) = 32"
  shows "parse_stealth_address e (address_to_string e a) = None"
proof -
  let ?hex = "hex_encode e (public_spend a @ public_view a)"
  have n: "length ?hex = 128" using assms(2-4) by simp
  have "length b \<noteq> 68" if "bs58_decode e ?hex = Some b" for b
  proof -
    have "7 * (length ?hex - 1) \<le> 10 * length b" using bs58_lengths(2) [OF assms(1) that] .
    with n show ?thesis by simp
  qed
  then show ?thesis
    by (auto simp: parse_stealth_address_def address_to_string_def split: option.splits)
qed

text \<open>
  Printed addresses are read back, by the node and by the wallet alike: the text a wallet
  prints for two public keys parses to those keys; every text that parses carries the checksum of
  the keys it yields; the two parsers accept the same texts. The library's own
  \<open>StealthAddress::to_string\<close> however prints another format, and neither parser accepts what it
  prints.
\<close>

theorem address_roundtrip:
  assumes "bs58_laws e" "\<forall>bs. length (sha3_256 e bs) = 32" "\<forall>b. length (hex_encode e b) = 2 * length b"
    and "length spend = 32" "length view = 32"
  shows "parse_stealth_address e (address_text e spend view) = Some \<lparr> public_spend = spend, public_view = view \<rparr>
    \<and> parse_cx1_address e (address_text e spend view) = Some (spend, view)
    \<and> (parse_cx1_address e s = Some (k, k') \<longleftrightarrow>
         parse_stealth_address e s = Some \<lparr> public_spend = k, public_view = k' \<rparr>)
    \<and> (parse_stealth_address e s = Some a \<longrightarrow>
         bs58_decode e (drop 3 s) =
           Some (public_spend a @ public_view a @ address_checksum e (public_spend a @ public_view a)))
    \<and> parse_stealth_address e (address_to_string e \<lparr> public_spend = spend, public_view = view \<rparr>) = None"
proof (intro conjI impI)
  show "parse_stealth_address e (address_text e spend view) = Some \<lparr> public_spend = spend, public_view = view \<rparr>"
    by (rule parse_address_text [OF assms(1,2,4,5)])
  then show "parse_cx1_address e (address_text e spend view) = Some (spend, view)"
    by (simp add: parsers_agree [OF assms(1)])
  show "parse_cx1_address e s = Some (k, k') \<longleftrightarrow>
      parse_stealth_address e s = Some \<lparr> public_spend = k, public_view = k' \<rparr>"
    by (auto simp: parsers_agree [OF assms(1)])
  show "bs58_decode e (drop 3 s) =
      Some (public_spend a @ public_view a @ address_checksum e (public_spend a @ public_view a))"
    if "parse_stealth_address e s = Some a"
  proof -
    from that obtain d where d: "bs58_decode e (drop 3 s) = Some d" "length d = 68"
      "address_checksum e (take 64 d) = drop 64 d" "a = \<lparr> public_spend = take 32 d, public_view = take 32 (drop 32 d) \<rparr>"
      by (auto simp: parse_stealth_address_def subslice_def split: if_splits option.splits)
    have keys: "take 32 d @ take 32 (drop 32 d) = take 64 d" using take_add [of 32 32 d] by simp
    then have "public_spend a @ public_view a = take 64 d" by (simp add: d(4))
    then have "public_spend a @ public_view a @ address_checksum e (public_spend a @ public_view a) =
        take 64 d @ drop 64 d"
      by (simp only: d(3) flip: append_assoc)
    then show ?thesis by (simp only: d(1) append_take_drop_id)
  qed
  show "parse_stealth_address e (address_to_string e \<lparr> public_spend = spend, public_view = view \<rparr>) = None"
    by (rule parse_printed_address [OF assms(1,3)]) (simp_all add: assms(4,5))
qed

theorem address_roundtrip_witness:
  "parse_stealth_address demo (address_text demo (zeros 32) (gf3_bytes Z2)) =
     Some \<lparr> public_spend = zeros 32, public_view = gf3_bytes Z2 \<rparr>
   \<and> parse_cx1_address demo (address_text demo (zeros 32) (gf3_bytes Z2)) = Some (zeros 32, gf3_bytes Z2)
   \<and> parse_stealth_address demo (address_to_string demo \<lparr> public_spend = zeros 32, public_view = gf3_bytes Z2 \<rparr>) = None"
proof -
  note hex = demo_hex_length
  have sha: "\<forall>bs. length (sha3_256 demo bs) = 32" by simp
  show ?thesis
    using address_roundtrip [OF demo_bs58 sha hex, of "zeros 32" "gf3_bytes Z2" "''''" "[]" "[]"] by simp
qed

end
