(* ===== verification/Wallet.thy ===== *)
theory Wallet
  imports Mnemonic Address Rpc
begin

text \<open>
  The wallet of \<open>src/src/bin/wallet.rs\<close>: the keys of a mnemonic, the encrypted wallet file, the scan of the
  chain's outputs with its cached state, the balance, and the payload of a payment. Console
  dialogue and files are not part of the model; \<open>argon2\<close>, \<open>aes-gcm\<close> and \<open>serde_json\<close> are the
  arguments of the record \<open>wallet_crates\<close>, with the laws relied on.
\<close>

section \<open>Keys\<close>

record wallet_data =
  wd_mnemonic :: string
  wd_private_spend :: string
  wd_private_view :: string
  wd_public_spend :: string
  wd_public_view :: string
  wd_address :: string
  wd_version :: u32

definition derive_keys :: "('p::ab_group_add, 's::field) crates \<Rightarrow> string \<Rightarrow> wallet_data" where
  "derive_keys e mnemonic =
     (let spend_seed = sha3_512 e (str_bytes ''CipherX_spend_v2'' @ str_bytes mnemonic);
          spend_scalar = from_bytes_mod_order_wide e spend_seed;
          spend_point = smul e spend_scalar (basepoint e);
          view_seed = sha3_512 e (str_bytes ''CipherX_view_v2'' @ scalar_to_bytes e spend_scalar);
          view_scalar = from_bytes_mod_order_wide e view_seed;
          view_point = smul e view_scalar (basepoint e) in
      \<lparr> wd_mnemonic = mnemonic,
        wd_private_spend = hex_encode e (scalar_to_bytes e spend_scalar),
        wd_private_view = hex_encode e (scalar_to_bytes e view_scalar),
        wd_public_spend = hex_encode e (compress e spend_point),
        wd_public_view = hex_encode e (compress e view_point),
        wd_address = address_text e (compress e spend_point) (compress e view_point),
        wd_version = 2 \<rparr>)"

section \<open>The wallet file\<close>

record wallet_crates =
  wc_argon2 :: "bytes \<Rightarrow> bytes \<Rightarrow> string + bytes"
  wc_aes_encrypt :: "bytes \<Rightarrow> bytes \<Rightarrow> bytes \<Rightarrow> string + bytes"
  wc_aes_decrypt :: "bytes \<Rightarrow> bytes \<Rightarrow> bytes \<Rightarrow> bytes option"
  wc_wallet_json :: "wallet_data \<Rightarrow> string + bytes"
  wc_wallet_parse :: "bytes \<Rightarrow> string + wallet_data"
  wc_lite_json :: "lite_raw \<Rightarrow> string"

record encrypted_wallet =
  ew_nonce :: string
  ew_salt :: string
  ew_ciphertext :: string
  ew_kdf :: string
  ew_version :: u32

datatype wallet_error =
    UnsupportedKdf string | InvalidSalt | InvalidNonce | InvalidCiphertext | InvalidNonceLength
  | Argon2Derive string | WrongPassword | SerializationError string | EncryptionError string
  | DeserializationError string

definition derive_encryption_key :: "wallet_crates \<Rightarrow> string \<Rightarrow> bytes \<Rightarrow> wallet_error + bytes" where
  "derive_encryption_key w password salt =
     (case wc_argon2 w (str_bytes password) salt of Inl err \<Rightarrow> Inl (Argon2Derive err) | Inr key \<Rightarrow> Inr key)"

definition encrypt_wallet ::
  "('p, 's) crates \<Rightarrow> wallet_crates \<Rightarrow> bytes \<Rightarrow> bytes \<Rightarrow> wallet_data \<Rightarrow> string \<Rightarrow>
   wallet_error + encrypted_wallet" where
  "encrypt_wallet e w salt nonce_bytes d password =
     (case derive_encryption_key w password salt of
        Inl err \<Rightarrow> Inl err
      | Inr key \<Rightarrow>
     (case wc_wallet_json w d of
        Inl err \<Rightarrow> Inl (SerializationError err)
      | Inr plaintext \<Rightarrow>
     (case wc_aes_encrypt w key nonce_bytes plaintext of
        Inl err \<Rightarrow> Inl (EncryptionError err)
      | Inr ciphertext \<Rightarrow>
          Inr \<lparr> ew_nonce = hex_encode e nonce_bytes, ew_salt = hex_encode e salt,
                ew_ciphertext = hex_encode e ciphertext, ew_kdf = ''argon2id-v1'', ew_version = 2 \<rparr>)))"

definition decrypt_wallet ::
  "('p, 's) crates \<Rightarrow> wallet_crates \<Rightarrow> encrypted_wallet \<Rightarrow> string \<Rightarrow> wallet_error + wallet_data" where
  "decrypt_wallet e w enc password =
     (if ew_kdf enc \<noteq> ''argon2id-v1'' then Inl (UnsupportedKdf (ew_kdf enc))
      else
        (case hex_decode e (ew_salt enc) of
           None \<Rightarrow> Inl InvalidSalt
         | Some salt \<Rightarrow>
        (case hex_decode e (ew_nonce enc) of
           None \<Rightarrow> Inl InvalidNonce
         | Some nonce_bytes \<Rightarrow>
        (case hex_decode e (ew_ciphertext enc) of
           None \<Rightarrow> Inl InvalidCiphertext
         | Some ciphertext \<Rightarrow>
             (if length nonce_bytes \<noteq> 12 then Inl InvalidNonceLength
              else
                (case derive_encryption_key w password salt of
                   Inl err \<Rightarrow> Inl err
                 | Inr key \<Rightarrow>
                (case wc_aes_decrypt w key nonce_bytes ciphertext of
                   None \<Rightarrow> Inl WrongPassword
                 | Some plaintext \<Rightarrow>
                     (case wc_wallet_parse w plaintext of
                        Inl err \<Rightarrow> Inl (DeserializationError err)
                      | Inr d \<Rightarrow> Inr d))))))))"

text \<open>The crates: what is encrypted is decrypted with the same key and nonce, what is written is read.\<close>

definition wallet_laws :: "wallet_crates \<Rightarrow> bool" where
  "wallet_laws w \<longleftrightarrow>
     (\<forall>k n m c. wc_aes_encrypt w k n m = Inr c \<longrightarrow> wc_aes_decrypt w k n c = Some m) \<and>
     (\<forall>d bs. wc_wallet_json w d = Inr bs \<longrightarrow> wc_wallet_parse w bs = Inr d)"

section \<open>Scanning\<close>

record detected_output =
  do_tx_pubkey :: string
  do_one_time_pubkey :: string
  do_encrypted_amount :: string
  do_block_height :: u64
  do_output_index :: u32
  do_tx_id :: string

definition hex32 :: "('p, 's) crates \<Rightarrow> string \<Rightarrow> bytes option" where
  "hex32 e s =
     (case hex_decode e s of None \<Rightarrow> None | Some b \<Rightarrow> if length b = 32 then Some b else None)"

fun scan_loop ::
  "('p::ab_group_add, 's::field) crates \<Rightarrow> view_key \<Rightarrow> public_key \<Rightarrow> fetched_output list \<Rightarrow> detected_output list" where
  "scan_loop e vk spend [] = []"
| "scan_loop e vk spend ((tp, op, enc, h, i, txid) # outs) =
     (case hex32 e tp of None \<Rightarrow> scan_loop e vk spend outs | Some tpb \<Rightarrow>
     (case hex32 e op of None \<Rightarrow> scan_loop e vk spend outs | Some opb \<Rightarrow>
        (if scan_output e tpb opb i vk spend \<noteq> None
         then \<lparr> do_tx_pubkey = tp, do_one_time_pubkey = op, do_encrypted_amount = enc,
                do_block_height = h, do_output_index = i, do_tx_id = txid \<rparr> # scan_loop e vk spend outs
         else scan_loop e vk spend outs)))"

text \<open>\<open>fetch\<close> is the node's answer to a range of heights, \<^const>\<open>None\<close> when it cannot be had.\<close>

definition scan_outputs ::
  "('p::ab_group_add, 's::field) crates \<Rightarrow> wallet_data \<Rightarrow> (u64 \<Rightarrow> u64 \<Rightarrow> json_value option) \<Rightarrow>
   u64 \<Rightarrow> u64 \<Rightarrow> detected_output list" where
  "scan_outputs e wd fetch from_block to_block =
     (case hex32 e (wd_private_view wd) of None \<Rightarrow> [] | Some vk \<Rightarrow>
     (case hex32 e (wd_public_spend wd) of None \<Rightarrow> [] | Some spend \<Rightarrow>
        scan_loop e vk spend (get_outputs_in_range (fetch from_block to_block))))"

record scan_state =
  last_scanned_block :: u64
  detected_outputs :: "detected_output list"

definition scan_state_default :: scan_state where
  "scan_state_default = \<lparr> last_scanned_block = 0, detected_outputs = [] \<rparr>"

text \<open>The update of the cached scan in \<open>cmd_balance\<close> and \<open>cmd_history\<close>, at the current height.\<close>

definition refresh_scan ::
  "('p::ab_group_add, 's::field) crates \<Rightarrow> wallet_data \<Rightarrow> (u64 \<Rightarrow> u64 \<Rightarrow> json_value option) \<Rightarrow> u64 \<Rightarrow>
   scan_state \<Rightarrow> scan_state" where
  "refresh_scan e wd fetch current_height st =
     (let from_block = last_scanned_block st + 1 in
      if from_block \<le> current_height then
        st\<lparr> detected_outputs := detected_outputs st @ scan_outputs e wd fetch from_block current_height,
            last_scanned_block := current_height \<rparr>
      else st)"

definition bytes_or_empty :: "('p, 's) crates \<Rightarrow> string \<Rightarrow> bytes" where
  "bytes_or_empty e s = (case hex_decode e s of Some b \<Rightarrow> b | None \<Rightarrow> [])"

definition output_amount ::
  "('p::ab_group_add, 's::field) crates \<Rightarrow> view_key \<Rightarrow> public_key \<Rightarrow> detected_output \<Rightarrow> u64" where
  "output_amount e vk spend out =
     (case (hex32 e (do_tx_pubkey out), hex32 e (do_one_time_pubkey out)) of
        (Some tpb, Some opb) \<Rightarrow>
          (case scan_output e tpb opb (do_output_index out) vk spend of
             None \<Rightarrow> 0
           | Some s_i_bytes \<Rightarrow>
               (case from_canonical_bytes e s_i_bytes of
                  None \<Rightarrow> 0
                | Some s_i \<Rightarrow>
                    (case decrypt_amount e (bytes_or_empty e (do_encrypted_amount out)) s_i of
                       Some v \<Rightarrow> v | None \<Rightarrow> 0)))
      | _ \<Rightarrow> 0)"

definition wallet_total ::
  "('p::ab_group_add, 's::field) crates \<Rightarrow> wallet_data \<Rightarrow> detected_output list \<Rightarrow> u64" where
  "wallet_total e wd outs =
     (case hex32 e (wd_private_view wd) of None \<Rightarrow> 0 | Some vk \<Rightarrow>
     (case hex32 e (wd_public_spend wd) of None \<Rightarrow> 0 | Some spend \<Rightarrow>
        fold (\<lambda>out acc. sat_add acc (output_amount e vk spend out)) outs 0))"

section \<open>Paying\<close>

text \<open>The guard of \<open>cmd_send\<close> on the amount in CIP, and its conversion to nCIP.\<close>

definition amount_rejected :: "f64 \<Rightarrow> bool" where
  "amount_rejected amount \<longleftrightarrow>
     \<not> (f64_less (Fin 0) amount \<and> amount \<noteq> Inf) \<or> f64_less (Fin 1000000000) amount"

definition amount_to_ncip :: "f64 \<Rightarrow> u64" where
  "amount_to_ncip amount = f64_as_u64 (f64_mul amount (Fin 1000000000))"

definition send_amount :: "f64 \<Rightarrow> u64 option" where
  "send_amount amount = (if amount_rejected amount then None else Some (amount_to_ncip amount))"

text \<open>The request that \<open>cmd_send\<close> submits for an amount already in nCIP: its hexadecimal payload.\<close>

definition send_payload ::
  "('p::ab_group_add, 's::field) crates \<Rightarrow> wallet_crates \<Rightarrow> bytes \<Rightarrow> string \<Rightarrow> u64 \<Rightarrow> string option" where
  "send_payload e w draw to amount_ncip =
     (if take 3 to \<noteq> ''CX1'' \<or> length to < 50 then None
      else
        (case parse_cx1_address e to of
           None \<Rightarrow> None
         | Some (spend_pub, view_pub) \<Rightarrow>
             (case generate_output e draw \<lparr> public_spend = spend_pub, public_view = view_pub \<rparr> 0 of
                Inl _ \<Rightarrow> None
              | Inr ok \<Rightarrow>
                  (let encrypted = encrypt_amount e amount_ncip (sk_shared_secret ok) in
                   Some (hex_encode e (str_bytes (wc_lite_json w
                     \<lparr> lite_tx_pubkey = hex_encode e (sk_tx_pubkey ok),
                       lite_one_time_pubkey = hex_encode e (sk_one_time_pubkey ok),
                       lite_encrypted_amount = hex_encode e encrypted,
                       lite_amount_ncip = amount_ncip \<rparr>)))))))"

end
