(* ===== verification/WalletProps.thy ===== *)
theory WalletProps
  imports Wallet
begin

text \<open>
  What the wallet promises: files are read back, a payment to a printed address reaches the
  recipient's balance through the node, and a refresh of the cached scan finds exactly the wallet's
  outputs, unless the node does not answer.
\<close>

section \<open>Files\<close>

text \<open>
  A wallet file is read back: whatever the random salt and nonce, if the wallet is encrypted under
  a password, then the same password decrypts the file to the same wallet; a file that names
  another key derivation is refused before any key is derived.
\<close>

theorem wallet_file_roundtrip:
  assumes "hex_laws e" "wallet_laws w" "length nonce = 12"
    and "encrypt_wallet e w salt nonce d password = Inr enc"
  shows "decrypt_wallet e w enc password = Inr d
    \<and> (ew_kdf enc' \<noteq> ''argon2id-v1'' \<longrightarrow> decrypt_wallet e w enc' password' = Inl (UnsupportedKdf (ew_kdf enc')))"
proof
  show "decrypt_wallet e w enc password = Inr d"
    using assms
    by (auto simp: encrypt_wallet_def decrypt_wallet_def hex_laws_def wallet_laws_def split: sum.splits)
qed (simp add: decrypt_wallet_def)

text \<open>
  Crates for the demonstration: the cipher prepends the key, the one wallet is one byte, a lite
  transaction is written as its fields in hexadecimal with a slash after each.
\<close>

definition demo_lite_json :: "lite_raw \<Rightarrow> string" where
  "demo_lite_json r =
     hex_text (str_bytes (lite_tx_pubkey r)) @ ''/'' @ hex_text (str_bytes (lite_one_time_pubkey r)) @ ''/''
       @ hex_text (str_bytes (lite_encrypted_amount r)) @ ''/'' @ hex_text (u64_to_le (lite_amount_ncip r))"

definition demo_wallet_crates :: "wallet_data \<Rightarrow> wallet_crates" where
  "demo_wallet_crates d =
     \<lparr> wc_argon2 = (\<lambda>pw salt. Inr (pad_to 32 (pw @ salt))),
       wc_aes_encrypt = (\<lambda>k n m. Inr (k @ m)),
       wc_aes_decrypt = (\<lambda>k n c. if take (length k) c = k then Some (drop (length k) c) else None),
       wc_wallet_json = (\<lambda>x. if x = d then Inr [1] else Inl ''not the wallet''),
       wc_wallet_parse = (\<lambda>bs. if bs = [1] then Inr d else Inl ''not a wallet''),
       wc_lite_json = demo_lite_json \<rparr>"

lemma demo_wallet_laws: "wallet_laws (demo_wallet_crates d)"
  by (auto simp: wallet_laws_def demo_wallet_crates_def split: if_splits)

theorem wallet_file_roundtrip_witness:
  "let d = derive_keys demo ''abandon ability''; w = demo_wallet_crates d in
    \<exists>enc. encrypt_wallet demo w [1, 2] (zeros 12) d ''pw'' = Inr enc \<and>
      decrypt_wallet demo w enc ''pw'' = Inr d"
proof -
  let ?d = "derive_keys demo ''abandon ability''"
  let ?w = "demo_wallet_crates ?d"
  obtain enc where f: "encrypt_wallet demo ?w [1, 2] (zeros 12) ?d ''pw'' = Inr enc"
    by (simp add: encrypt_wallet_def derive_encryption_key_def demo_wallet_crates_def)
  have "length (zeros 12) = 12" by simp
  from wallet_file_roundtrip [OF demo_hex demo_wallet_laws this f] f show ?thesis
    by (auto simp: Let_def)
qed

section \<open>Derived keys\<close>

definition owns :: "('p::ab_group_add, 's::field) crates \<Rightarrow> wallet_data \<Rightarrow> 's \<Rightarrow> 's \<Rightarrow> bool" where
  "owns e d b a \<longleftrightarrow>
     wd_private_spend d = hex_encode e (scalar_to_bytes e b) \<and>
     wd_private_view d = hex_encode e (scalar_to_bytes e a) \<and>
     wd_public_spend d = hex_encode e (public_spend (address_of e b a)) \<and>
     wd_public_view d = hex_encode e (public_view (address_of e b a)) \<and>
     wd_address d = address_text e (public_spend (address_of e b a)) (public_view (address_of e b a))"

lemma derive_keys_owns: "\<exists>b a. owns e (derive_keys e phrase) b a"
  by (auto simp: owns_def derive_keys_def address_of_def Let_def)

lemma hex32_encode: "hex_laws e \<Longrightarrow> length bs = 32 \<Longrightarrow> hex32 e (hex_encode e bs) = Some bs"
  by (simp add: hex32_def hex_laws_def)

lemma owns_keys:
  assumes "dalek_laws e" "hex_laws e" "owns e d b a"
  shows "hex32 e (wd_private_view d) = Some (scalar_to_bytes e a)"
    and "hex32 e (wd_public_spend d) = Some (public_spend (address_of e b a))"
  using assms
  by (simp_all add: owns_def hex32_encode length_scalar_to_bytes address_of_def length_compress)

section \<open>Scanning\<close>

text \<open>The outputs that the keys of the wallet recognise, and how the wallet records them.\<close>

definition recognised :: "('p::ab_group_add, 's::field) crates \<Rightarrow> wallet_data \<Rightarrow> utxo_entry \<Rightarrow> bool" where
  "recognised e d u \<longleftrightarrow>
     (case (hex32 e (wd_private_view d), hex32 e (wd_public_spend d)) of
        (Some vk, Some spend) \<Rightarrow>
          scan_output e (tx_pubkey (ut_output u)) (one_time_pubkey (ut_output u)) (ut_output_index u) vk spend \<noteq> None
      | _ \<Rightarrow> False)"

definition detected_of :: "('p, 's) crates \<Rightarrow> utxo_entry \<Rightarrow> detected_output" where
  "detected_of e u =
     \<lparr> do_tx_pubkey = hex_encode e (tx_pubkey (ut_output u)),
       do_one_time_pubkey = hex_encode e (one_time_pubkey (ut_output u)),
       do_encrypted_amount = hex_encode e (encrypted_amount (ut_output u)),
       do_block_height = ut_block_height u, do_output_index = ut_output_index u,
       do_tx_id = hex_encode e (ut_tx_id u) \<rparr>"

lemma scan_loop_utxos:
  assumes "hex_laws e" "\<forall>u\<in>set us. keyed u"
  shows "scan_loop e vk spend (map (fetched_utxo e) us) =
    map (detected_of e) (filter (\<lambda>u. scan_output e (tx_pubkey (ut_output u)) (one_time_pubkey (ut_output u))
      (ut_output_index u) vk spend \<noteq> None) us)"
  using assms(2)
  by (induction us) (auto simp: fetched_utxo_def detected_of_def keyed_def hex32_encode [OF assms(1)])

lemma scan_outputs_node:
  assumes "hex_laws e" "\<forall>b. length (hex_encode e b) = 2 * length b" "\<forall>u\<in>set (all_utxos ks c). keyed u"
    and "a \<le> b" "b \<le> ch_height c"
  shows "scan_outputs e d (node_outputs e now ks peers c) a b =
    map (detected_of e) (filter (\<lambda>u. a \<le> ut_block_height u \<and> ut_block_height u \<le> b \<and> recognised e d u)
      (all_utxos ks c))"
proof -
  let ?in = "filter (\<lambda>u. a \<le> ut_block_height u \<and> ut_block_height u \<le> b) (all_utxos ks c)"
  have "\<forall>u\<in>set ?in. keyed u" using assms(3) by simp
  note loop = scan_loop_utxos [OF assms(1) this]
  show ?thesis
    unfolding scan_outputs_def outputs_read_back [OF assms(2-5)]
    by (auto simp: loop recognised_def conj_assoc intro!: arg_cong [where f = "map (detected_of e)"]
        split: option.splits)
qed

text \<open>
  C29. A refresh of the scan is exact: when the node answers, the wallet adds to what it had found
  exactly the outputs of the chain between the last scanned height and the current one that its
  keys recognise, in the order of the node's listing, and records the current height.
\<close>

theorem refresh_scan_exact:
  assumes "hex_laws e" "\<forall>b. length (hex_encode e b) = 2 * length b" "\<forall>u\<in>set (all_utxos ks c). keyed u"
    and "last_scanned_block st + 1 \<le> ch_height c"
  shows "refresh_scan e d (node_outputs e now ks peers c) (ch_height c) st =
    \<lparr> last_scanned_block = ch_height c,
      detected_outputs = detected_outputs st @ map (detected_of e)
        (filter (\<lambda>u. last_scanned_block st + 1 \<le> ut_block_height u \<and> ut_block_height u \<le> ch_height c
           \<and> recognised e d u) (all_utxos ks c)) \<rparr>"
  using assms(4) scan_outputs_node [OF assms(1-4), of d now peers] by (simp add: refresh_scan_def)

theorem refresh_scan_exact_witness:
  "let c = (chain_new demo 3 :: unit chain)\<lparr>utxo_set := [(zeros 32, 0) \<mapsto> demo_utxo], ch_height := 5\<rparr>;
       d = derive_keys demo ''abandon'' in
    refresh_scan demo d (node_outputs demo 0 [(zeros 32, 0)] 2 c) (ch_height c) scan_state_default =
      \<lparr> last_scanned_block = 5, detected_outputs =
          (if recognised demo d demo_utxo then [detected_of demo demo_utxo] else []) \<rparr>"
proof -
  let ?c = "(chain_new demo 3 :: unit chain)\<lparr>utxo_set := [(zeros 32, 0) \<mapsto> demo_utxo], ch_height := 5\<rparr>"
  have all: "all_utxos [(zeros 32, 0)] ?c = [demo_utxo]" by (simp add: all_utxos_def)
  have u: "ut_block_height demo_utxo = 5" "keyed demo_utxo"
    by (simp_all add: demo_utxo_def keyed_def coinbase_placeholder_def)
  then have keys: "\<forall>u\<in>set (all_utxos [(zeros 32, 0)] ?c). keyed u" by (simp add: all)
  have new: "last_scanned_block scan_state_default + 1 \<le> ch_height ?c" by (simp add: scan_state_default_def)
  show ?thesis
    using refresh_scan_exact [OF demo_hex demo_hex_length keys new, of "derive_keys demo ''abandon''" 0 2] u
    by (simp add: all scan_state_default_def)
qed

section \<open>Lost outputs\<close>

type_synonym refresh = "(u64 \<Rightarrow> u64 \<Rightarrow> json_value option) \<times> u64"

definition refresh_step ::
  "('p::ab_group_add, 's::field) crates \<Rightarrow> wallet_data \<Rightarrow> scan_state \<Rightarrow> refresh \<Rightarrow> scan_state" where
  "refresh_step e d st r = refresh_scan e d (fst r) (snd r) st"

text \<open>Two later sessions in which the node answers alike about the heights above \<open>h\<close>.\<close>

definition alike_above :: "u64 \<Rightarrow> refresh \<Rightarrow> refresh \<Rightarrow> bool" where
  "alike_above h r r' \<longleftrightarrow>
     snd r = snd r' \<and> snd r < - 1 \<and> (\<forall>a b. h < a \<longrightarrow> fst r a b = fst r' a b)"

lemma word_inc_less: "(x :: u64) < - 1 \<Longrightarrow> x < x + 1"
  by unat_arith

lemma refresh_above:
  assumes "h \<le> last_scanned_block st" "last_scanned_block st < - 1" "alike_above h r r'"
  shows "refresh_step e d st r = refresh_step e d st r'"
    and "h \<le> last_scanned_block (refresh_step e d st r)" "last_scanned_block (refresh_step e d st r) < - 1"
proof -
  have nxt: "h < last_scanned_block st + 1" "last_scanned_block st < last_scanned_block st + 1"
    using assms(1) word_inc_less [OF assms(2)] by auto
  then have same: "fst r (last_scanned_block st + 1) n = fst r' (last_scanned_block st + 1) n" for n
    using assms(3) by (simp add: alike_above_def)
  have top: "snd r = snd r'" using assms(3) by (simp add: alike_above_def)
  show "refresh_step e d st r = refresh_step e d st r'"
    by (simp add: refresh_step_def refresh_scan_def scan_outputs_def same top Let_def split: option.split)
  show "h \<le> last_scanned_block (refresh_step e d st r)" "last_scanned_block (refresh_step e d st r) < - 1"
    using assms nxt by (auto simp: refresh_step_def refresh_scan_def alike_above_def Let_def)
qed

text \<open>
  C31. A request that fails loses outputs for good: when the node does not answer while the wallet
  refreshes its scan at height \<open>h\<close>, the wallet finds nothing and still records \<open>h\<close> as scanned, and
  from then on no later refresh, however the node answers, depends on what the blocks up to \<open>h\<close>
  hold. Payments in them never reach the balance.
\<close>

theorem failed_refresh_loses_outputs:
  assumes "fetch (last_scanned_block st + 1) h = None" "last_scanned_block st + 1 \<le> h" "h < - 1"
    and "list_all2 (alike_above h) rs rs'"
  shows "let st' = refresh_scan e d fetch h st in
    detected_outputs st' = detected_outputs st \<and> last_scanned_block st' = h \<and>
    run (refresh_step e d) st' rs = run (refresh_step e d) st' rs'"
proof -
  let ?st = "refresh_scan e d fetch h st"
  have st: "detected_outputs ?st = detected_outputs st" "last_scanned_block ?st = h"
    using assms(1,2)
    by (auto simp: refresh_scan_def scan_outputs_def get_outputs_in_range_def Let_def split: option.split)
  have "h \<le> last_scanned_block s \<Longrightarrow> last_scanned_block s < - 1 \<Longrightarrow>
      run (refresh_step e d) s rs = run (refresh_step e d) s rs'" for s
    using assms(4)
  proof (induction rs rs' arbitrary: s rule: list_all2_induct)
    case (Cons r rs r' rs')
    then show ?case using refresh_above [of h s r r' e d] by simp
  qed simp
  then show ?thesis using st assms(3) by (simp add: Let_def)
qed

theorem failed_refresh_loses_outputs_witness:
  "let d = derive_keys demo ''abandon''; st = refresh_scan demo d (\<lambda>a b. None) 5 scan_state_default;
       honest = (\<lambda>a b. Some (JArray (if a \<le> 5 then [output_json (utxo_ref demo demo_utxo)] else []))) in
    last_scanned_block st = 5 \<and> detected_outputs st = [] \<and>
    run (refresh_step demo d) st [(honest, 6)] = run (refresh_step demo d) st [(\<lambda>a b. Some (JArray []), 6)]"
proof -
  let ?honest = "\<lambda>a b :: u64. Some (JArray (if a \<le> 5 then [output_json (utxo_ref demo demo_utxo)] else []))"
  have "list_all2 (alike_above 5) [(?honest, 6)] [(\<lambda>a b. Some (JArray []), 6)]"
    by (auto simp: alike_above_def dest: leD)
  from failed_refresh_loses_outputs [OF _ _ _ this, of "\<lambda>a b. None" scan_state_default demo "derive_keys demo ''abandon''"]
  show ?thesis by (simp add: scan_state_default_def Let_def)
qed

section \<open>Amounts\<close>

lemmas send_amount_defs = send_amount_def amount_rejected_def amount_to_ncip_def

lemma send_amount_Fin:
  assumes "0 < x" "x \<le> 1000000000"
  shows "send_amount (Fin x) = Some (of_int \<lfloor>rnd (x * 1000000000)\<rfloor>)"
    and "0 \<le> \<lfloor>rnd (x * 1000000000)\<rfloor>" "\<lfloor>rnd (x * 1000000000)\<rfloor> \<le> 2 ^ 60"
proof -
  have le: "x * 1000000000 \<le> 2 ^ 60" using assms(2) by simp
  then have r: "rnd (x * 1000000000) \<le> 2 ^ 60" by (rule rnd_le_pow2)
  then have "\<lfloor>rnd (x * 1000000000)\<rfloor> \<le> \<lfloor>2 ^ 60 :: rat\<rfloor>" by (rule floor_mono)
  then show fl: "\<lfloor>rnd (x * 1000000000)\<rfloor> \<le> 2 ^ 60" by simp
  show "0 \<le> \<lfloor>rnd (x * 1000000000)\<rfloor>" using rnd_nonneg [of "x * 1000000000"] by simp
  have "x * 1000000000 \<le> 2 ^ 1023" using le by (rule order_trans) simp
  from f64_of_small [OF this] show "send_amount (Fin x) = Some (of_int \<lfloor>rnd (x * 1000000000)\<rfloor>)"
    using assms fl by (simp add: send_amount_defs min_def)
qed

text \<open>
  Amounts are converted without overflow, exactly for whole CIP and monotonically: the wallet
  refuses what is not positive and finite or exceeds a thousand million CIP; up to nine million, a whole number
  of CIP becomes exactly that many times \<open>10^9\<close> nCIP; a larger accepted amount never becomes a
  smaller payment, and no conversion saturates.
\<close>

theorem send_amount_exact:
  "send_amount NaN = None \<and> send_amount Inf = None
   \<and> (send_amount (Fin x) = None \<longleftrightarrow> x \<le> 0 \<or> 1000000000 < x)
   \<and> (0 < k \<and> k \<le> 9000000 \<longrightarrow> send_amount (Fin (of_nat k)) = Some (of_nat (k * 1000000000)))
   \<and> (send_amount (Fin x) = Some n \<and> send_amount (Fin y) = Some m \<and> x \<le> y \<longrightarrow>
        unat n \<le> unat m \<and> unat m \<le> 2 ^ 60)"
proof (intro conjI impI)
  show "send_amount NaN = None" "send_amount Inf = None" by (simp_all add: send_amount_defs)
  show none: "send_amount (Fin x) = None \<longleftrightarrow> x \<le> 0 \<or> 1000000000 < x" for x
    by (auto simp: send_amount_defs)
  show "send_amount (Fin (of_nat k)) = Some (of_nat (k * 1000000000))" if k: "0 < k \<and> k \<le> 9000000"
  proof -
    have "rnd (of_nat (k * 1000000000)) = of_nat (k * 1000000000)"
      using k by (intro rnd_of_nat) simp
    then have r: "rnd (of_nat k * 1000000000) = of_int (int (k * 1000000000))" by simp
    have "(0 :: rat) < of_nat k" "(of_nat k :: rat) \<le> 1000000000" using k by simp_all
    from send_amount_Fin(1) [OF this] show ?thesis unfolding r floor_of_int by simp
  qed
  assume some: "send_amount (Fin x) = Some n \<and> send_amount (Fin y) = Some m \<and> x \<le> y"
  then have xy: "0 < x" "x \<le> 1000000000" "0 < y" "y \<le> 1000000000"
    using none [of x] none [of y] by auto
  let ?f = "\<lambda>x :: rat. \<lfloor>rnd (x * 1000000000)\<rfloor>"
  have nat: "unat (of_int (?f z) :: u64) = nat (?f z)" if "0 < z" "z \<le> 1000000000" for z
    using send_amount_Fin(2,3) [OF that] by (simp add: unsigned_of_int take_bit_int_eq_self)
  have "n = of_int (?f x)" "m = of_int (?f y)"
    using some send_amount_Fin(1) [OF xy(1,2)] send_amount_Fin(1) [OF xy(3,4)] by auto
  moreover have "?f x \<le> ?f y" using some by (intro floor_mono rnd_mono) simp
  ultimately show "unat n \<le> unat m" "unat m \<le> 2 ^ 60"
    using send_amount_Fin(2,3) [OF xy(3,4)] by (simp_all add: nat [OF xy(1,2)] nat [OF xy(3,4)] nat_le_iff)
qed

theorem send_amount_exact_witness:
  "send_amount (Fin 0) = None \<and> send_amount (Fin 5) = Some 5000000000"
  using send_amount_exact [of 0 5 0 0 0] by simp

end
