(* ===== verification/Payment.thy ===== *)
theory Payment
  imports WalletProps
begin

text \<open>
  A payment from wallet to wallet: the payload of \<open>cmd_send\<close>, the node's RPC handler, the chain's
  output set and the recipient's scan and balance, composed.
\<close>

text \<open>
  What \<open>hex\<close> and \<open>serde_json\<close> promise: hexadecimal text is text, and a written lite transaction
  whose fields are text is text that is read back.
\<close>

definition serde_laws :: "('p, 's) crates \<Rightarrow> wallet_crates \<Rightarrow> bool" where
  "serde_laws e w \<longleftrightarrow>
     (\<forall>b. utf8_valid (str_bytes (hex_encode e b))) \<and>
     (\<forall>r. utf8_valid (str_bytes (lite_tx_pubkey r)) \<and> utf8_valid (str_bytes (lite_one_time_pubkey r)) \<and>
        utf8_valid (str_bytes (lite_encrypted_amount r)) \<longrightarrow>
        utf8_valid (str_bytes (wc_lite_json w r)) \<and> json_lite e (wc_lite_json w r) = Some r)"

section \<open>The transaction of a payment\<close>

text \<open>The output that a payment with the sender's scalar \<open>r\<close> makes for the keys \<open>b\<close> and \<open>a\<close>.\<close>

definition paid_output ::
  "('p::ab_group_add, 's::field) crates \<Rightarrow> 's \<Rightarrow> 's \<Rightarrow> 's \<Rightarrow> u64 \<Rightarrow> stealth_output" where
  "paid_output e r b a v =
     \<lparr> one_time_pubkey = compress e (smul e (one_time_secret e r a 0 + b) (basepoint e)),
       tx_pubkey = compress e (smul e r (basepoint e)), amount_commitment = zeros 32,
       encrypted_amount = encrypt_amount e v (one_time_secret e r a 0), range_proof = [] \<rparr>"

definition paid_raw :: "('p, 's) crates \<Rightarrow> stealth_output \<Rightarrow> u64 \<Rightarrow> lite_raw" where
  "paid_raw e out v =
     \<lparr> lite_tx_pubkey = hex_encode e (tx_pubkey out),
       lite_one_time_pubkey = hex_encode e (one_time_pubkey out),
       lite_encrypted_amount = hex_encode e (encrypted_amount out), lite_amount_ncip = v \<rparr>"

definition paid_tx :: "stealth_output \<Rightarrow> string \<Rightarrow> transaction" where
  "paid_tx out json =
     \<lparr> tx_type = Lite, inputs = [], outputs = [out], fee_commitment = zeros 32, fee_proof = [],
       extra = str_bytes json, version = 1 \<rparr>"

lemma send_payload_address:
  assumes "dalek_laws e" "bs58_laws e" "\<forall>bs. length (sha3_256 e bs) = 32" "owns e d b a"
  shows "send_payload e w draw (wd_address d) v =
    Some (hex_encode e (str_bytes (wc_lite_json w
      (paid_raw e (paid_output e (from_bytes_mod_order_wide e draw) b a v) v))))"
proof -
  let ?spend = "public_spend (address_of e b a)" and ?view = "public_view (address_of e b a)"
  have len: "length ?spend = 32" "length ?view = 32"
    by (simp_all add: address_of_def length_compress [OF assms(1)])
  have addr: "wd_address d = address_text e ?spend ?view" using assms(4) by (simp add: owns_def)
  have dec: "bs58_decode e (bs58_encode e ((?spend @ ?view) @ address_checksum e (?spend @ ?view))) =
      Some ((?spend @ ?view) @ address_checksum e (?spend @ ?view))"
    using assms(2) by (simp add: bs58_laws_def)
  have parse: "parse_cx1_address e (wd_address d) = Some (?spend, ?view)"
    by (simp add: addr parsers_agree [OF assms(2)] parse_address_text [OF assms(2,3) len])
  have "take 3 (wd_address d) = ''CX1''" "\<not> length (wd_address d) < 50"
    using bs58_lengths(1) [OF assms(2) dec] len by (simp_all add: addr address_text_def)
  moreover have "generate_output e draw \<lparr>public_spend = ?spend, public_view = ?view\<rparr> 0 =
      generate_output e draw (address_of e b a) 0" by (simp add: address_of_def)
  ultimately show ?thesis
    using parse
    by (simp add: send_payload_def generate_output_address [OF assms(1)] paid_raw_def paid_output_def Let_def)
qed

lemma node_accepts_payment:
  assumes "dalek_laws e" "hex_laws e" "serde_laws e w" "out = paid_output e r b a v"
  defines "json \<equiv> wc_lite_json w (paid_raw e out v)"
  shows "serve_rpc e now ks peers c pool
      \<lparr> rq_id = i, rq_method = ''cipherx_sendRawTransaction'',
        rq_params = [JString (hex_encode e (str_bytes json))] \<rparr> =
    (rpc_ok i (JString (''0x'' @ hex_encode e (tx_ident e (paid_tx out json)))), pool @ [paid_tx out json])"
proof -
  have json: "utf8_valid (str_bytes json)" "json_lite e json = Some (paid_raw e out v)"
    using assms(3) unfolding serde_laws_def json_def paid_raw_def by auto
  have hex: "hex_decode e (hex_encode e bs) = Some bs" for bs
    using assms(2) by (simp add: hex_laws_def)
  have "from_lite_raw e json = Some (paid_tx out json)"
    using assms(4)
    by (simp add: from_lite_raw_def json(2) paid_raw_def hex paid_tx_def paid_output_def
        length_compress [OF assms(1)])
  then show ?thesis
    by (simp add: serve_rpc_def handle_send_raw_tx_def param_str_def hex json(1) Let_def)
qed

lemma sat_add_zero: "sat_add 0 (v :: u64) = v"
  using unsigned_less [of v, where ?'a = nat] by (simp add: sat_add_def)

text \<open>Any output with the keys and the encrypted amount of such a payment is found by the recipient.\<close>

lemma payment_scanned:
  assumes "dalek_laws e" "aead_laws e" "hex_laws e" "owns e d b a" "ut_output_index u = 0"
    and "one_time_pubkey (ut_output u) = compress e (smul e (one_time_secret e r a 0 + b) (basepoint e))"
      "tx_pubkey (ut_output u) = compress e (smul e r (basepoint e))"
      "encrypted_amount (ut_output u) = encrypt_amount e v (one_time_secret e r a 0)"
  shows "recognised e d u" and "wallet_total e d [detected_of e u] = v"
proof -
  note keys = owns_keys [OF assms(1,3,4)]
  have scan: "scan_output e (tx_pubkey (ut_output u)) (one_time_pubkey (ut_output u)) 0
      (scalar_to_bytes e a) (public_spend (address_of e b a)) = Some (scalar_to_bytes e (one_time_secret e r a 0))"
    by (simp add: assms(6,7) scan_output_address [OF assms(1)])
  then show "recognised e d u" by (simp add: recognised_def keys assms(5))
  have hex: "hex_decode e (hex_encode e bs) = Some bs" for bs
    using assms(3) by (simp add: hex_laws_def)
  have "hex32 e (hex_encode e (tx_pubkey (ut_output u))) = Some (tx_pubkey (ut_output u))"
    "hex32 e (hex_encode e (one_time_pubkey (ut_output u))) = Some (one_time_pubkey (ut_output u))"
    by (simp_all add: hex32_encode [OF assms(3)] assms(6,7) length_compress [OF assms(1)])
  then have "output_amount e (scalar_to_bytes e a) (public_spend (address_of e b a)) (detected_of e u) = v"
    by (simp add: output_amount_def detected_of_def assms(5) scan canonical_to_bytes [OF assms(1)]
        bytes_or_empty_def hex) (simp add: assms(8) decrypt_encrypt_amount [OF assms(2)])
  then show "wallet_total e d [detected_of e u] = v" by (simp add: wallet_total_def keys sat_add_zero)
qed

lemma paid_tx_on_chain:
  "utxo_set (apply_tx e h (paid_tx out json) c) (tx_ident e (paid_tx out json), 0) =
     Some \<lparr> ut_output = out, ut_block_height = h, ut_tx_id = tx_ident e (paid_tx out json), ut_output_index = 0 \<rparr>"
  "validate_transaction e c (paid_tx out json) = Inr ()"
  by (simp_all add: apply_tx_def add_output_def paid_tx_def validate_transaction_def tx_verify_def)

section \<open>End to end\<close>

text \<open>
  C4. A payment arrives, and nobody pays it: whatever the sender's random draw, the payload that the
  wallet sends for the address printed by a wallet with any mnemonic is accepted by the node and
  becomes one pending transaction; that transaction is valid on every chain; once it is in a
  block, its output is in the output set, the recipient's scan recognises it, and the recipient's
  balance from it is exactly the amount sent. The transaction has no input: no key image is
  spent and no output of the sender is consumed, so the amount is created.
\<close>

theorem payment_end_to_end:
  assumes "dalek_laws e" "aead_laws e" "hex_laws e" "bs58_laws e" "serde_laws e w"
    and "\<forall>bs. length (sha3_256 e bs) = 32"
  shows "let me = derive_keys e phrase in
    \<exists>payload tx. send_payload e w draw (wd_address me) v = Some payload \<and>
      tx_type tx = Lite \<and> inputs tx = [] \<and>
      (\<forall>now ks peers c pool i. \<exists>reply. rp_error reply = None \<and> serve_rpc e now ks peers (c :: 'd chain) pool
         \<lparr> rq_id = i, rq_method = ''cipherx_sendRawTransaction'', rq_params = [JString payload] \<rparr>
           = (reply, pool @ [tx])) \<and>
      (\<forall>(c :: 'd chain) h. validate_transaction e c tx = Inr () \<and>
         (\<exists>u. utxo_set (apply_tx e h tx c) (tx_ident e tx, 0) = Some u \<and> ut_block_height u = h \<and>
            recognised e me u \<and> wallet_total e me [detected_of e u] = v))"
proof -
  obtain b a where owns: "owns e (derive_keys e phrase) b a" using derive_keys_owns by blast
  let ?out = "paid_output e (from_bytes_mod_order_wide e draw) b a v"
  let ?json = "wc_lite_json w (paid_raw e ?out v)"
  let ?u = "\<lambda>h. \<lparr> ut_output = ?out, ut_block_height = h, ut_tx_id = tx_ident e (paid_tx ?out ?json),
      ut_output_index = 0 \<rparr>"
  have scanned: "recognised e (derive_keys e phrase) (?u h)"
    "wallet_total e (derive_keys e phrase) [detected_of e (?u h)] = v" for h
    by (rule payment_scanned [OF assms(1-3) owns]; simp add: paid_output_def)+
  show ?thesis
    unfolding Let_def
  proof (intro exI [of _ "hex_encode e (str_bytes ?json)"] exI [of _ "paid_tx ?out ?json"] conjI allI)
    show "send_payload e w draw (wd_address (derive_keys e phrase)) v = Some (hex_encode e (str_bytes ?json))"
      by (rule send_payload_address [OF assms(1,4,6) owns])
    show "\<exists>reply. rp_error reply = None \<and> serve_rpc e now ks peers c pool
        \<lparr> rq_id = i, rq_method = ''cipherx_sendRawTransaction'',
          rq_params = [JString (hex_encode e (str_bytes ?json))] \<rparr> = (reply, pool @ [paid_tx ?out ?json])"
      for now ks peers and c :: "'d chain" and pool i
      by (simp add: node_accepts_payment [OF assms(1,3,5) refl] rpc_ok_def)
    show "\<exists>u. utxo_set (apply_tx e h (paid_tx ?out ?json) c) (tx_ident e (paid_tx ?out ?json), 0) = Some u \<and>
        ut_block_height u = h \<and> recognised e (derive_keys e phrase) u \<and>
        wallet_total e (derive_keys e phrase) [detected_of e u] = v" for h and c :: "'d chain"
      using scanned [of h] by (simp add: paid_tx_on_chain)
  qed (simp_all add: paid_tx_on_chain(2), simp_all add: paid_tx_def)
qed

section \<open>A concrete payment\<close>

definition demo_field :: "string \<Rightarrow> string \<times> string" where
  "demo_field s = (takeWhile (\<lambda>c. c \<noteq> CHR ''/'') s, tl (dropWhile (\<lambda>c. c \<noteq> CHR ''/'') s))"

definition demo_read_json :: "string \<Rightarrow> lite_raw option" where
  "demo_read_json s =
     (let (a, s1) = demo_field s; (b, s2) = demo_field s1; (c, d) = demo_field s2 in
      case (hex_bytes a, hex_bytes b, hex_bytes c, hex_bytes d) of
        (Some x, Some y, Some z, Some n) \<Rightarrow>
          Some \<lparr> lite_tx_pubkey = bytes_str x, lite_one_time_pubkey = bytes_str y,
                 lite_encrypted_amount = bytes_str z, lite_amount_ncip = u64_from_le n \<rparr>
      | _ \<Rightarrow> None)"

lemma set_hex_text: "set (hex_text bs) \<subseteq> set hex_digits"
proof (induction bs)
  case (Cons b bs)
  have b: "unat b < 256" using unsigned_less [of b, where ?'a = nat] by simp
  have "length hex_digits = 16" by (simp add: hex_digits_def)
  with b have "hex_digits ! (unat b div 16) \<in> set hex_digits" "hex_digits ! (unat b mod 16) \<in> set hex_digits"
    by simp_all
  with Cons show ?case by simp
qed simp

lemma demo_field_hex: "demo_field (hex_text bs @ CHR ''/'' # s) = (hex_text bs, s)"
proof -
  have "CHR ''/'' \<notin> set hex_digits" by (simp add: hex_digits_def)
  then have "\<forall>c\<in>set (hex_text bs). c \<noteq> CHR ''/''" using set_hex_text [of bs] by blast
  then show ?thesis by (simp add: demo_field_def)
qed

lemma hex_text_utf8: "set s \<subseteq> insert (CHR ''/'') (set hex_digits) \<Longrightarrow> utf8_valid (str_bytes s)"
  by (rule utf8_valid_ascii) (auto simp: str_bytes_def hex_digits_def)

abbreviation demo_json :: "(gf3, gf3) crates" where
  "demo_json \<equiv> demo\<lparr>json_lite := demo_read_json\<rparr>"

lemma demo_json_laws:
  "dalek_laws demo_json" "aead_laws demo_json" "hex_laws demo_json" "bs58_laws demo_json"
  "serde_laws demo_json (demo_wallet_crates d)"
proof -
  show "dalek_laws demo_json" using demo_dalek by (simp add: dalek_laws_def)
  show "aead_laws demo_json" using demo_aead by (simp add: aead_laws_def)
  show "hex_laws demo_json" using demo_hex by (simp add: hex_laws_def)
  show "bs58_laws demo_json" using demo_bs58 by (simp add: bs58_laws_def)
  have read: "demo_read_json (demo_lite_json r) = Some r" for r
    by (simp add: demo_read_json_def demo_lite_json_def demo_field_hex hex_bytes_text u64_le.dec_enc)
  have "utf8_valid (str_bytes (demo_lite_json r))" for r
    using set_hex_text by (intro hex_text_utf8) (auto simp: demo_lite_json_def)
  moreover have "utf8_valid (str_bytes (hex_text b))" for b
    using set_hex_text by (intro hex_text_utf8) blast
  ultimately show "serde_laws demo_json (demo_wallet_crates d)"
    using read by (simp add: serde_laws_def demo_wallet_crates_def demo_def)
qed

theorem payment_end_to_end_witness:
  "let me = derive_keys demo_json ''abandon ability'' in
    \<exists>payload tx. send_payload demo_json (demo_wallet_crates me) [1] (wd_address me) 77 = Some payload \<and>
      inputs tx = [] \<and>
      (\<exists>reply. rp_error reply = None \<and> serve_rpc demo_json 0 [] 1 (chain_new demo_json 3 :: unit chain) []
         \<lparr> rq_id = JUint 1, rq_method = ''cipherx_sendRawTransaction'', rq_params = [JString payload] \<rparr>
           = (reply, [tx])) \<and>
      (\<exists>u. utxo_set (apply_tx demo_json 1 tx (chain_new demo_json 3 :: unit chain)) (tx_ident demo_json tx, 0) = Some u \<and>
         wallet_total demo_json me [detected_of demo_json u] = 77)"
proof -
  have sha: "\<forall>bs. length (sha3_256 demo_json bs) = 32" by simp
  show ?thesis
    using payment_end_to_end [OF demo_json_laws sha, where ?'d = unit,
        of "''abandon ability''" "derive_keys demo_json ''abandon ability''" "[1]" 77]
    unfolding Let_def by (metis append_Nil)
qed

end
