(* ===== verification/CipText.thy ===== *)
theory CipText
  imports Rpc
begin

text \<open>
  The amounts that the wallet prints: \<open>format_cip\<close> of \<open>src/src/bin/wallet.rs\<close>, with the decimal text
  of a binary64 value to a fixed number of places as the standard library prints it (the exact value,
  rounded to nearest with ties to even), and the unit that each amount gets.
\<close>

definition pad_zeros :: "nat \<Rightarrow> string \<Rightarrow> string" where
  "pad_zeros k s = replicate (k - length s) (CHR ''0'') @ s"

text \<open>\<open>n\<close> units of the last of \<open>k\<close> places.\<close>

definition fixed_text :: "nat \<Rightarrow> nat \<Rightarrow> string" where
  "fixed_text k n = radix_text 10 (n div 10 ^ k) @ ''.'' @ pad_zeros k (radix_text 10 (n mod 10 ^ k))"

definition f64_text :: "nat \<Rightarrow> f64 \<Rightarrow> string" where
  "f64_text k v =
     (case v of
        NaN \<Rightarrow> ''NaN''
      | Inf \<Rightarrow> ''inf''
      | Fin x \<Rightarrow> fixed_text k (nat (round_even (x * 10 ^ k))))"

definition f64_ge :: "f64 \<Rightarrow> f64 \<Rightarrow> bool" where
  "f64_ge x y \<longleftrightarrow> f64_less y x \<or> (x = y \<and> x \<noteq> NaN)"

definition format_cip :: "u64 \<Rightarrow> string" where
  "format_cip ncip =
     (let cip = f64_div (u64_as_f64 ncip) (Fin 1000000000) in
      if f64_ge cip (Fin 1000) then f64_text 2 (f64_div cip (Fin 1000)) @ ''K CIP''
      else if f64_ge cip (Fin 1) then f64_text 4 cip @ '' CIP''
      else dec_text ncip @ '' nCIP'')"

section \<open>Units\<close>

lemma f64_ge_Fin: "f64_ge (Fin x) (Fin y) \<longleftrightarrow> y \<le> x"
  by (auto simp: f64_ge_def)

text \<open>A quotient at least, or just below, a limit that is a multiple of \<open>2 powi (- 30)\<close>.\<close>

lemma rnd_below_limit:
  assumes "x \<le> of_int L - 2 powi (- 30)" "1 \<le> L" "L \<le> 1000"
  shows "rnd x < of_int L"
proof -
  let ?y = "of_int L - 2 powi (- 30) :: rat"
  have y: "0 < ?y" "?y < 2 powi 10" "?y = of_int (L * 2 ^ 30 - 1) * 2 powi (- 30)"
    using assms(2,3) by (auto simp: power_int_minus field_simps)
  have "(2::rat) powi flog2 ?y < 2 powi 10" using flog2_bounds(1) [OF y(1)] y(2) by (rule le_less_trans)
  then have "grid ?y \<le> - 30" using powi_le_iff [of 10 "flog2 ?y"] by (auto simp: grid_def not_le)
  then have "rnd ?y = ?y" using y by (intro rnd_on_grid [where m = "L * 2 ^ 30 - 1" and e = "- 30"]) auto
  with rnd_mono [OF assms(1)] have "rnd x \<le> ?y" by simp
  also have "\<dots> < of_int L" by simp
  finally show ?thesis .
qed

lemma rnd_of_limit: "L \<le> 1000000000000 \<Longrightarrow> rnd (of_nat L) = of_nat L"
  by (rule rnd_of_nat) simp

lemma cip_value:
  "f64_div (u64_as_f64 n) (Fin 1000000000) = Fin (rnd (rnd (of_nat (unat n)) / 1000000000))"
proof -
  have "rnd (of_nat (unat n)) / 1000000000 \<le> 2 ^ 64" using rnd_u64 [of n] rnd_nonneg [of "of_nat (unat n)"] by linarith
  then have "rnd (of_nat (unat n)) / 1000000000 \<le> 2 ^ 1023" by (rule order_trans) simp
  then show ?thesis by (simp add: u64_as_f64_Fin f64_of_small del: of_nat_unat)
qed

text \<open>The comparison in binary64 is the comparison of the amounts.\<close>

lemma cip_reaches:
  fixes L :: nat
  assumes "1 \<le> L" "L \<le> 1000"
  shows "of_nat L \<le> rnd (rnd (of_nat (unat n)) / 1000000000) \<longleftrightarrow> L * 1000000000 \<le> unat n"
proof
  assume n: "L * 1000000000 \<le> unat n"
  have "rnd (of_nat (L * 1000000000)) \<le> rnd (of_nat (unat n))" using n by (intro rnd_mono) (simp only: of_nat_le_iff)
  then have "of_nat L \<le> rnd (of_nat (unat n)) / 1000000000"
    using assms rnd_of_limit [of "L * 1000000000"] by (simp add: field_simps del: of_nat_unat)
  from rnd_mono [OF this] show "of_nat L \<le> rnd (rnd (of_nat (unat n)) / 1000000000)"
    using assms by (simp add: rnd_of_limit del: of_nat_unat)
next
  assume le: "of_nat L \<le> rnd (rnd (of_nat (unat n)) / 1000000000)"
  show "L * 1000000000 \<le> unat n"
  proof (rule ccontr)
    assume "\<not> L * 1000000000 \<le> unat n"
    then have n: "unat n + 1 \<le> L * 1000000000" by simp
    then have "rnd (of_nat (unat n)) = of_nat (unat n)" using assms by (intro rnd_of_limit) simp
    moreover have "(of_nat (unat n + 1) :: rat) \<le> of_nat (L * 1000000000)" using n by (simp only: of_nat_le_iff)
    ultimately have "rnd (of_nat (unat n)) / 1000000000 \<le> of_int (int L) - 2 powi (- 30)"
      by (simp add: field_simps power_int_minus del: of_nat_unat)
    from rnd_below_limit [OF this] assms le show False by (simp del: of_nat_unat)
  qed
qed

text \<open>
  The unit of a printed amount is exact: below one CIP it is printed in nCIP without any rounding, from
  one thousand CIP in thousands with two places, in between in CIP with four places; no rounding
  of the division moves an amount to another unit.
\<close>

lemma format_cip_units:
  "format_cip n =
     (let cip = f64_div (u64_as_f64 n) (Fin 1000000000) in
      if unat n < 1000000000 then radix_text 10 (unat n) @ '' nCIP''
      else if unat n < 1000000000000 then f64_text 4 cip @ '' CIP''
      else f64_text 2 (f64_div cip (Fin 1000)) @ ''K CIP'')"
  using cip_reaches [of 1 n] cip_reaches [of 1000 n]
  by (simp add: format_cip_def Let_def cip_value f64_ge_Fin dec_text_def not_le del: of_nat_unat f64_div.simps)

end
