(* ===== verification/WalletCli.thy ===== *)
theory WalletCli
  imports Payment Http CipText
begin

text \<open>
  The commands of \<open>src/src/bin/wallet.rs\<close> as functions on the world that they act on: the files, the
  lines and passwords typed, what is shown, the requests made to the node and the exit status. The
  fixed wording of the console is left out: \<open>shown\<close> has one constructor for each message, with the data
  in it. Random bytes and the node's answers are arguments, so are \<open>serde_json\<close> for the two kinds of
  files and the Unicode tables of \<open>to_lowercase\<close>.
\<close>

section \<open>The world\<close>

datatype cli_error =
    NoWalletFile string
  | InvalidWalletFile string
  | CannotCreateDir string
  | CannotSerialize string
  | CannotWrite string
  | CannotRestrict string
  | FromWallet wallet_error

datatype shown =
    ShowError cli_error
  | ShowHeader string
  | ShowExists string
  | ShowCancelled
  | ShowAddress string
  | ShowWords "string list"
  | ShowPasswordsDiffer
  | ShowSaved string
  | ShowWordCount nat
  | ShowUnknownWords
  | ShowConnected u64
  | ShowScanning u64 u64
  | ShowTotal u64
  | ShowOutputs nat u64
  | ShowNoOutputs u64
  | ShowOffline
  | ShowCached nat u64
  | ShowQr string
  | ShowInvalidAddress
  | ShowInvalidAmount
  | ShowUndecodable
  | ShowPayment string string f64 string string "string option"
  | ShowStealthError
  | ShowTxId string
  | ShowSendFailed
  | ShowNeverScanned
  | ShowCount nat nat
  | ShowOutput nat u64
  | ShowOutputTx string
  | ShowOutputKey string
  | ShowOutputIndex u32
  | ShowLastScan u64
  | ShowMinimum
  | ShowStaking f64
  | ShowUnstaking f64
  | ShowInitiated string
  | ShowNode u64 u64 u64
  | ShowViewKey string
  | ShowDeleteWarning
  | ShowDeleted
  | ShowDeleteFailed string

record cli_crates =
  cc_wallet_text :: "encrypted_wallet \<Rightarrow> string + bytes"
  cc_wallet_read :: "bytes \<Rightarrow> encrypted_wallet option"
  cc_scan_text :: "scan_state \<Rightarrow> bytes option"
  cc_scan_read :: "bytes \<Rightarrow> scan_state option"
  cc_lower :: "string \<Rightarrow> string"

text \<open>
  The answers of the file system to the operations of the wallet, by path; a file that exists can be
  read in the model.
\<close>

record disk =
  dk_read :: "string \<Rightarrow> bytes option"
  dk_create_dir :: "string \<Rightarrow> string option"
  dk_write :: "string \<Rightarrow> string option"
  dk_chmod :: "string \<Rightarrow> string option"
  dk_remove :: "string \<Rightarrow> string option"

text \<open>The home directory, or the current one when there is none; \<open>wo_calls\<close> lists the requests made.\<close>

record world =
  wo_home :: string
  wo_disk :: disk
  wo_lines :: "string list"
  wo_passwords :: "string list"
  wo_shown :: "shown list"
  wo_calls :: "(string \<times> json_value list) list"
  wo_status :: nat

record draws =
  dr_entropy :: bytes
  dr_salt :: bytes
  dr_nonce :: bytes
  dr_output :: bytes
  dr_hash :: bytes

type_synonym node = "string \<Rightarrow> json_value list \<Rightarrow> json_value option"

section \<open>Effects\<close>

definition show_msg :: "shown \<Rightarrow> world \<Rightarrow> world" where
  "show_msg m w = w\<lparr> wo_shown := wo_shown w @ [m] \<rparr>"

text \<open>The status of a program that panics is 101.\<close>

definition exit_panic :: "world \<Rightarrow> world" where
  "exit_panic w = w\<lparr> wo_status := 101 \<rparr>"

definition exit_failure :: "world \<Rightarrow> world" where
  "exit_failure w = w\<lparr> wo_status := 1 \<rparr>"

text \<open>At the end of the input a line is empty, and so is a password that cannot be read.\<close>

definition read_line :: "world \<Rightarrow> string \<times> world" where
  "read_line w = (case wo_lines w of [] \<Rightarrow> ([], w) | l # ls \<Rightarrow> (l, w\<lparr> wo_lines := ls \<rparr>))"

definition prompt_password :: "world \<Rightarrow> string \<times> world" where
  "prompt_password w = (case wo_passwords w of [] \<Rightarrow> ([], w) | p # ps \<Rightarrow> (p, w\<lparr> wo_passwords := ps \<rparr>))"

definition trim_text :: "string \<Rightarrow> string" where
  "trim_text s = bytes_str (trim (str_bytes s))"

definition says_yes :: "cli_crates \<Rightarrow> string \<Rightarrow> bool" where
  "says_yes cc l \<longleftrightarrow> cc_lower cc (trim_text l) = ''oui''"

definition rpc_call :: "node \<Rightarrow> string \<Rightarrow> json_value list \<Rightarrow> world \<Rightarrow> json_value option \<times> world" where
  "rpc_call nd m ps w = (nd m ps, w\<lparr> wo_calls := wo_calls w @ [(m, ps)] \<rparr>)"

definition write_file :: "string \<Rightarrow> bytes \<Rightarrow> world \<Rightarrow> world" where
  "write_file p bs w = w\<lparr> wo_disk := (wo_disk w)\<lparr> dk_read := (dk_read (wo_disk w))(p \<mapsto> bs) \<rparr> \<rparr>"

definition remove_file :: "string \<Rightarrow> world \<Rightarrow> world" where
  "remove_file p w = w\<lparr> wo_disk := (wo_disk w)\<lparr> dk_read := (dk_read (wo_disk w))(p := None) \<rparr> \<rparr>"

section \<open>Files\<close>

text \<open>A failed \<open>fs::write\<close> leaves the file alone in the model; a failed \<open>chmod\<close> comes after the write.\<close>

definition save_wallet ::
  "cli_crates \<Rightarrow> string \<Rightarrow> encrypted_wallet \<Rightarrow> world \<Rightarrow> (cli_error + unit) \<times> world" where
  "save_wallet cc path enc w =
     (case dk_create_dir (wo_disk w) path of
        Some err \<Rightarrow> (Inl (CannotCreateDir err), w)
      | None \<Rightarrow>
     (case cc_wallet_text cc enc of
        Inl err \<Rightarrow> (Inl (CannotSerialize err), w)
      | Inr json \<Rightarrow>
     (case dk_write (wo_disk w) path of
        Some err \<Rightarrow> (Inl (CannotWrite err), w)
      | None \<Rightarrow>
          (let w' = write_file path json w in
           case dk_chmod (wo_disk w) path of
             Some err \<Rightarrow> (Inl (CannotRestrict err), w')
           | None \<Rightarrow> (Inr (), w')))))"

definition load_wallet :: "cli_crates \<Rightarrow> string \<Rightarrow> world \<Rightarrow> cli_error + encrypted_wallet" where
  "load_wallet cc path w =
     (case dk_read (wo_disk w) path of
        None \<Rightarrow> Inl (NoWalletFile path)
      | Some json \<Rightarrow>
          (if \<not> utf8_valid json then Inl (NoWalletFile path)
           else (case cc_wallet_read cc json of None \<Rightarrow> Inl (InvalidWalletFile path) | Some enc \<Rightarrow> Inr enc)))"

text \<open>\<^const>\<open>None\<close> when the two passwords differ, which ends the program.\<close>

definition ask_password :: "bool \<Rightarrow> world \<Rightarrow> string option \<times> world" where
  "ask_password confirm w =
     (case prompt_password w of
        (pwd, w1) \<Rightarrow>
          (if confirm then
             (case prompt_password w1 of
                (pwd2, w2) \<Rightarrow>
                  (if pwd \<noteq> pwd2 then (None, exit_failure (show_msg ShowPasswordsDiffer w2)) else (Some pwd, w2)))
           else (Some pwd, w1)))"

definition load_and_decrypt ::
  "('p, 's) crates \<Rightarrow> wallet_crates \<Rightarrow> cli_crates \<Rightarrow> string \<Rightarrow> world \<Rightarrow> (cli_error + wallet_data) \<times> world" where
  "load_and_decrypt e wc cc path w =
     (case load_wallet cc path w of
        Inl err \<Rightarrow> (Inl err, w)
      | Inr enc \<Rightarrow>
          (case prompt_password w of
             (pwd, w1) \<Rightarrow>
               (case decrypt_wallet e wc enc pwd of
                  Inl err \<Rightarrow> (Inl (FromWallet err), w1)
                | Inr d \<Rightarrow> (Inr d, w1))))"

definition wallet_path :: "string option \<Rightarrow> world \<Rightarrow> string" where
  "wallet_path custom w = (case custom of Some p \<Rightarrow> p | None \<Rightarrow> wo_home w @ ''/.cipherx/wallet.json'')"

definition scan_state_path :: "world \<Rightarrow> string" where
  "scan_state_path w = wo_home w @ ''/.cipherx/scan_state.json''"

definition load_scan_state :: "cli_crates \<Rightarrow> world \<Rightarrow> scan_state" where
  "load_scan_state cc w =
     (case dk_read (wo_disk w) (scan_state_path w) of
        None \<Rightarrow> scan_state_default
      | Some content \<Rightarrow>
          (if \<not> utf8_valid content then scan_state_default
           else (case cc_scan_read cc content of Some st \<Rightarrow> st | None \<Rightarrow> scan_state_default)))"

definition save_scan_state :: "cli_crates \<Rightarrow> scan_state \<Rightarrow> world \<Rightarrow> world" where
  "save_scan_state cc st w =
     (case cc_scan_text cc st of
        None \<Rightarrow> w
      | Some json \<Rightarrow>
          (if dk_write (wo_disk w) (scan_state_path w) = None then write_file (scan_state_path w) json w else w))"

section \<open>Commands\<close>

text \<open>The end of generate and of import; \<open>saved\<close> is what they show when the file is written.\<close>

definition encrypt_and_save ::
  "('p, 's) crates \<Rightarrow> wallet_crates \<Rightarrow> cli_crates \<Rightarrow> draws \<Rightarrow> string \<Rightarrow> wallet_data \<Rightarrow> shown list \<Rightarrow> string \<Rightarrow>
   world \<Rightarrow> world" where
  "encrypt_and_save e wc cc dr path d saved password w =
     (case encrypt_wallet e wc (dr_salt dr) (dr_nonce dr) d password of
        Inl err \<Rightarrow> show_msg (ShowError (FromWallet err)) w
      | Inr enc \<Rightarrow>
          (case save_wallet cc path enc w of
             (Inl err, w') \<Rightarrow> show_msg (ShowError err) w'
           | (Inr _, w') \<Rightarrow> fold show_msg saved w'))"

definition ask_and_save ::
  "('p, 's) crates \<Rightarrow> wallet_crates \<Rightarrow> cli_crates \<Rightarrow> draws \<Rightarrow> string \<Rightarrow> wallet_data \<Rightarrow> shown list \<Rightarrow> world \<Rightarrow> world" where
  "ask_and_save e wc cc dr path d saved w =
     (case ask_password True w of
        (None, w1) \<Rightarrow> w1
      | (Some password, w1) \<Rightarrow> encrypt_and_save e wc cc dr path d saved password w1)"

definition new_wallet ::
  "('p::ab_group_add, 's::field) crates \<Rightarrow> wallet_crates \<Rightarrow> cli_crates \<Rightarrow> draws \<Rightarrow> string \<Rightarrow> world \<Rightarrow> world" where
  "new_wallet e wc cc dr path w =
     (let mnemonic = generate_mnemonic (dr_entropy dr); wallet = derive_keys e mnemonic in
      ask_and_save e wc cc dr path wallet [ShowSaved path, ShowAddress (wd_address wallet)]
        (show_msg (ShowWords (split_whitespace mnemonic)) (show_msg (ShowAddress (wd_address wallet)) w)))"

definition cmd_generate ::
  "('p::ab_group_add, 's::field) crates \<Rightarrow> wallet_crates \<Rightarrow> cli_crates \<Rightarrow> draws \<Rightarrow> string \<Rightarrow> world \<Rightarrow> world" where
  "cmd_generate e wc cc dr path w =
     (let w1 = show_msg (ShowHeader ''Nouveau Wallet'') w in
      if dk_read (wo_disk w) path \<noteq> None then
        (case read_line (show_msg (ShowExists path) w1) of
           (input, w2) \<Rightarrow>
             (if says_yes cc input then new_wallet e wc cc dr path w2 else show_msg ShowCancelled w2))
      else new_wallet e wc cc dr path w1)"

definition cmd_import ::
  "('p::ab_group_add, 's::field) crates \<Rightarrow> wallet_crates \<Rightarrow> cli_crates \<Rightarrow> draws \<Rightarrow> string \<Rightarrow> world \<Rightarrow> world" where
  "cmd_import e wc cc dr path w =
     (case read_line (show_msg (ShowHeader ''Importer un Wallet'') w) of
        (input, w1) \<Rightarrow>
          (let mnemonic = cc_lower cc (trim_text input) in
           if validate_mnemonic mnemonic = None then
             (let count = length (split_whitespace mnemonic) in
              exit_failure (show_msg (if count \<noteq> MNEMONIC_WORDS then ShowWordCount count else ShowUnknownWords) w1))
           else
             (let wallet = derive_keys e mnemonic in
              ask_and_save e wc cc dr path wallet [ShowSaved path] (show_msg (ShowAddress (wd_address wallet)) w1))))"

definition with_wallet ::
  "('p, 's) crates \<Rightarrow> wallet_crates \<Rightarrow> cli_crates \<Rightarrow> string \<Rightarrow> (wallet_data \<Rightarrow> world \<Rightarrow> world) \<Rightarrow> world \<Rightarrow> world" where
  "with_wallet e wc cc path f w =
     (case load_and_decrypt e wc cc path w of
        (Inl err, w') \<Rightarrow> show_msg (ShowError err) w'
      | (Inr d, w') \<Rightarrow> f d w')"

definition cmd_address ::
  "('p, 's) crates \<Rightarrow> wallet_crates \<Rightarrow> cli_crates \<Rightarrow> string \<Rightarrow> world \<Rightarrow> world" where
  "cmd_address e wc cc path =
     with_wallet e wc cc path (\<lambda>d w. show_msg (ShowAddress (wd_address d)) (show_msg (ShowHeader ''Adresse'') w))"

definition cmd_receive ::
  "('p, 's) crates \<Rightarrow> wallet_crates \<Rightarrow> cli_crates \<Rightarrow> string \<Rightarrow> world \<Rightarrow> world" where
  "cmd_receive e wc cc path =
     with_wallet e wc cc path (\<lambda>d w.
       show_msg (ShowAddress (wd_address d)) (show_msg (ShowQr (wd_address d)) (show_msg (ShowHeader ''Recevoir des CIP'') w)))"

definition cmd_viewkey ::
  "('p, 's) crates \<Rightarrow> wallet_crates \<Rightarrow> cli_crates \<Rightarrow> string \<Rightarrow> world \<Rightarrow> world" where
  "cmd_viewkey e wc cc path =
     with_wallet e wc cc path (\<lambda>d w. show_msg (ShowViewKey (wd_private_view d)) (show_msg (ShowHeader ''View Key'') w))"

definition ask_height :: "node \<Rightarrow> world \<Rightarrow> u64 option \<times> world" where
  "ask_height nd w = (case rpc_call nd ''cipherx_blockNumber'' [] w of (r, w') \<Rightarrow> (get_chain_height r, w'))"

text \<open>A price and a count of peers are read like a height, from other methods.\<close>

definition get_gas_price :: "node \<Rightarrow> world \<Rightarrow> u64 option \<times> world" where
  "get_gas_price nd w = (case rpc_call nd ''cipherx_gasPrice'' [] w of (r, w') \<Rightarrow> (get_chain_height r, w'))"

definition get_peer_count :: "node \<Rightarrow> world \<Rightarrow> u64 option \<times> world" where
  "get_peer_count nd w = (case rpc_call nd ''cipherx_peerCount'' [] w of (r, w') \<Rightarrow> (get_chain_height r, w'))"

definition outputs_call :: "node \<Rightarrow> u64 \<Rightarrow> u64 \<Rightarrow> json_value option" where
  "outputs_call nd a b = nd ''cipherx_getOutputs'' [JUint a, JUint b]"

text \<open>The scan of new blocks that balance and history begin with, and the cached state after it.\<close>

definition refresh_cache ::
  "('p::ab_group_add, 's::field) crates \<Rightarrow> cli_crates \<Rightarrow> node \<Rightarrow> wallet_data \<Rightarrow> u64 \<Rightarrow> world \<Rightarrow> scan_state \<times> world" where
  "refresh_cache e cc nd d h w =
     (let st = load_scan_state cc w; from_block = last_scanned_block st + 1 in
      if from_block \<le> h then
        (let w1 = show_msg (ShowScanning from_block h) w;
             asked = hex32 e (wd_private_view d) \<noteq> None \<and> hex32 e (wd_public_spend d) \<noteq> None;
             w2 = (if asked then snd (rpc_call nd ''cipherx_getOutputs'' [JUint from_block, JUint h] w1) else w1);
             st' = refresh_scan e d (outputs_call nd) h st in
         (st', save_scan_state cc st' w2))
      else (st, w))"

text \<open>The bytes at the cuts start a character in every address that the wallet makes or parses: base 58 is ASCII.\<close>

definition short_addr :: "string \<Rightarrow> string" where
  "short_addr addr =
     (if length addr < 20 then addr else take 10 addr @ ''...'' @ drop (length addr - 8) addr)"

definition show_balance ::
  "('p::ab_group_add, 's::field) crates \<Rightarrow> cli_crates \<Rightarrow> node \<Rightarrow> wallet_data \<Rightarrow> world \<Rightarrow> world" where
  "show_balance e cc nd d w =
     (case ask_height nd (show_msg (ShowAddress (short_addr (wd_address d))) (show_msg (ShowHeader ''Solde'') w)) of
        (Some h, w1) \<Rightarrow>
          (case refresh_cache e cc nd d h (show_msg (ShowConnected h) w1) of
             (st, w2) \<Rightarrow>
               (let outs = detected_outputs st; w3 = show_msg (ShowTotal (wallet_total e d outs)) w2 in
                show_msg (if outs \<noteq> [] then ShowOutputs (length outs) (last_scanned_block st)
                          else ShowNoOutputs (last_scanned_block st)) w3))
      | (None, w1) \<Rightarrow>
          (let st = load_scan_state cc w1; w2 = show_msg ShowOffline w1 in
           if 0 < last_scanned_block st
           then show_msg (ShowCached (length (detected_outputs st)) (last_scanned_block st)) w2 else w2))"

definition cmd_balance ::
  "('p::ab_group_add, 's::field) crates \<Rightarrow> wallet_crates \<Rightarrow> cli_crates \<Rightarrow> node \<Rightarrow> string \<Rightarrow> world \<Rightarrow> world" where
  "cmd_balance e wc cc nd path = with_wallet e wc cc path (show_balance e cc nd)"

text \<open>
  The first 16 bytes of a text of the node: the program panics when the cut is inside a character.
\<close>

definition cut_text :: "nat \<Rightarrow> string \<Rightarrow> string option" where
  "cut_text n s = (if n < length s \<and> cont_byte (of_char (s ! n)) then None else Some (take n s))"

fun show_outputs :: "nat \<Rightarrow> detected_output list \<Rightarrow> u64 \<Rightarrow> world \<Rightarrow> world" where
  "show_outputs i [] last_block w = show_msg (ShowLastScan last_block) w"
| "show_outputs i (out # outs) last_block w =
     (let w1 = show_msg (ShowOutput i (do_block_height out)) w in
      case cut_text 16 (do_tx_id out) of
        None \<Rightarrow> exit_panic w1
      | Some tx \<Rightarrow>
          (let w2 = show_msg (ShowOutputTx tx) w1 in
           case cut_text 16 (do_one_time_pubkey out) of
             None \<Rightarrow> exit_panic w2
           | Some key \<Rightarrow>
               show_outputs (Suc i) outs last_block
                 (show_msg (ShowOutputIndex (do_output_index out)) (show_msg (ShowOutputKey key) w2))))"

definition show_history ::
  "('p::ab_group_add, 's::field) crates \<Rightarrow> cli_crates \<Rightarrow> node \<Rightarrow> nat \<Rightarrow> wallet_data \<Rightarrow> world \<Rightarrow> world" where
  "show_history e cc nd limit d w =
     (case ask_height nd (show_msg (ShowHeader (''Historique des outputs re'' @ [CHR 0xC3, CHR 0xA7] @ ''us'')) w) of
        (height, w1) \<Rightarrow>
          (case (case height of Some h \<Rightarrow> refresh_cache e cc nd d h w1 | None \<Rightarrow> (load_scan_state cc w1, w1)) of
             (st, w2) \<Rightarrow>
               (let outs = detected_outputs st in
                if outs = [] then
                  show_msg (if last_scanned_block st = 0 then ShowNeverScanned else ShowNoOutputs (last_scanned_block st)) w2
                else
                  show_outputs 1 (take limit (rev outs)) (last_scanned_block st)
                    (show_msg (ShowCount (length outs) limit) w2))))"

definition cmd_history ::
  "('p::ab_group_add, 's::field) crates \<Rightarrow> wallet_crates \<Rightarrow> cli_crates \<Rightarrow> node \<Rightarrow> string \<Rightarrow> nat \<Rightarrow> world \<Rightarrow> world" where
  "cmd_history e wc cc nd path limit = with_wallet e wc cc path (show_history e cc nd limit)"

text \<open>From the question on: the output is generated and the payload submitted when it is answered by yes.\<close>

definition confirm_send ::
  "('p::ab_group_add, 's::field) crates \<Rightarrow> wallet_crates \<Rightarrow> cli_crates \<Rightarrow> draws \<Rightarrow> node \<Rightarrow> string \<Rightarrow> u64 \<Rightarrow>
   world \<Rightarrow> world" where
  "confirm_send e wc cc dr nd to amount_ncip w =
     (case read_line w of
        (input, w1) \<Rightarrow>
          (if \<not> says_yes cc input then show_msg ShowCancelled w1
           else
             (case send_payload e wc (dr_output dr) to amount_ncip of
                None \<Rightarrow> show_msg ShowStealthError w1
              | Some hex_payload \<Rightarrow>
                  (case rpc_call nd ''cipherx_sendRawTransaction'' [JString hex_payload] w1 of
                     (Some result, w2) \<Rightarrow>
                       show_msg (ShowTxId (case as_str result of Some t \<Rightarrow> t | None \<Rightarrow> ''unknown'')) w2
                   | (None, w2) \<Rightarrow> show_msg ShowSendFailed w2))))"

definition cmd_send ::
  "('p::ab_group_add, 's::field) crates \<Rightarrow> wallet_crates \<Rightarrow> cli_crates \<Rightarrow> draws \<Rightarrow> node \<Rightarrow> string \<Rightarrow>
   string \<Rightarrow> f64 \<Rightarrow> string option \<Rightarrow> world \<Rightarrow> world" where
  "cmd_send e wc cc dr nd path to amount note w =
     (if take 3 to \<noteq> ''CX1'' \<or> length to < 50 then exit_failure (show_msg ShowInvalidAddress w)
      else if amount_rejected amount then exit_failure (show_msg ShowInvalidAmount w)
      else if parse_cx1_address e to = None then exit_failure (show_msg ShowUndecodable w)
      else
        with_wallet e wc cc path (\<lambda>d w1.
          let amount_ncip = amount_to_ncip amount; fee_ncip = 21000 * 1000 in
          confirm_send e wc cc dr nd to amount_ncip
            (show_msg (ShowPayment (short_addr (wd_address d)) (short_addr to) amount (format_cip fee_ncip)
               (format_cip (sat_add amount_ncip fee_ncip)) note) (show_msg (ShowHeader ''Envoyer des CIP'') w1))) w)"

text \<open>The transaction identifier that staking and unstaking show is drawn at random.\<close>

definition stake_rejected :: "f64 \<Rightarrow> bool" where
  "stake_rejected amount \<longleftrightarrow> \<not> (amount \<noteq> Inf \<and> (f64_less (Fin 31) amount \<or> amount = Fin 31))"

definition confirm_deposit :: "('p, 's) crates \<Rightarrow> cli_crates \<Rightarrow> draws \<Rightarrow> world \<Rightarrow> world" where
  "confirm_deposit e cc dr w =
     (case read_line w of
        (input, w1) \<Rightarrow>
          (if says_yes cc input then show_msg (ShowInitiated (hex_encode e (dr_hash dr))) w1
           else show_msg ShowCancelled w1))"

definition cmd_stake ::
  "('p, 's) crates \<Rightarrow> wallet_crates \<Rightarrow> cli_crates \<Rightarrow> draws \<Rightarrow> string \<Rightarrow> f64 \<Rightarrow> world \<Rightarrow> world" where
  "cmd_stake e wc cc dr path amount w =
     (if stake_rejected amount then exit_failure (show_msg ShowMinimum w)
      else
        with_wallet e wc cc path (\<lambda>d w1.
          confirm_deposit e cc dr (show_msg (ShowStaking amount) (show_msg (ShowHeader ''Staking'') w1))) w)"

definition unstake_rejected :: "f64 \<Rightarrow> bool" where
  "unstake_rejected amount \<longleftrightarrow> \<not> (amount \<noteq> Inf \<and> f64_less (Fin 0) amount)"

definition cmd_unstake ::
  "('p, 's) crates \<Rightarrow> wallet_crates \<Rightarrow> cli_crates \<Rightarrow> draws \<Rightarrow> string \<Rightarrow> f64 \<Rightarrow> world \<Rightarrow> world" where
  "cmd_unstake e wc cc dr path amount w =
     (if unstake_rejected amount then exit_failure (show_msg ShowInvalidAmount w)
      else
        with_wallet e wc cc path (\<lambda>d w1.
          confirm_deposit e cc dr (show_msg (ShowUnstaking amount) (show_msg (ShowHeader ''Retrait Staking'') w1))) w)"

definition cmd_node :: "node \<Rightarrow> world \<Rightarrow> world" where
  "cmd_node nd w =
     (case ask_height nd (show_msg (ShowHeader (''Statut du N'' @ [CHR 0xC5, CHR 0x93] @ ''ud'')) w) of
        (height, w1) \<Rightarrow>
     (case get_gas_price nd w1 of
        (gas, w2) \<Rightarrow>
     (case get_peer_count nd w2 of
        (peers, w3) \<Rightarrow>
          (case height of
             Some h \<Rightarrow>
               show_msg (ShowNode h (case peers of Some n \<Rightarrow> n | None \<Rightarrow> 0) (case gas of Some g \<Rightarrow> g | None \<Rightarrow> 1000)) w3
           | None \<Rightarrow> show_msg ShowOffline w3))))"

definition cmd_delete :: "string \<Rightarrow> world \<Rightarrow> world" where
  "cmd_delete path w =
     (case read_line (show_msg ShowDeleteWarning (show_msg (ShowHeader ''Supprimer le Wallet'') w)) of
        (input, w1) \<Rightarrow>
          (if trim_text input = ''SUPPRIMER'' then
             (case dk_remove (wo_disk w1) path of
                None \<Rightarrow> show_msg ShowDeleted (remove_file path w1)
              | Some err \<Rightarrow> show_msg (ShowDeleteFailed err) w1)
           else show_msg ShowCancelled w1))"

datatype commands =
    Generate
  | Import
  | Address
  | Balance
  | Send string f64 "string option"
  | Receive
  | History nat
  | Stake f64
  | Unstake f64
  | Node
  | Viewkey
  | Delete

text \<open>The program: the options \<open>--wallet\<close> and \<open>--rpc\<close> are \<open>custom\<close> and the choice of \<open>nd\<close>.\<close>

fun run_command ::
  "('p::ab_group_add, 's::field) crates \<Rightarrow> wallet_crates \<Rightarrow> cli_crates \<Rightarrow> draws \<Rightarrow> node \<Rightarrow> string \<Rightarrow> commands \<Rightarrow> world \<Rightarrow> world"
where
  "run_command e wc cc dr nd path Generate w = cmd_generate e wc cc dr path w"
| "run_command e wc cc dr nd path Import w = cmd_import e wc cc dr path w"
| "run_command e wc cc dr nd path Address w = cmd_address e wc cc path w"
| "run_command e wc cc dr nd path Balance w = cmd_balance e wc cc nd path w"
| "run_command e wc cc dr nd path Receive w = cmd_receive e wc cc path w"
| "run_command e wc cc dr nd path (Send to amount note) w = cmd_send e wc cc dr nd path to amount note w"
| "run_command e wc cc dr nd path (History limit) w = cmd_history e wc cc nd path limit w"
| "run_command e wc cc dr nd path (Stake amount) w = cmd_stake e wc cc dr path amount w"
| "run_command e wc cc dr nd path (Unstake amount) w = cmd_unstake e wc cc dr path amount w"
| "run_command e wc cc dr nd path Node w = cmd_node nd w"
| "run_command e wc cc dr nd path Viewkey w = cmd_viewkey e wc cc path w"
| "run_command e wc cc dr nd path Delete w = cmd_delete path w"

definition wallet_main ::
  "('p::ab_group_add, 's::field) crates \<Rightarrow> wallet_crates \<Rightarrow> cli_crates \<Rightarrow> draws \<Rightarrow> node \<Rightarrow> string option \<Rightarrow> commands \<Rightarrow>
   world \<Rightarrow> world" where
  "wallet_main e wc cc dr nd custom cmd w = run_command e wc cc dr nd (wallet_path custom w) cmd w"

end
