(* ===== verification/WalletCliProps.thy ===== *)
theory WalletCliProps
  imports WalletCli
begin

text \<open>
  What the wallet program does to its world: which files and which methods of the node each command
  touches, the recovery of a wallet from its words, and the two ways in which the commands fall
  short, a scan cache that all wallets of a user share and deposits that are never submitted.
\<close>

section \<open>Effects of a command\<close>

definition effects :: "string set \<Rightarrow> string set \<Rightarrow> world \<Rightarrow> world \<Rightarrow> bool" where
  "effects files methods w w' \<longleftrightarrow>
     wo_home w' = wo_home w \<and>
     (\<forall>p. p \<notin> files \<longrightarrow> dk_read (wo_disk w') p = dk_read (wo_disk w) p) \<and>
     (\<exists>cs. wo_calls w' = wo_calls w @ cs \<and> fst ` set cs \<subseteq> methods)"

named_theorems effect_intros \<open>effects of the operations of the wallet\<close>

lemma effects_refl [effect_intros]: "effects F M w w"
  by (auto simp: effects_def)

lemma effects_trans: "effects F M w w' \<Longrightarrow> effects F M w' w'' \<Longrightarrow> effects F M w w''"
proof -
  assume a: "effects F M w w'" "effects F M w' w''"
  obtain cs cs' where "wo_calls w' = wo_calls w @ cs" "wo_calls w'' = wo_calls w' @ cs'"
    "fst ` set cs \<subseteq> M" "fst ` set cs' \<subseteq> M"
    using a unfolding effects_def by blast
  then have "\<exists>cs. wo_calls w'' = wo_calls w @ cs \<and> fst ` set cs \<subseteq> M"
    by (intro exI [of _ "cs @ cs'"]) auto
  with a show ?thesis by (simp add: effects_def)
qed

lemma effects_show [effect_intros]: "effects F M w w' \<Longrightarrow> effects F M w (show_msg m w')"
  by (simp add: effects_def show_msg_def)

lemma effects_exit [effect_intros]: "effects F M w w' \<Longrightarrow> effects F M w (exit_failure w')"
  by (simp add: effects_def exit_failure_def)

lemma effects_panic [effect_intros]: "effects F M w w' \<Longrightarrow> effects F M w (exit_panic w')"
  by (simp add: effects_def exit_panic_def)

lemma effects_show_all [effect_intros]: "effects F M w w' \<Longrightarrow> effects F M w (fold show_msg ms w')"
  by (induction ms arbitrary: w') (auto intro: effect_intros)

lemma effects_read_line: "read_line w' = (l, w'') \<Longrightarrow> effects F M w w' \<Longrightarrow> effects F M w w''"
  by (auto simp: effects_def read_line_def split: list.splits)

lemma effects_prompt: "prompt_password w' = (l, w'') \<Longrightarrow> effects F M w w' \<Longrightarrow> effects F M w w''"
  by (auto simp: effects_def prompt_password_def split: list.splits)

lemma effects_call: "rpc_call nd m ps w' = (r, w'') \<Longrightarrow> m \<in> M \<Longrightarrow> effects F M w w' \<Longrightarrow> effects F M w w''"
proof -
  assume a: "rpc_call nd m ps w' = (r, w'')" "m \<in> M" "effects F M w w'"
  then have "effects F M w' w''" by (auto simp: effects_def rpc_call_def)
  with a(3) show ?thesis by (rule effects_trans)
qed

lemma effects_write [effect_intros]: "p \<in> F \<Longrightarrow> effects F M w w' \<Longrightarrow> effects F M w (write_file p bs w')"
  by (auto simp: effects_def write_file_def)

lemma effects_remove [effect_intros]: "p \<in> F \<Longrightarrow> effects F M w w' \<Longrightarrow> effects F M w (remove_file p w')"
  by (auto simp: effects_def remove_file_def)

lemma effects_save_wallet:
  "save_wallet cc path enc w' = (r, w'') \<Longrightarrow> path \<in> F \<Longrightarrow> effects F M w w' \<Longrightarrow> effects F M w w''"
  by (auto simp: save_wallet_def Let_def intro: effect_intros split: option.splits sum.splits)

lemma effects_ask_password: "ask_password c w' = (r, w'') \<Longrightarrow> effects F M w w' \<Longrightarrow> effects F M w w''"
  by (auto simp: ask_password_def intro: effect_intros dest!: effects_prompt [of _ _ _ F M w]
      split: prod.splits if_splits)

lemma effects_encrypt_and_save [effect_intros]:
  "path \<in> F \<Longrightarrow> effects F M w w' \<Longrightarrow> effects F M w (encrypt_and_save e wc cc dr path d saved pwd w')"
  by (auto simp: encrypt_and_save_def intro: effect_intros effects_save_wallet split: sum.split prod.split)

lemma effects_ask_and_save [effect_intros]:
  assumes "path \<in> F" "effects F M w w'"
  shows "effects F M w (ask_and_save e wc cc dr path d saved w')"
proof -
  obtain r w1 where a: "ask_password True w' = (r, w1)" by fastforce
  then have "effects F M w w1" using assms(2) by (rule effects_ask_password)
  with a assms(1) show ?thesis by (cases r) (auto simp: ask_and_save_def intro: effects_encrypt_and_save)
qed

lemma effects_load: "load_and_decrypt e wc cc path w' = (r, w'') \<Longrightarrow> effects F M w w' \<Longrightarrow> effects F M w w''"
  by (auto simp: load_and_decrypt_def dest: effects_prompt [of _ _ _ F M w] split: sum.splits prod.splits)

lemma effects_with_wallet:
  assumes "\<And>d w'. effects F M w w' \<Longrightarrow> effects F M w (f d w')"
  shows "effects F M w (with_wallet e wc cc path f w)"
proof -
  obtain r w' where l: "load_and_decrypt e wc cc path w = (r, w')" by fastforce
  then have "effects F M w w'" by (rule effects_load [OF _ effects_refl])
  with l assms show ?thesis by (cases r) (auto simp: with_wallet_def intro: effect_intros)
qed

lemma effects_save_scan_state [effect_intros]:
  "scan_state_path w' \<in> F \<Longrightarrow> effects F M w w' \<Longrightarrow> effects F M w (save_scan_state cc st w')"
  by (auto simp: save_scan_state_def intro: effect_intros split: option.split)

lemma scan_path_effects: "effects F M w w' \<Longrightarrow> scan_state_path w' = scan_state_path w"
  by (simp add: effects_def scan_state_path_def)

lemma effects_ask_height:
  "ask_height nd w' = (r, w'') \<Longrightarrow> ''cipherx_blockNumber'' \<in> M \<Longrightarrow> effects F M w w' \<Longrightarrow> effects F M w w''"
  by (auto simp: ask_height_def intro: effects_call split: prod.splits)

lemma effects_refresh_cache:
  assumes "refresh_cache e cc nd d h w' = (st, w'')" "''cipherx_getOutputs'' \<in> M" "scan_state_path w \<in> F"
    and "effects F M w w'"
  shows "effects F M w w''"
proof -
  let ?w1 = "show_msg (ShowScanning (last_scanned_block (load_scan_state cc w') + 1) h) w'"
  have one: "effects F M w ?w1" using assms(4) by (intro effect_intros)
  have two: "effects F M w (snd (rpc_call nd ''cipherx_getOutputs'' ps ?w1))" for ps
    using effects_call [OF prod.collapse [symmetric] assms(2) one] .
  have three: "effects F M w (save_scan_state cc st' w2)" if "effects F M w w2" for st' w2
    using that assms(3) scan_path_effects [OF that] by (intro effect_intros) simp_all
  show ?thesis
    using assms(1,4) three [OF one] three [OF two] by (auto simp: refresh_cache_def Let_def split: if_splits)
qed

text \<open>The files and the methods of the node that a command may touch.\<close>

fun files_of :: "commands \<Rightarrow> string \<Rightarrow> world \<Rightarrow> string set" where
  "files_of Generate path w = {path}"
| "files_of Import path w = {path}"
| "files_of Delete path w = {path}"
| "files_of Balance path w = {scan_state_path w}"
| "files_of (History n) path w = {scan_state_path w}"
| "files_of _ path w = {}"

fun methods_of :: "commands \<Rightarrow> string set" where
  "methods_of Balance = {''cipherx_blockNumber'', ''cipherx_getOutputs''}"
| "methods_of (History n) = {''cipherx_blockNumber'', ''cipherx_getOutputs''}"
| "methods_of (Send to amount memo) = {''cipherx_sendRawTransaction''}"
| "methods_of Node = {''cipherx_blockNumber'', ''cipherx_gasPrice'', ''cipherx_peerCount''}"
| "methods_of _ = {}"

lemma effects_confirm_send:
  assumes "effects F {''cipherx_sendRawTransaction''} w w1"
  shows "effects F {''cipherx_sendRawTransaction''} w (confirm_send e wc cc dr nd to a w1)"
proof -
  let ?M = "{''cipherx_sendRawTransaction''}"
  obtain input w3 where l: "read_line w1 = (input, w3)" by fastforce
  have three: "effects F ?M w w3" using effects_read_line [OF l assms] .
  have four: "effects F ?M w w4" if "rpc_call nd ''cipherx_sendRawTransaction'' ps w3 = (r, w4)" for ps r w4
    using effects_call [OF that _ three] by simp
  show ?thesis
    using l three by (auto simp: confirm_send_def intro: effect_intros dest: four split: option.split prod.split)
qed

lemma effects_confirm_deposit:
  "effects F M w w1 \<Longrightarrow> effects F M w (confirm_deposit e cc dr w1)"
  by (auto simp: confirm_deposit_def intro: effect_intros dest: effects_read_line [of _ _ _ F M w] split: prod.split)

lemma effects_show_balance:
  assumes "effects F M w w'" "scan_state_path w \<in> F" "{''cipherx_blockNumber'', ''cipherx_getOutputs''} \<subseteq> M"
  shows "effects F M w (show_balance e cc nd d w')"
proof -
  let ?w = "show_msg (ShowAddress (short_addr (wd_address d))) (show_msg (ShowHeader ''Solde'') w')"
  obtain h w1 where a: "ask_height nd ?w = (h, w1)" by fastforce
  have start: "effects F M w ?w" using assms(1) by (intro effect_intros)
  have w1: "effects F M w w1" using effects_ask_height [OF a _ start] assms(3) by simp
  have refreshed: "effects F M w w2"
    if "refresh_cache e cc nd d k (show_msg (ShowConnected k) w1) = (st, w2)" for k st w2
    using w1 assms(2,3) by (intro effects_refresh_cache [OF that] effect_intros) auto
  show ?thesis
    using a w1 by (cases h) (auto simp: show_balance_def Let_def intro!: effects_show intro: refreshed split: prod.split)
qed

lemma effects_show_outputs: "effects F M w w' \<Longrightarrow> effects F M w (show_outputs i outs b w')"
proof (induction outs arbitrary: i w')
  case (Cons out outs)
  then show ?case by (auto simp: Let_def intro!: effects_show effects_panic Cons.IH split: option.split)
qed (simp add: effects_show)

lemma effects_show_history:
  assumes "effects F M w w'" "scan_state_path w \<in> F" "{''cipherx_blockNumber'', ''cipherx_getOutputs''} \<subseteq> M"
  shows "effects F M w (show_history e cc nd limit d w')"
proof -
  let ?w = "show_msg (ShowHeader (''Historique des outputs re'' @ [CHR 0xC3, CHR 0xA7] @ ''us'')) w'"
  obtain height w1 where a: "ask_height nd ?w = (height, w1)" by fastforce
  have start: "effects F M w ?w" using assms(1) by (intro effect_intros)
  have w1: "effects F M w w1" using effects_ask_height [OF a _ start] assms(3) by simp
  let ?r = "case height of Some h \<Rightarrow> refresh_cache e cc nd d h w1 | None \<Rightarrow> (load_scan_state cc w1, w1)"
  obtain st w2 where r: "?r = (st, w2)" by fastforce
  have "effects F M w w2"
    using r w1 effects_refresh_cache [of e cc nd d _ w1 st w2 M w F] assms(2,3) by (auto split: option.splits)
  then show ?thesis
    using a r by (auto simp: show_history_def Let_def intro!: effects_show effects_show_outputs)
qed

text \<open>
  C21. What a command can do to the world: whatever is typed and whatever the node and the disk answer,
  a command writes or removes no file but those of the table, and calls no method of the node but
  those of the table. Only a new wallet, an import and a removal touch the wallet file, only balance
  and history touch the cached scan, and only a payment submits anything: neither staking nor
  unstaking makes a call.
\<close>

theorem command_effects:
  "effects (files_of cmd path w) (methods_of cmd) w (run_command e wc cc dr nd path cmd w)"
proof (cases cmd)
  case Generate
  have new: "effects {path} {} w (new_wallet e wc cc dr path w')" if "effects {path} {} w w'" for w'
    using that by (auto simp: new_wallet_def Let_def intro!: effects_ask_and_save effects_show)
  have line: "effects {path} {} w w1" if "read_line (show_msg m (show_msg m' w)) = (l, w1)" for m m' l w1
    using that by (rule effects_read_line) (intro effects_show effects_refl)
  show ?thesis
    using Generate
    by (auto simp: cmd_generate_def Let_def intro!: effects_show effects_refl new intro: line split: prod.split)
next
  case Import
  have line: "effects {path} {} w w1" if "read_line (show_msg m w) = (l, w1)" for m l w1
    using that by (rule effects_read_line) (intro effects_show effects_refl)
  show ?thesis
    using Import
    by (auto simp: cmd_import_def Let_def intro!: effects_show effects_exit effects_ask_and_save intro: line split: prod.split)
next
  case Balance
  then show ?thesis by (auto simp: cmd_balance_def intro!: effects_with_wallet effects_show_balance)
next
  case (History limit)
  then show ?thesis by (auto simp: cmd_history_def intro!: effects_with_wallet effects_show_history)
next
  case (Send to amount memo)
  then show ?thesis
    by (auto simp: cmd_send_def Let_def intro!: effects_with_wallet effects_confirm_send effects_show effects_exit effects_refl)
next
  case (Stake amount)
  then show ?thesis
    by (auto simp: cmd_stake_def intro!: effects_with_wallet effects_confirm_deposit effects_show effects_exit effects_refl)
next
  case (Unstake amount)
  then show ?thesis
    by (auto simp: cmd_unstake_def intro!: effects_with_wallet effects_confirm_deposit effects_show effects_exit effects_refl)
next
  case Node
  let ?M = "{''cipherx_blockNumber'', ''cipherx_gasPrice'', ''cipherx_peerCount''}"
  obtain h w1 g w2 p w3 where r: "ask_height nd (show_msg (ShowHeader (''Statut du N'' @ [CHR 0xC5, CHR 0x93] @ ''ud'')) w) = (h, w1)"
    "get_gas_price nd w1 = (g, w2)" "get_peer_count nd w2 = (p, w3)" by (meson prod.exhaust)
  have "effects {} ?M w w1" using effects_ask_height [OF r(1)] by (intro effects_ask_height [OF r(1)] effect_intros) simp
  then have "effects {} ?M w w2" using r(2) by (auto simp: get_gas_price_def intro: effects_call split: prod.splits)
  then have "effects {} ?M w w3" using r(3) by (auto simp: get_peer_count_def intro: effects_call split: prod.splits)
  then show ?thesis using Node r by (auto simp: cmd_node_def intro: effect_intros split: option.split)
next
  case Delete
  have "effects {path} {} w w1" if "read_line (show_msg m (show_msg m' w)) = (l, w1)" for m m' l w1
    using that by (rule effects_read_line) (intro effects_show effects_refl)
  then show ?thesis
    using Delete by (auto simp: cmd_delete_def intro!: effects_show effects_remove split: prod.split option.split)
qed (auto simp: cmd_address_def cmd_receive_def cmd_viewkey_def intro!: effects_with_wallet effects_show)

section \<open>Recovery from the words\<close>

text \<open>The wallet file at \<open>path\<close> opens with the password.\<close>

definition holds_wallet ::
  "('p, 's) crates \<Rightarrow> wallet_crates \<Rightarrow> cli_crates \<Rightarrow> string \<Rightarrow> string \<Rightarrow> wallet_data \<Rightarrow> world \<Rightarrow> bool" where
  "holds_wallet e wc cc path pw d w \<longleftrightarrow>
     (\<exists>enc. load_wallet cc path w = Inr enc \<and> decrypt_wallet e wc enc pw = Inr d)"

lemma with_held_wallet:
  "holds_wallet e wc cc path pw d w \<Longrightarrow> wo_passwords w = pw # pws \<Longrightarrow>
   with_wallet e wc cc path f w = f d (w\<lparr>wo_passwords := pws\<rparr>)"
  by (auto simp: holds_wallet_def with_wallet_def load_and_decrypt_def prompt_password_def)

text \<open>
  What is relied on of \<open>serde_json\<close> and of \<open>to_lowercase\<close>: what is written is read back, and text in
  ASCII has only its capitals changed.
\<close>

definition cli_laws :: "cli_crates \<Rightarrow> bool" where
  "cli_laws cc \<longleftrightarrow>
     (\<forall>enc json. cc_wallet_text cc enc = Inr json \<longrightarrow> utf8_valid json \<and> cc_wallet_read cc json = Some enc) \<and>
     (\<forall>st json. cc_scan_text cc st = Some json \<longrightarrow> utf8_valid json \<and> cc_scan_read cc json = Some st) \<and>
     (\<forall>s. ascii (str_bytes s) \<longrightarrow> cc_lower cc s = bytes_str (map ascii_lower (str_bytes s)))"

text \<open>The wallet can be encrypted under the password and written to the path.\<close>

definition can_save ::
  "('p, 's) crates \<Rightarrow> wallet_crates \<Rightarrow> cli_crates \<Rightarrow> draws \<Rightarrow> string \<Rightarrow> string \<Rightarrow> wallet_data \<Rightarrow> disk \<Rightarrow> bool" where
  "can_save e wc cc dr path pw d disk \<longleftrightarrow>
     dk_create_dir disk path = None \<and> dk_write disk path = None \<and> dk_chmod disk path = None \<and>
     length (dr_nonce dr) = 12 \<and>
     (\<exists>enc json. encrypt_wallet e wc (dr_salt dr) (dr_nonce dr) d pw = Inr enc \<and> cc_wallet_text cc enc = Inr json)"

lemma decrypt_encrypted:
  "hex_laws e \<Longrightarrow> wallet_laws wc \<Longrightarrow> length nonce = 12 \<Longrightarrow> encrypt_wallet e wc salt nonce d pw = Inr enc \<Longrightarrow>
   decrypt_wallet e wc enc pw = Inr d"
  by (auto simp: encrypt_wallet_def decrypt_wallet_def hex_laws_def wallet_laws_def split: sum.splits)

lemma fold_show_msg: "fold show_msg ms w = w\<lparr>wo_shown := wo_shown w @ ms\<rparr>"
  by (induction ms arbitrary: w) (simp_all add: show_msg_def)

lemma ask_and_save_holds:
  fixes saved :: "shown list"
  assumes "hex_laws e" "wallet_laws wc" "cli_laws cc" "can_save e wc cc dr path pw d (wo_disk w)"
    and "wo_passwords w = pw # pw # pws"
  defines "w' \<equiv> ask_and_save e wc cc dr path d saved w"
  shows "holds_wallet e wc cc path pw d w'" "wo_shown w' = wo_shown w @ saved" "wo_passwords w' = pws"
proof -
  obtain enc json where s: "encrypt_wallet e wc (dr_salt dr) (dr_nonce dr) d pw = Inr enc" "cc_wallet_text cc enc = Inr json"
    "dk_create_dir (wo_disk w) path = None" "dk_write (wo_disk w) path = None" "dk_chmod (wo_disk w) path = None"
    "length (dr_nonce dr) = 12"
    using assms(4) by (auto simp: can_save_def)
  have w': "w' = fold show_msg saved (write_file path json (w\<lparr>wo_passwords := pws\<rparr>))"
    using s assms(5)
    by (simp add: w'_def ask_and_save_def ask_password_def prompt_password_def encrypt_and_save_def save_wallet_def Let_def)
  show "holds_wallet e wc cc path pw d w'"
    using assms(3) s(2) decrypt_encrypted [OF assms(1,2) s(6,1)]
    by (simp add: holds_wallet_def load_wallet_def w' fold_show_msg write_file_def cli_laws_def)
  show "wo_shown w' = wo_shown w @ saved" "wo_passwords w' = pws"
    by (simp_all add: w' fold_show_msg write_file_def)
qed

lemma ws_end_ascii:
  assumes "ascii s" "s \<noteq> []" "33 \<le> unat (last s)"
  shows "ws_end s = 0"
proof -
  have one: "ws_len xs \<le> 1" if "xs \<noteq> []" "hd xs < 0x80" for xs
    using that by (cases xs) (auto simp: ws_len_def)
  have "ws_len (map unat (drop (length s - n) s)) \<noteq> n" if "0 < n" "n \<le> length s" for n
  proof
    let ?x = "drop (length s - n) s"
    assume n: "ws_len (map unat ?x) = n"
    have x: "?x \<noteq> []" "set ?x \<subseteq> set s" using that by (auto dest: in_set_dropD)
    then have "hd ?x \<in> set s" using hd_in_set by blast
    then have "unat (hd ?x) < 0x80" using assms(1) by (auto simp: ascii_def word_le_nat_alt)
    then have "n = 1" using one [of "map unat ?x"] x(1) n that by (simp add: hd_map)
    then have "?x = [last s]" using assms(2) by (metis Suc_diff_le append_butlast_last_id append_eq_conv_conj
      diff_Suc_1 length_append_singleton One_nat_def)
    with n \<open>n = 1\<close> assms(3) show False by (auto simp: ws_len_def split: if_splits)
  qed
  then show ?thesis by (auto simp: ws_end_def)
qed

lemma trim_line:
  assumes "ascii s" "s \<noteq> []" "33 \<le> unat (hd s)" "33 \<le> unat (last s)"
  shows "trim (s @ [10]) = s"
proof -
  have "hd s \<in> set s" using assms(2) by simp
  then have "unat (hd s) < 0x80" using assms(1) by (auto simp: ascii_def word_le_nat_alt)
  then have "ws_len (map unat (s @ [10])) = 0" using assms(2,3) by (intro ws_len_none) (auto simp: hd_append hd_map)
  then have start: "trim_start (s @ [10]) = s @ [10]" by (subst trim_start.simps) simp
  have "ws_end (s @ [10]) = 1" by (simp add: ws_end_def ws_len_def)
  then have "trim_end (s @ [10]) = trim_end s" by (subst trim_end.simps) simp
  also have "\<dots> = s" using ws_end_ascii [OF assms(1,2,4)] by (subst trim_end.simps) simp
  finally show ?thesis by (simp add: trim_def start)
qed

lemma join_space_ends:
  "list_all plain_word ws \<Longrightarrow> ws \<noteq> [] \<Longrightarrow>
   join_space ws \<noteq> [] \<and> word_char (hd (join_space ws)) \<and> word_char (last (join_space ws)) \<and>
   (\<forall>c\<in>set (join_space ws). word_char c \<or> c = CHR '' '')"
proof (induction ws rule: join_space.induct)
  case (2 w)
  then show ?case by (auto simp: plain_word_def list_all_iff)
next
  case (3 w v vs)
  then have w: "w \<noteq> []" "\<forall>c\<in>set w. word_char c" by (auto simp: plain_word_def list_all_iff)
  moreover have "join_space (v # vs) \<noteq> [] \<and> word_char (last (join_space (v # vs))) \<and>
      (\<forall>c\<in>set (join_space (v # vs)). word_char c \<or> c = CHR '' '')"
    using 3 by simp
  ultimately show ?case by (auto simp: hd_append)
qed simp

lemma unat_of_char: "unat (of_char c :: u8) = (of_char c :: nat)"
proof -
  have "unat (of_nat (of_char c) :: u8) = of_char c" by (rule unat_of_nat_exact) simp
  then show ?thesis by (simp only: of_nat_of_char)
qed

text \<open>A phrase typed on a line is read as it is.\<close>

lemma phrase_read:
  assumes "cli_laws cc" "list_all plain_word ws" "ws \<noteq> []"
  shows "cc_lower cc (trim_text (join_space ws @ [CHR 0x0A])) = join_space ws"
proof -
  let ?m = "join_space ws"
  note m = join_space_ends [OF assms(2,3)]
  have b: "unat (of_char c :: u8) < 0x80 \<and> ascii_lower (of_char c) = of_char c"
    if "word_char c \<or> c = CHR '' ''" for c
    using that unat_of_char [of c] by (auto simp: word_char_def ascii_lower_def word_le_nat_alt)
  have ends: "33 \<le> unat (hd (str_bytes ?m))" "33 \<le> unat (last (str_bytes ?m))"
    using m unat_of_char [of "hd ?m"] unat_of_char [of "last ?m"]
    by (simp_all add: str_bytes_def hd_map last_map word_char_def)
  have asc: "ascii (str_bytes ?m)" using m b by (fastforce simp: ascii_def str_bytes_def word_le_nat_alt)
  have low: "map ascii_lower (str_bytes ?m) = str_bytes ?m" using m b by (auto simp: str_bytes_def)
  have "str_bytes (?m @ [CHR 0x0A]) = str_bytes ?m @ [10]" by (simp add: str_bytes_def)
  moreover have "str_bytes ?m \<noteq> []" using m by (simp add: str_bytes_def)
  ultimately have "trim_text (?m @ [CHR 0x0A]) = ?m" using trim_line [OF asc _ ends] by (simp add: trim_text_def)
  then show ?thesis using assms(1) asc low by (simp add: cli_laws_def)
qed

lemma generated_words:
  "length entropy = 32 \<Longrightarrow> \<exists>ws. generate_mnemonic entropy = join_space ws \<and> list_all plain_word ws \<and> ws \<noteq> [] \<and>
     (\<exists>is. validate_mnemonic (join_space ws) = Some is)"
proof -
  assume len: "length entropy = 32"
  let ?is = "map unat (take 24 entropy)" and ?ws = "map ((!) WORDS) (map unat (take 24 entropy))"
  have "\<forall>i\<in>set ?is. i < 256"
  proof
    fix i
    assume "i \<in> set ?is"
    then obtain b :: u8 where "i = unat b" by auto
    then show "i < 256" using unsigned_less [of b, where ?'a = nat] by simp
  qed
  then have "list_all plain_word ?ws" "validate_mnemonic (join_space ?ws) = Some ?is"
    using WORDS_plain len validate_words [of ?is] by (auto simp: list_all_iff length_WORDS)
  with len show ?thesis by (intro exI [of _ ?ws]) (auto simp: generate_indices)
qed

text \<open>
  C20. The words restore the wallet: creating a wallet shows its address and words and leaves a file
  that opens with the password chosen; typing these words on any machine, under any other password
  and with other random bytes, shows the same address and leaves a file that opens with that
  password to the same wallet, with the same keys.
\<close>

theorem words_restore_wallet:
  assumes "hex_laws e" "wallet_laws wc" "cli_laws cc" "length (dr_entropy dr) = 32"
    and "dk_read (wo_disk w) path = None" "wo_passwords w = pw # pw # pws"
    and "can_save e wc cc dr path pw (derive_keys e (generate_mnemonic (dr_entropy dr))) (wo_disk w)"
  shows "let d = derive_keys e (generate_mnemonic (dr_entropy dr)); g = run_command e wc cc dr nd path Generate w in
    \<exists>words. wo_shown g = wo_shown w @ [ShowHeader ''Nouveau Wallet'', ShowAddress (wd_address d), ShowWords words, ShowSaved path,
        ShowAddress (wd_address d)] \<and>
      holds_wallet e wc cc path pw d g \<and>
      (\<forall>w2 ls path2 pw2 pws2 dr2 nd2.
         wo_lines w2 = (join_space words @ [CHR 0x0A]) # ls \<and> wo_passwords w2 = pw2 # pw2 # pws2 \<and>
         can_save e wc cc dr2 path2 pw2 d (wo_disk w2) \<longrightarrow>
         (let i = run_command e wc cc dr2 nd2 path2 Import w2 in
          wo_shown i = wo_shown w2 @ [ShowHeader ''Importer un Wallet'', ShowAddress (wd_address d), ShowSaved path2] \<and>
          holds_wallet e wc cc path2 pw2 d i))"
proof -
  obtain ws "is" where ws: "generate_mnemonic (dr_entropy dr) = join_space ws" "list_all plain_word ws" "ws \<noteq> []"
    "validate_mnemonic (join_space ws) = Some is"
    using generated_words [OF assms(4)] by blast
  let ?d = "derive_keys e (join_space ws)"
  let ?w1 = "show_msg (ShowWords ws) (show_msg (ShowAddress (wd_address ?d)) (show_msg (ShowHeader ''Nouveau Wallet'') w))"
  let ?saved = "[ShowSaved path, ShowAddress (wd_address ?d)]"
  have g: "run_command e wc cc dr nd path Generate w = ask_and_save e wc cc dr path ?d ?saved ?w1"
    using assms(5) by (simp add: cmd_generate_def new_wallet_def Let_def ws(1) split_join [OF ws(2)])
  have "can_save e wc cc dr path pw ?d (wo_disk ?w1)" "wo_passwords ?w1 = pw # pw # pws"
    using assms(6,7) ws(1) by (simp_all add: show_msg_def)
  note made = ask_and_save_holds [OF assms(1-3) this, of ?saved]
  have imported: "wo_shown i = wo_shown w2 @ [ShowHeader ''Importer un Wallet'', ShowAddress (wd_address ?d), ShowSaved path2] \<and>
      holds_wallet e wc cc path2 pw2 ?d i"
    if w2: "wo_lines w2 = (join_space ws @ [CHR 0x0A]) # ls" "wo_passwords w2 = pw2 # pw2 # pws2"
      "can_save e wc cc dr2 path2 pw2 ?d (wo_disk w2)"
      and i: "i = run_command e wc cc dr2 nd2 path2 Import w2" for w2 ls path2 pw2 pws2 dr2 nd2 i
  proof -
    let ?v = "show_msg (ShowAddress (wd_address ?d)) ((show_msg (ShowHeader ''Importer un Wallet'') w2)\<lparr>wo_lines := ls\<rparr>)"
    have "i = ask_and_save e wc cc dr2 path2 ?d [ShowSaved path2] ?v"
      using w2(1) ws(4) phrase_read [OF assms(3) ws(2,3)]
      by (simp add: i cmd_import_def read_line_def show_msg_def Let_def)
    moreover have "can_save e wc cc dr2 path2 pw2 ?d (wo_disk ?v)" "wo_passwords ?v = pw2 # pw2 # pws2"
      using w2(2,3) by (simp_all add: show_msg_def)
    ultimately show ?thesis
      using ask_and_save_holds [OF assms(1-3), of dr2 path2 pw2 ?d ?v pws2 "[ShowSaved path2]"] by (simp add: show_msg_def)
  qed
  show ?thesis
    unfolding Let_def g ws(1)
  proof (intro exI [of _ ws] conjI allI impI)
    show "wo_shown (ask_and_save e wc cc dr path ?d ?saved ?w1) =
        wo_shown w @ [ShowHeader ''Nouveau Wallet'', ShowAddress (wd_address ?d), ShowWords ws, ShowSaved path,
          ShowAddress (wd_address ?d)]"
      using made(2) by (simp add: show_msg_def)
    show "holds_wallet e wc cc path pw ?d (ask_and_save e wc cc dr path ?d ?saved ?w1)" by (rule made(1))
  qed (use imported in blast)+
qed

text \<open>
  Crates for the demonstration: a wallet is stored as its words, the encrypted file as the
  ciphertext and the cached scan, without outputs, as its height.
\<close>

definition demo_words_crates :: wallet_crates where
  "demo_words_crates = (demo_wallet_crates (derive_keys demo []))\<lparr>
     wc_wallet_json := (\<lambda>d. if d = derive_keys demo (wd_mnemonic d) then Inr (str_bytes (wd_mnemonic d)) else Inl []),
     wc_wallet_parse := (\<lambda>bs. Inr (derive_keys demo (bytes_str bs))) \<rparr>"

definition demo_encrypted :: "string \<Rightarrow> encrypted_wallet" where
  "demo_encrypted c = \<lparr> ew_nonce = hex_text (zeros 12), ew_salt = hex_text [1, 2], ew_ciphertext = c,
     ew_kdf = ''argon2id-v1'', ew_version = 2 \<rparr>"

definition demo_cli :: cli_crates where
  "demo_cli = \<lparr>
     cc_wallet_text = (\<lambda>enc. if enc = demo_encrypted (ew_ciphertext enc) \<and> utf8_valid (str_bytes (ew_ciphertext enc)) then Inr (str_bytes (ew_ciphertext enc)) else Inl []),
     cc_wallet_read = (\<lambda>bs. Some (demo_encrypted (bytes_str bs))),
     cc_scan_text = (\<lambda>st. if detected_outputs st = [] then Some (str_bytes (hex_text (u64_to_le (last_scanned_block st)))) else None),
     cc_scan_read = (\<lambda>bs. Some \<lparr> last_scanned_block = u64_from_le (the (hex_bytes (bytes_str bs))), detected_outputs = [] \<rparr>),
     cc_lower = (\<lambda>s. bytes_str (map ascii_lower (str_bytes s))) \<rparr>"

definition demo_disk :: "(string \<Rightarrow> bytes option) \<Rightarrow> disk" where
  "demo_disk read = \<lparr> dk_read = read, dk_create_dir = Map.empty, dk_write = Map.empty, dk_chmod = Map.empty,
     dk_remove = Map.empty \<rparr>"

definition demo_world :: "(string \<Rightarrow> bytes option) \<Rightarrow> string list \<Rightarrow> string list \<Rightarrow> world" where
  "demo_world read lines passwords = \<lparr> wo_home = ''/home/me'', wo_disk = demo_disk read, wo_lines = lines,
     wo_passwords = passwords, wo_shown = [], wo_calls = [], wo_status = 0 \<rparr>"

definition demo_draws :: draws where
  "demo_draws = \<lparr> dr_entropy = zeros 32, dr_salt = [1, 2], dr_nonce = zeros 12, dr_output = [], dr_hash = [] \<rparr>"

lemma wd_mnemonic_derive [simp]: "wd_mnemonic (derive_keys e m) = m"
  by (simp add: derive_keys_def Let_def)

lemma hex_text_valid: "utf8_valid (str_bytes (hex_text b))"
  using set_hex_text by (intro hex_text_utf8) blast

lemma demo_words_laws: "wallet_laws demo_words_crates"
  by (auto simp: wallet_laws_def demo_words_crates_def demo_wallet_crates_def split: if_splits)

lemma demo_cli_laws: "cli_laws demo_cli"
proof -
  have "utf8_valid json \<and> cc_wallet_read demo_cli json = Some enc" if "cc_wallet_text demo_cli enc = Inr json" for enc json
  proof -
    have "enc = demo_encrypted (ew_ciphertext enc)" "json = str_bytes (ew_ciphertext enc)" "utf8_valid (str_bytes (ew_ciphertext enc))"
      using that by (simp_all add: demo_cli_def split: if_splits)
    then show ?thesis by (simp add: demo_cli_def)
  qed
  moreover have "utf8_valid json \<and> cc_scan_read demo_cli json = Some st" if "cc_scan_text demo_cli st = Some json" for st json
  proof -
    have "detected_outputs st = []" "json = str_bytes (hex_text (u64_to_le (last_scanned_block st)))"
      using that by (simp_all add: demo_cli_def split: if_splits)
    then show ?thesis by (simp add: demo_cli_def hex_bytes_text u64_le.dec_enc hex_text_valid)
  qed
  moreover have "cc_lower demo_cli s = bytes_str (map ascii_lower (str_bytes s))" for s
    by (simp add: demo_cli_def)
  ultimately show ?thesis unfolding cli_laws_def by blast
qed

lemma demo_encrypts:
  "encrypt_wallet demo demo_words_crates [1, 2] (zeros 12) (derive_keys demo m) pw =
     Inr (demo_encrypted (hex_text (pad_to 32 (str_bytes pw @ [1, 2]) @ str_bytes m)))"
  by (simp add: encrypt_wallet_def derive_encryption_key_def demo_words_crates_def demo_wallet_crates_def
      demo_encrypted_def demo_def)

lemma demo_can_save: "can_save demo demo_words_crates demo_cli demo_draws path pw (derive_keys demo m) (demo_disk read)"
  by (simp add: can_save_def demo_disk_def demo_draws_def demo_encrypts)
    (simp add: demo_cli_def demo_encrypted_def hex_text_valid)

theorem words_restore_wallet_witness:
  "let d = derive_keys demo (generate_mnemonic (zeros 32));
      g = run_command demo demo_words_crates demo_cli demo_draws (\<lambda>_ _. None) ''w'' Generate
        (demo_world Map.empty [] [''pw'', ''pw'']) in
    \<exists>words. wo_shown g = [ShowHeader ''Nouveau Wallet'', ShowAddress (wd_address d), ShowWords words, ShowSaved ''w'',
        ShowAddress (wd_address d)] \<and>
      holds_wallet demo demo_words_crates demo_cli ''w'' ''pw'' d g \<and>
      (let i = run_command demo demo_words_crates demo_cli demo_draws (\<lambda>_ _. None) ''v'' Import
        (demo_world Map.empty [join_space words @ [CHR 0x0A]] [''other'', ''other'']) in
       wo_shown i = [ShowHeader ''Importer un Wallet'', ShowAddress (wd_address d), ShowSaved ''v''] \<and>
       holds_wallet demo demo_words_crates demo_cli ''v'' ''other'' d i)"
proof -
  let ?run = "\<lambda>path cmd w. run_command demo demo_words_crates demo_cli demo_draws (\<lambda>_ _. None) path cmd w"
  let ?w = "demo_world Map.empty [] [''pw'', ''pw'']" and ?d = "derive_keys demo (generate_mnemonic (zeros 32))"
  have parts: "wo_disk (demo_world r l p) = demo_disk r" "wo_lines (demo_world r l p) = l"
    "wo_passwords (demo_world r l p) = p" "wo_shown (demo_world r l p) = []" for r l p
    by (simp_all add: demo_world_def)
  have draws: "dr_entropy demo_draws = zeros 32" "length (dr_entropy demo_draws) = 32"
    by (simp_all add: demo_draws_def)
  have "dk_read (wo_disk ?w) ''w'' = None" "wo_passwords ?w = ''pw'' # ''pw'' # []"
    "can_save demo demo_words_crates demo_cli demo_draws ''w'' ''pw''
       (derive_keys demo (generate_mnemonic (dr_entropy demo_draws))) (wo_disk ?w)"
    using demo_can_save by (simp_all add: parts) (simp add: demo_disk_def)
  from words_restore_wallet [OF demo_hex demo_words_laws demo_cli_laws draws(2) this, where nd = "\<lambda>_ _. None"]
  obtain words where g: "wo_shown (?run ''w'' Generate ?w) =
      wo_shown ?w @ [ShowHeader ''Nouveau Wallet'', ShowAddress (wd_address ?d), ShowWords words, ShowSaved ''w'',
        ShowAddress (wd_address ?d)]"
    "holds_wallet demo demo_words_crates demo_cli ''w'' ''pw'' ?d (?run ''w'' Generate ?w)"
    and i: "\<And>w2 ls path2 pw2 pws2 dr2 nd2.
         wo_lines w2 = (join_space words @ [CHR 0x0A]) # ls \<Longrightarrow> wo_passwords w2 = pw2 # pw2 # pws2 \<Longrightarrow>
         can_save demo demo_words_crates demo_cli dr2 path2 pw2 ?d (wo_disk w2) \<Longrightarrow>
         wo_shown (run_command demo demo_words_crates demo_cli dr2 nd2 path2 Import w2) =
           wo_shown w2 @ [ShowHeader ''Importer un Wallet'', ShowAddress (wd_address ?d), ShowSaved path2] \<and>
         holds_wallet demo demo_words_crates demo_cli path2 pw2 ?d (run_command demo demo_words_crates demo_cli dr2 nd2 path2 Import w2)"
    unfolding draws(1) Let_def by blast
  let ?w2 = "demo_world Map.empty [join_space words @ [CHR 0x0A]] [''other'', ''other'']"
  have "can_save demo demo_words_crates demo_cli demo_draws ''v'' ''other'' ?d (wo_disk ?w2)"
    using demo_can_save by (simp add: parts)
  from i [OF parts(2) parts(3) this] g show ?thesis
    unfolding Let_def by (intro exI [of _ words]) (simp add: parts)
qed

section \<open>The cached scan\<close>

lemma load_scan_state_cong:
  "wo_disk w' = wo_disk w \<Longrightarrow> wo_home w' = wo_home w \<Longrightarrow> load_scan_state cc w' = load_scan_state cc w"
  by (simp add: load_scan_state_def scan_state_path_def)

text \<open>A balance that finds new blocks, and one that finds none.\<close>

lemma show_balance_refreshes:
  assumes "get_chain_height (nd ''cipherx_blockNumber'' []) = Some h"
    and "last_scanned_block (load_scan_state cc w) + 1 \<le> h"
    and "dk_write (wo_disk w) (scan_state_path w) = None"
    and "cc_scan_text cc (refresh_scan e d (outputs_call nd) h (load_scan_state cc w)) = Some json"
  defines "st \<equiv> refresh_scan e d (outputs_call nd) h (load_scan_state cc w)"
  shows "\<exists>shown calls last. show_balance e cc nd d w = write_file (scan_state_path w) json
      (w\<lparr>wo_calls := calls, wo_shown := wo_shown w @ shown @ [ShowTotal (wallet_total e d (detected_outputs st)), last]\<rparr>)"
proof -
  let ?w1 = "w\<lparr>wo_calls := wo_calls w @ [(''cipherx_blockNumber'', [])],
    wo_shown := wo_shown w @ [ShowHeader ''Solde'', ShowAddress (short_addr (wd_address d)), ShowConnected h]\<rparr>"
  have load: "load_scan_state cc ?w1 = load_scan_state cc w" by (rule load_scan_state_cong) simp_all
  define calls where "calls = (if hex32 e (wd_private_view d) \<noteq> None \<and> hex32 e (wd_public_spend d) \<noteq> None
    then wo_calls ?w1 @ [(''cipherx_getOutputs'', [JUint (last_scanned_block (load_scan_state cc w) + 1), JUint h])]
    else wo_calls ?w1)"
  let ?w2 = "write_file (scan_state_path w) json (w\<lparr>wo_calls := calls,
    wo_shown := wo_shown ?w1 @ [ShowScanning (last_scanned_block (load_scan_state cc w) + 1) h]\<rparr>)"
  have r: "refresh_cache e cc nd d h ?w1 = (st, ?w2)"
    using assms(2-4)
    by (simp add: refresh_cache_def load Let_def st_def save_scan_state_def scan_state_path_def show_msg_def rpc_call_def
        write_file_def calls_def)
  define final where "final = (if detected_outputs st \<noteq> [] then ShowOutputs (length (detected_outputs st)) (last_scanned_block st)
    else ShowNoOutputs (last_scanned_block st))"
  have "show_balance e cc nd d w = ?w2\<lparr>wo_shown := wo_shown ?w2 @ [ShowTotal (wallet_total e d (detected_outputs st)), final]\<rparr>"
    using assms(1) r by (simp add: show_balance_def ask_height_def rpc_call_def show_msg_def Let_def final_def)
  then show ?thesis
    by (intro exI [of _ "[ShowHeader ''Solde'', ShowAddress (short_addr (wd_address d)), ShowConnected h,
        ShowScanning (last_scanned_block (load_scan_state cc w) + 1) h]"] exI [of _ calls] exI [of _ final])
      (simp add: write_file_def)
qed

lemma show_balance_known:
  assumes "get_chain_height (nd ''cipherx_blockNumber'' []) = Some h"
    and "\<not> last_scanned_block (load_scan_state cc w) + 1 \<le> h"
  defines "st \<equiv> load_scan_state cc w"
  shows "\<exists>shown last. show_balance e cc nd d w =
      w\<lparr>wo_calls := wo_calls w @ [(''cipherx_blockNumber'', [])],
        wo_shown := wo_shown w @ shown @ [ShowTotal (wallet_total e d (detected_outputs st)), last]\<rparr>"
proof -
  let ?w1 = "w\<lparr>wo_calls := wo_calls w @ [(''cipherx_blockNumber'', [])],
    wo_shown := wo_shown w @ [ShowHeader ''Solde'', ShowAddress (short_addr (wd_address d)), ShowConnected h]\<rparr>"
  have "load_scan_state cc ?w1 = st" unfolding st_def by (rule load_scan_state_cong) simp_all
  then have r: "refresh_cache e cc nd d h ?w1 = (st, ?w1)"
    using assms(2) by (simp add: refresh_cache_def Let_def st_def)
  define final where "final = (if detected_outputs st \<noteq> [] then ShowOutputs (length (detected_outputs st)) (last_scanned_block st)
    else ShowNoOutputs (last_scanned_block st))"
  have "show_balance e cc nd d w = ?w1\<lparr>wo_shown := wo_shown ?w1 @ [ShowTotal (wallet_total e d (detected_outputs st)), final]\<rparr>"
    using assms(1) r by (simp add: show_balance_def ask_height_def rpc_call_def show_msg_def Let_def final_def)
  then show ?thesis by (intro exI [of _ "[ShowHeader ''Solde'', ShowAddress (short_addr (wd_address d)), ShowConnected h]"] exI [of _ final]) simp
qed

lemma load_written:
  "utf8_valid json \<Longrightarrow> cc_scan_read cc json = Some st \<Longrightarrow> wo_home w' = wo_home w \<Longrightarrow>
   dk_read (wo_disk w') (scan_state_path w) = Some json \<Longrightarrow> load_scan_state cc w' = st"
  by (simp add: load_scan_state_def scan_state_path_def)

lemma refreshed_height: "last_scanned_block st + 1 \<le> h \<Longrightarrow> last_scanned_block (refresh_scan e d fetch h st) = h"
  by (simp add: refresh_scan_def Let_def)

text \<open>
  C30. All wallets share one cached scan: when the user asks for the balance of one wallet and then for
  that of another while the node is at the same block, the second command makes no scan. It shows
  the total of the outputs found for the first wallet, and they stay in the cache, where asking for
  the second balance first would have shown the total of a scan with its own view key.
\<close>

theorem shared_scan_cache:
  assumes "cli_laws cc" "get_chain_height (nd ''cipherx_blockNumber'' []) = Some h" "h \<noteq> - 1"
    and "holds_wallet e wc cc path pw d w" "holds_wallet e wc cc path' pw' d' w" "path' \<noteq> scan_state_path w"
    and "wo_passwords w = pw # pw' # pws" "dk_write (wo_disk w) (scan_state_path w) = None"
    and "last_scanned_block (load_scan_state cc w) + 1 \<le> h"
    and "cc_scan_text cc (refresh_scan e d (outputs_call nd) h (load_scan_state cc w)) = Some json"
    and "cc_scan_text cc (refresh_scan e d' (outputs_call nd) h (load_scan_state cc w)) = Some json'"
  shows "let st = refresh_scan e d (outputs_call nd) h (load_scan_state cc w);
      w1 = run_command e wc cc dr nd path Balance w; w2 = run_command e wc cc dr nd path' Balance w1;
      alone = refresh_scan e d' (outputs_call nd) h (load_scan_state cc w);
      w3 = run_command e wc cc dr nd path' Balance (w\<lparr>wo_passwords := pw' # pws\<rparr>) in
    wo_calls w2 = wo_calls w1 @ [(''cipherx_blockNumber'', [])] \<and>
    ShowTotal (wallet_total e d' (detected_outputs st)) \<in> set (drop (length (wo_shown w1)) (wo_shown w2)) \<and>
    load_scan_state cc w2 = st \<and>
    ShowTotal (wallet_total e d' (detected_outputs alone)) \<in> set (drop (length (wo_shown w)) (wo_shown w3)) \<and>
    load_scan_state cc w3 = alone"
proof -
  let ?v = "w\<lparr>wo_passwords := pw' # pws\<rparr>" and ?u = "w\<lparr>wo_passwords := pws\<rparr>"
  define st where "st = refresh_scan e d (outputs_call nd) h (load_scan_state cc w)"
  define alone where "alone = refresh_scan e d' (outputs_call nd) h (load_scan_state cc w)"
  define w1 where "w1 = run_command e wc cc dr nd path Balance w"
  define w2 where "w2 = run_command e wc cc dr nd path' Balance w1"
  define w3 where "w3 = run_command e wc cc dr nd path' Balance ?v"
  have same: "load_scan_state cc (w\<lparr>wo_passwords := x\<rparr>) = load_scan_state cc w"
    "scan_state_path (w\<lparr>wo_passwords := x\<rparr>) = scan_state_path w" for x
    by (simp_all add: load_scan_state_def scan_state_path_def)
  have read: "utf8_valid json" "cc_scan_read cc json = Some st" "utf8_valid json'" "cc_scan_read cc json' = Some alone"
    using assms(1,10,11) by (simp_all add: cli_laws_def st_def alone_def)
  have "w1 = show_balance e cc nd d ?v"
    using with_held_wallet [OF assms(4,7)] by (simp add: w1_def cmd_balance_def)
  then obtain shown calls last where w1: "w1 = write_file (scan_state_path w) json
      (?v\<lparr>wo_calls := calls, wo_shown := wo_shown w @ shown @ [ShowTotal (wallet_total e d (detected_outputs st)), last]\<rparr>)"
    using show_balance_refreshes [of nd h cc ?v e d json] assms(2,8-10) by (auto simp: same st_def)
  have st: "load_scan_state cc w1 = st"
    using read(1,2) by (rule load_written [where w = w]) (simp_all add: w1 write_file_def)
  have "load_wallet cc path' w1 = load_wallet cc path' w"
    using assms(6) by (simp add: load_wallet_def w1 write_file_def)
  then have "holds_wallet e wc cc path' pw' d' w1" using assms(5) by (simp add: holds_wallet_def)
  then have w2: "w2 = show_balance e cc nd d' (w1\<lparr>wo_passwords := pws\<rparr>)"
    using with_held_wallet [of e wc cc path' pw' d' w1 pws] by (simp add: w2_def cmd_balance_def w1 write_file_def)
  have again: "load_scan_state cc (w1\<lparr>wo_passwords := pws\<rparr>) = st"
    using st load_scan_state_cong [of "w1\<lparr>wo_passwords := pws\<rparr>" w1 cc] by simp
  have "\<not> last_scanned_block st + 1 \<le> h"
    using assms(3) by (simp add: st_def refreshed_height [OF assms(9)] inc_less_eq_iff)
  then obtain shown2 last2 where w2': "w2 = (w1\<lparr>wo_passwords := pws\<rparr>)
      \<lparr>wo_calls := wo_calls w1 @ [(''cipherx_blockNumber'', [])],
       wo_shown := wo_shown w1 @ shown2 @ [ShowTotal (wallet_total e d' (detected_outputs st)), last2]\<rparr>"
    using show_balance_known [of nd h cc "w1\<lparr>wo_passwords := pws\<rparr>" e d'] assms(2) again w2 by auto
  have st2: "load_scan_state cc w2 = st"
    using st load_scan_state_cong [of w2 w1 cc] by (simp add: w2')
  have "holds_wallet e wc cc path' pw' d' ?v" using assms(5) by (simp add: holds_wallet_def load_wallet_def)
  then have "w3 = show_balance e cc nd d' ?u"
    using with_held_wallet [of e wc cc path' pw' d' ?v pws] by (simp add: w3_def cmd_balance_def)
  then obtain shown3 calls3 last3 where w3: "w3 = write_file (scan_state_path w) json'
      (?u\<lparr>wo_calls := calls3, wo_shown := wo_shown w @ shown3 @ [ShowTotal (wallet_total e d' (detected_outputs alone)), last3]\<rparr>)"
    using show_balance_refreshes [of nd h cc ?u e d' json'] assms(2,8,9,11) by (auto simp: same alone_def)
  have st3: "load_scan_state cc w3 = alone"
    using read(3,4) by (rule load_written [where w = w]) (simp_all add: w3 write_file_def)
  show ?thesis
    unfolding Let_def st_def [symmetric] alone_def [symmetric] w1_def [symmetric] w2_def [symmetric] w3_def [symmetric]
    using st2 st3 by (simp add: w2' w3 write_file_def)
qed

theorem shared_scan_cache_witness:
  "let w = demo_world [''a'' \<mapsto> str_bytes (hex_text (pad_to 32 (str_bytes ''p'' @ [1, 2]) @ str_bytes ''abandon'')),
         ''b'' \<mapsto> str_bytes (hex_text (pad_to 32 (str_bytes ''q'' @ [1, 2]) @ str_bytes ''ability''))] [] [''p'', ''q''];
       nd = (\<lambda>m _. Some (if m = ''cipherx_blockNumber'' then JString (hex_0x 5) else JArray []));
       w1 = run_command demo demo_words_crates demo_cli demo_draws nd ''a'' Balance w;
       w2 = run_command demo demo_words_crates demo_cli demo_draws nd ''b'' Balance w1 in
     wo_calls w2 = wo_calls w1 @ [(''cipherx_blockNumber'', [])]"
proof -
  let ?w = "demo_world [''a'' \<mapsto> str_bytes (hex_text (pad_to 32 (str_bytes ''p'' @ [1, 2]) @ str_bytes ''abandon'')),
         ''b'' \<mapsto> str_bytes (hex_text (pad_to 32 (str_bytes ''q'' @ [1, 2]) @ str_bytes ''ability''))] [] [''p'', ''q'']"
  let ?nd = "\<lambda>m _. Some (if m = ''cipherx_blockNumber'' then JString (hex_0x 5) else JArray []) :: json_value option"
  have h: "get_chain_height (?nd ''cipherx_blockNumber'' []) = Some 5"
    by (simp add: get_chain_height_def parse_hex_0x)
  have held: "holds_wallet demo demo_words_crates demo_cli ''a'' ''p'' (derive_keys demo ''abandon'') ?w"
    "holds_wallet demo demo_words_crates demo_cli ''b'' ''q'' (derive_keys demo ''ability'') ?w"
    using decrypt_encrypted [OF demo_hex demo_words_laws _ demo_encrypts]
    by (simp_all add: holds_wallet_def load_wallet_def demo_world_def demo_disk_def demo_cli_def hex_text_valid)
  have new: "load_scan_state demo_cli ?w = scan_state_default"
    by (simp add: load_scan_state_def scan_state_path_def demo_world_def demo_disk_def)
  have none: "refresh_scan demo d (outputs_call ?nd) 5 scan_state_default = \<lparr> last_scanned_block = 5, detected_outputs = [] \<rparr>" for d
    by (simp add: refresh_scan_def scan_state_default_def Let_def scan_outputs_def outputs_call_def
        get_outputs_in_range_def split: option.split)
  have written: "cc_scan_text demo_cli \<lparr> last_scanned_block = 5, detected_outputs = [] \<rparr> = Some (str_bytes (hex_text (u64_to_le 5)))"
    by (simp add: demo_cli_def)
  have start: "''b'' \<noteq> scan_state_path ?w" "wo_passwords ?w = ''p'' # ''q'' # []"
    "dk_write (wo_disk ?w) (scan_state_path ?w) = None" "last_scanned_block scan_state_default + 1 \<le> (5 :: u64)"
    "(5 :: u64) \<noteq> - 1"
    by (simp_all add: scan_state_path_def demo_world_def demo_disk_def scan_state_default_def)
  show ?thesis
    using shared_scan_cache [where nd = ?nd and dr = demo_draws, OF demo_cli_laws h start(5) held start(1-3), unfolded new none,
        OF start(4) written written]
    by (simp only: Let_def)
qed

end
