(* ===== verification/Startup.thy ===== *)
theory Startup
  imports Mnemonic Address
begin

text \<open>
  How \<open>main\<close> in \<open>src/src/main.rs\<close> reads its configuration and starts the Tor client: the seed nodes, which decide between following
  and validating, and the reward address. An environment variable is an optional string, a file its
  content when it can be read.
\<close>

section \<open>Text\<close>

text \<open>\<open>trim\<close> of the standard library, on the UTF-8 bytes of the text.\<close>

function trim_start :: "string \<Rightarrow> string" where
  "trim_start s =
     (let n = ws_len (map of_char s) in if s = [] \<or> n = 0 then s else trim_start (drop n s))"
  by auto
termination
  by (relation "measure length") auto

declare trim_start.simps [simp del]

fun trim_end :: "string \<Rightarrow> string" where
  "trim_end [] = []"
| "trim_end (c # cs) = (if trim_start (c # cs) = [] then [] else c # trim_end cs)"

definition trim :: "string \<Rightarrow> string" where
  "trim s = trim_end (trim_start s)"

fun split_on :: "char \<Rightarrow> string \<Rightarrow> string list" where
  "split_on d [] = [[]]"
| "split_on d (c # cs) =
     (if c = d then [] # split_on d cs
      else (case split_on d cs of [] \<Rightarrow> [[c]] | w # ws \<Rightarrow> (c # w) # ws))"

definition starts_with :: "string \<Rightarrow> string \<Rightarrow> bool" where
  "starts_with s p \<longleftrightarrow> take (length p) s = p"

section \<open>The Tor client\<close>

text \<open>
  \<open>src/src/network/tor.rs\<close>, which \<open>main\<close> creates with the default configuration and starts: nothing else
  reads the flag or the proxy, starting cannot fail, and the client calls itself ready in any case.
\<close>

record tor_config =
  tor_enabled :: bool
  tor_socks5_proxy :: "string option"

definition tor_config_default :: tor_config where
  "tor_config_default = \<lparr> tor_enabled = False, tor_socks5_proxy = None \<rparr>"

record tor_client =
  tcl_config :: tor_config
  tcl_enabled :: bool

definition tor_client_new :: "tor_config \<Rightarrow> tor_client" where
  "tor_client_new config = \<lparr> tcl_config = config, tcl_enabled = tor_enabled config \<rparr>"

definition tor_start :: "tor_client \<Rightarrow> (string + unit) \<times> tor_client" where
  "tor_start c = (Inr (), c)"

definition tor_is_ready :: "tor_client \<Rightarrow> bool" where
  "tor_is_ready c = True"

section \<open>Seeds and the mode of the node\<close>

definition TESTNET_SEEDS :: "string list" where
  "TESTNET_SEEDS = [''141.11.243.5:9152'']"

definition unwrap_or_empty :: "string option \<Rightarrow> string" where
  "unwrap_or_empty v = (case v of None \<Rightarrow> [] | Some s \<Rightarrow> s)"

definition seed_nodes :: "string option \<Rightarrow> string option \<Rightarrow> string list" where
  "seed_nodes env_seed_nodes env_public_ip =
     (let env_seeds = filter (\<lambda>s. s \<noteq> []) (map trim (split_on (CHR '','') (unwrap_or_empty env_seed_nodes))) in
      if env_seeds \<noteq> [] then env_seeds
      else (let our_ip = unwrap_or_empty env_public_ip in
            filter (\<lambda>s. our_ip = [] \<or> \<not> starts_with s our_ip) TESTNET_SEEDS))"

definition is_sync_mode :: "string option \<Rightarrow> string option \<Rightarrow> bool" where
  "is_sync_mode env_seed_nodes env_public_ip \<longleftrightarrow> seed_nodes env_seed_nodes env_public_ip \<noteq> []"

section \<open>The reward address\<close>

definition load_reward_address ::
  "('p, 's) crates \<Rightarrow> string option \<Rightarrow> string option \<Rightarrow> stealth_address option" where
  "load_reward_address e env_reward_address file_content =
     (case (case env_reward_address of None \<Rightarrow> None | Some s \<Rightarrow> parse_stealth_address e s) of
        Some addr \<Rightarrow> Some addr
      | None \<Rightarrow>
          (case file_content of
             None \<Rightarrow> None
           | Some content \<Rightarrow> parse_stealth_address e (trim content)))"

section \<open>Follow or validate\<close>

text \<open>
  A node validates only when it is told that it is the seed: without seeds in the environment, the
  node follows the built-in seed unless its public address is given and is a prefix of the seed's; in
  particular with nothing configured it follows. With the environment naming any seed that is not
  white space, it follows.
\<close>

theorem default_node_follows:
  "is_sync_mode None None
   \<and> (is_sync_mode None (Some ip) \<longleftrightarrow> ip = [] \<or> \<not> starts_with ''141.11.243.5:9152'' ip)
   \<and> (is_sync_mode (Some seeds) ip' \<longleftrightarrow>
        (\<exists>s\<in>set (split_on (CHR '','') seeds). trim s \<noteq> []) \<or> is_sync_mode None ip')"
proof (intro conjI)
  have none: "trim [] = []" by (simp add: trim_def trim_start.simps)
  show "is_sync_mode None None"
    by (simp add: is_sync_mode_def seed_nodes_def unwrap_or_empty_def none TESTNET_SEEDS_def)
  show "is_sync_mode None (Some ip) \<longleftrightarrow> ip = [] \<or> \<not> starts_with ''141.11.243.5:9152'' ip"
    by (simp add: is_sync_mode_def seed_nodes_def unwrap_or_empty_def none TESTNET_SEEDS_def)
  show "is_sync_mode (Some seeds) ip' \<longleftrightarrow>
      (\<exists>s\<in>set (split_on (CHR '','') seeds). trim s \<noteq> []) \<or> is_sync_mode None ip'"
    by (auto simp: is_sync_mode_def seed_nodes_def unwrap_or_empty_def none filter_empty_conv Let_def)
qed

theorem default_node_follows_witness:
  "is_sync_mode None None \<and> \<not> is_sync_mode None (Some ''141.11.243.5'') \<and> is_sync_mode None (Some ''10.0.0.1'')"
  using default_node_follows [of "''141.11.243.5''"] default_node_follows [of "''10.0.0.1''"]
  by (simp add: starts_with_def)

end
