(* ===== verification/Node.thy ===== *)
theory Node
  imports Payment Net Startup
begin

text \<open>
  The node of \<open>src/src/main.rs\<close>: the event loop over the blocks of a seed, the network's events, the
  consensus tick and the RPC server, which share the chain and the pending transactions. A tick
  carries what it reads from the outside: the wall clock, the instants, the random draws and the
  order of the parallel validation. A panic of the loop is the state \<^const>\<open>None\<close>, which nothing
  leaves. The peer-to-peer node is never started, so its broadcasts do nothing.
\<close>

section \<open>Building and finalizing a block\<close>

record tick =
  tk_now :: i64
  tk_clock :: "nat \<Rightarrow> nat"
  tk_draw_out :: bytes
  tk_draw_blind :: bytes
  tk_rng :: "nat \<Rightarrow> bytes"
  tk_sched :: "nat \<Rightarrow> nat list"

definition build_block ::
  "('p::ab_group_add, 's::field) crates \<Rightarrow> tick \<Rightarrow> u64 \<Rightarrow> block_hash \<Rightarrow> stealth_address option \<Rightarrow>
   transaction list \<Rightarrow> block option" where
  "build_block e t h prev_hash reward_address pending_txs =
     (let reward = block_reward h in
      case (case reward_address of
              Some addr \<Rightarrow> build_coinbase e (tk_draw_out t) (tk_draw_blind t) (tk_rng t) addr reward h
            | None \<Rightarrow> Some (coinbase_placeholder h)) of
        None \<Rightarrow> None
      | Some coinbase \<Rightarrow>
          (let txs = coinbase # pending_txs in
           Some \<lparr> header = \<lparr> hd_version = 1, hd_height = h, hd_timestamp = tk_now t, hd_prev_hash = prev_hash,
                             hd_tx_root = compute_tx_root e txs, hd_state_root = block_hash_zero,
                             hd_validator = vc_placeholder, hd_round = 0 \<rparr>,
                  transactions = txs, signatures = [] \<rparr>))"

text \<open>Propose, prevote, precommit, finalize: any other output on the way ends the attempt.\<close>

definition drive_solo_consensus ::
  "('p, 's) crates \<Rightarrow> ((bytes \<Rightarrow> vote option) \<Rightarrow> vote list) \<Rightarrow> (nat \<Rightarrow> nat) \<Rightarrow> engine \<Rightarrow> block \<Rightarrow>
   block option \<times> engine" where
  "drive_solo_consensus e ls clock g b =
     (case submit_proposal e g b of
        (Inr (BroadcastProposal p), g1) \<Rightarrow>
          (case receive_proposal e (clock 0) g1 p of
             (Inr (BroadcastVote prevote), g2) \<Rightarrow>
               (case receive_vote e ls (clock 1) g2 prevote of
                  (Inr (BroadcastVote precommit), g3) \<Rightarrow>
                    (case receive_vote e ls (clock 2) g3 precommit of
                       (Inr (FinalizedBlock b' votes), g4) \<Rightarrow> (Some b', g4)
                     | (_, g4) \<Rightarrow> (None, g4))
                | (_, g3) \<Rightarrow> (None, g3))
           | (_, g2) \<Rightarrow> (None, g2))
      | (_, g1) \<Rightarrow> (None, g1))"

section \<open>The state and the event loop\<close>

record 'd node =
  nd_chain :: "'d chain"
  nd_engine :: engine
  nd_mempool :: "transaction list"
  nd_sync :: sync_state
  nd_sync_mode :: bool
  nd_reward :: "stealth_address option"
  nd_mined :: u64

definition our_nullifier :: bytes where
  "our_nullifier = replicate 32 1"

definition node_start :: "nat \<Rightarrow> nat \<Rightarrow> 'd chain \<Rightarrow> stealth_address option \<Rightarrow> bool \<Rightarrow> 'd node" where
  "node_start now now' c reward_address sync_mode =
     \<lparr> nd_chain = c,
       nd_engine = snd (start_height now'
         (engine_new now 1 1 [our_nullifier] (Some our_nullifier) (Some vc_placeholder)) 1),
       nd_mempool = [], nd_sync = sync_new (ch_height c), nd_sync_mode = sync_mode,
       nd_reward = reward_address, nd_mined = 0 \<rparr>"

definition node_sync_block ::
  "('p::ab_group_add, 's::field) crates \<Rightarrow> 'd rocks \<Rightarrow> nat list \<Rightarrow> block \<Rightarrow> 'd node \<Rightarrow> 'd node" where
  "node_sync_block e R sched b n =
     (case append_block e R sched (nd_chain n) b of
        (Inr _, c) \<Rightarrow> n\<lparr>nd_chain := c, nd_sync := on_block_applied (nd_sync n) (ch_height c)\<rparr>
      | (Inl _, c) \<Rightarrow> n\<lparr>nd_chain := c\<rparr>)"

text \<open>The instant is that of a vote's arrival; a broadcast of the engine's answer has no effect here.\<close>

fun node_network ::
  "('p, 's) crates \<Rightarrow> ((bytes \<Rightarrow> vote option) \<Rightarrow> vote list) \<Rightarrow> nat \<Rightarrow> network_event \<Rightarrow> 'd node \<Rightarrow> 'd node" where
  "node_network e ls now (BlockReceived b sender) n =
     n\<lparr>nd_sync := on_block_applied (nd_sync n) (hd_height (header b))\<rparr>"
| "node_network e ls now (VoteReceived v sender) n =
     n\<lparr>nd_engine := snd (receive_vote e ls now (nd_engine n) v)\<rparr>"
| "node_network e ls now (PeerConnected info) n =
     n\<lparr>nd_sync := update_target (nd_sync n) (pi_height info) (zeros 32)\<rparr>"
| "node_network e ls now ev n = n"

text \<open>The rest of a tick, after the height, the tip and the pending transactions are taken.\<close>

definition finish_tick ::
  "('p::ab_group_add, 's::field) crates \<Rightarrow> 'd rocks \<Rightarrow> ((bytes \<Rightarrow> vote option) \<Rightarrow> vote list) \<Rightarrow> tick \<Rightarrow>
   u64 \<Rightarrow> block_hash \<Rightarrow> transaction list \<Rightarrow> 'd node \<Rightarrow> 'd node option" where
  "finish_tick e R ls t next_height prev_hash pending n =
     (case build_block e t next_height prev_hash (nd_reward n) pending of
        None \<Rightarrow> None
      | Some b \<Rightarrow>
          (case drive_solo_consensus e ls (tk_clock t) (nd_engine n) b of
             (Some finalized, g) \<Rightarrow>
               (case append_block e R (tk_sched t (tx_count finalized)) (nd_chain n) finalized of
                  (Inr _, c) \<Rightarrow>
                    Some (n\<lparr>nd_chain := c, nd_mined := nd_mined n + 1,
                            nd_engine := snd (start_height (tk_clock t 3) g (next_height + 1))\<rparr>)
                | (Inl _, c) \<Rightarrow>
                    Some (n\<lparr>nd_chain := c, nd_engine := snd (start_height (tk_clock t 3) g next_height)\<rparr>))
           | (None, g) \<Rightarrow> Some (n\<lparr>nd_engine := snd (check_timeout e (tk_clock t 3) g)\<rparr>)))"

definition node_tick ::
  "('p::ab_group_add, 's::field) crates \<Rightarrow> 'd rocks \<Rightarrow> ((bytes \<Rightarrow> vote option) \<Rightarrow> vote list) \<Rightarrow> tick \<Rightarrow>
   'd node \<Rightarrow> 'd node option" where
  "node_tick e R ls t n =
     (if nd_sync_mode n \<or> \<not> is_proposer (nd_engine n) then Some n
      else finish_tick e R ls t (ch_height (nd_chain n) + 1) (tip_hash (nd_chain n)) (nd_mempool n)
             (n\<lparr>nd_mempool := []\<rparr>))"

lemmas tick_defs = node_tick_def finish_tick_def

datatype node_event =
    EvSyncBlock "nat list" block
  | EvNetwork nat network_event
  | EvTick tick
  | EvRpc i64 "(tx_id \<times> u32) list" nat rpc_request

fun node_react ::
  "('p::ab_group_add, 's::field) crates \<Rightarrow> 'd rocks \<Rightarrow> ((bytes \<Rightarrow> vote option) \<Rightarrow> vote list) \<Rightarrow> node_event \<Rightarrow>
   'd node \<Rightarrow> 'd node option" where
  "node_react e R ls (EvSyncBlock sched b) n = Some (node_sync_block e R sched b n)"
| "node_react e R ls (EvNetwork now ev) n = Some (node_network e ls now ev n)"
| "node_react e R ls (EvTick t) n = node_tick e R ls t n"
| "node_react e R ls (EvRpc now ks peers rq) n =
     Some (n\<lparr>nd_mempool := snd (serve_rpc e now ks peers (nd_chain n) (nd_mempool n) rq)\<rparr>)"

definition node_step ::
  "('p::ab_group_add, 's::field) crates \<Rightarrow> 'd rocks \<Rightarrow> ((bytes \<Rightarrow> vote option) \<Rightarrow> vote list) \<Rightarrow>
   'd node option \<Rightarrow> node_event \<Rightarrow> 'd node option" where
  "node_step e R ls s ev = (case s of None \<Rightarrow> None | Some n \<Rightarrow> node_react e R ls ev n)"

lemma node_step_Some: "node_step e R ls (Some n) ev = node_react e R ls ev n"
  by (simp add: node_step_def)

section \<open>A solo validator finalizes what it proposes\<close>

text \<open>The engine of the only validator, at the start of a height.\<close>

definition solo_engine :: "engine \<Rightarrow> bool" where
  "solo_engine g \<longleftrightarrow>
     en_validator_nullifiers g = [our_nullifier] \<and> en_our_nullifier g = Some our_nullifier \<and>
     en_our_commitment g = Some vc_placeholder \<and> en_signing_key g = None \<and> en_total_validators g = 1 \<and>
     en_locked_block g = None \<and> en_prevote_sets g = Map.empty \<and> en_precommit_sets g = Map.empty"

lemma solo_proposer: "solo_engine g \<Longrightarrow> is_proposer g"
  by (simp add: solo_engine_def is_proposer_def proposer_for_round_def)

lemma solo_start: "solo_engine (snd (start_height t g h))"
  if "en_validator_nullifiers g = [our_nullifier]" "en_our_nullifier g = Some our_nullifier"
    "en_our_commitment g = Some vc_placeholder" "en_signing_key g = None" "en_total_validators g = 1"
  using that by (simp add: solo_engine_def start_height_def enter_propose_def)

lemmas vote_defs =
  receive_vote_def handle_prevote_def handle_precommit_def enter_precommit_def vote_verify_signature_def
  detect_equivocation_def vote_set_add_def vote_set_new_def set_for_round_def vote_set_existing_def
  update_lock_def make_vote_def

lemma drive_solo:
  assumes "solo_engine g"
  shows "\<exists>g'. drive_solo_consensus e ls clock g b = (Some b, g') \<and> solo_engine (snd (start_height t g' h))"
proof -
  note solo = assms [unfolded solo_engine_def]
  let ?p = "\<lparr> pr_height = en_height g, pr_round = en_round g, pr_block = b, pr_nullifier = our_nullifier,
      pr_signature = [], pr_validator_proof = vc_placeholder \<rparr>"
  let ?g1 = "g\<lparr>en_current_proposal := Some ?p\<rparr>"
  let ?g2 = "?g1\<lparr>en_step := StepPrevote, en_step_start := clock 0\<rparr>"
  have submit: "submit_proposal e g b = (Inr (BroadcastProposal ?p), ?g1)"
    using solo solo_proposer [OF assms] by (simp add: submit_proposal_def Let_def)
  have receive: "receive_proposal e (clock 0) ?g1 ?p =
      (Inr (BroadcastVote (make_vote e ?g2 Prevote (Some (block_hash_of e b)))), ?g2)"
    using solo
    by (simp add: receive_proposal_def proposer_for_round_def proposal_verify_def vc_verify_def enter_prevote_def
        decide_prevote_def Let_def)
  let ?v = "make_vote e ?g2 Prevote (Some (block_hash_of e b))"
  obtain g3 where prevote: "receive_vote e ls (clock 1) ?g2 ?v =
      (Inr (BroadcastVote (make_vote e g3 Precommit (Some (block_hash_of e b)))), g3)"
    and g3: "en_height g3 = en_height g" "en_round g3 = en_round g" "en_current_proposal g3 = Some ?p"
      "en_precommit_sets g3 = Map.empty" "en_validator_nullifiers g3 = [our_nullifier]"
      "en_our_nullifier g3 = Some our_nullifier" "en_our_commitment g3 = Some vc_placeholder"
      "en_signing_key g3 = None" "en_total_validators g3 = 1"
    using solo by (simp add: vote_defs Let_def)
  obtain g4 votes where precommit:
      "receive_vote e ls (clock 2) g3 (make_vote e g3 Precommit (Some (block_hash_of e b))) =
        (Inr (FinalizedBlock b votes), g4)"
    and g4: "en_validator_nullifiers g4 = [our_nullifier]" "en_our_nullifier g4 = Some our_nullifier"
      "en_our_commitment g4 = Some vc_placeholder" "en_signing_key g4 = None" "en_total_validators g4 = 1"
    using g3 by (simp add: vote_defs Let_def)
  have "drive_solo_consensus e ls clock g b = (Some b, g4)"
    by (simp add: drive_solo_consensus_def submit receive prevote precommit del: One_nat_def)
  then show ?thesis using solo_start [OF g4] by blast
qed

section \<open>Liveness\<close>

text \<open>What is pending came from the wallet: lite transactions without inputs.\<close>

definition pooled :: "transaction \<Rightarrow> bool" where
  "pooled tx \<longleftrightarrow> tx_type tx = Lite \<and> inputs tx = []"

definition submitted :: "('p, 's) crates \<Rightarrow> rpc_request \<Rightarrow> transaction list" where
  "submitted e rq =
     (if rq_method rq = ''cipherx_sendRawTransaction'' then snd (handle_send_raw_tx e rq []) else [])"

lemma serve_rpc_pool: "snd (serve_rpc e now ks peers c pool rq) = pool @ submitted e rq"
  by (simp add: serve_rpc_def submitted_def handle_send_raw_tx_def Let_def split: option.split)

lemma submitted_pooled: "tx \<in> set (submitted e rq) \<Longrightarrow> pooled tx"
  using from_lite_raw_shape
  by (fastforce simp: submitted_def handle_send_raw_tx_def pooled_def Let_def split: if_splits option.splits)

lemma build_coinbase_total: "dalek_laws e \<Longrightarrow> \<exists>cb. build_coinbase e d d' rng a v h = Some cb"
  by (cases "generate_output e d a 0") (auto simp: build_coinbase_def commit_random_total Let_def)

lemma build_block_ok:
  assumes "dalek_laws e" "\<forall>tx\<in>set pending. pooled tx"
  shows "\<exists>b cb. build_block e t (ch_height c + 1) (tip_hash c) addr pending = Some b \<and>
    transactions b = cb # pending \<and> tx_type cb = Coinbase \<and> block_ok e c b"
proof -
  let ?h = "ch_height c + 1"
  let ?made = "case addr of
      Some a \<Rightarrow> build_coinbase e (tk_draw_out t) (tk_draw_blind t) (tk_rng t) a (block_reward ?h) ?h
    | None \<Rightarrow> Some (coinbase_placeholder ?h)"
  obtain cb where cb: "?made = Some cb"
  proof (cases addr)
    case (Some a)
    then show thesis using build_coinbase_total [OF assms(1)] that by fastforce
  qed (simp add: that)
  then have coinbase: "tx_type cb = Coinbase" "inputs cb = []" "tx_verify e cb"
    using build_coinbase_type
    by (cases addr; fastforce simp: coinbase_placeholder_def tx_verify_def)+
  let ?txs = "cb # pending"
  let ?b = "\<lparr> header = \<lparr> hd_version = 1, hd_height = ?h, hd_timestamp = tk_now t, hd_prev_hash = tip_hash c,
      hd_tx_root = compute_tx_root e ?txs, hd_state_root = block_hash_zero, hd_validator = vc_placeholder,
      hd_round = 0 \<rparr>, transactions = ?txs, signatures = [] \<rparr>"
  have b: "build_block e t ?h (tip_hash c) addr pending = Some ?b"
    unfolding build_block_def Let_def cb by simp
  have none: "key_images tx = []" "tx_verify e tx" if "tx \<in> set ?txs" for tx
    using that assms(2) coinbase by (auto simp: key_images_def pooled_def tx_verify_def)
  have "filter (\<lambda>tx. tx_type tx = Coinbase) pending = []"
    using assms(2) by (auto simp: pooled_def filter_empty_conv)
  then have "coinbase_ok ?b" using coinbase by (simp add: coinbase_ok_def coinbase_count_def)
  moreover have "block_key_images ?b = []" using none(1) by (simp add: block_key_images_def)
  moreover have "\<forall>tx\<in>set ?txs. tx_acceptable e c tx" using none by (simp add: tx_acceptable_def)
  ultimately have "block_ok e c ?b" by (simp add: block_ok_def)
  with b coinbase(1) show ?thesis by fastforce
qed

definition solo :: "'d node \<Rightarrow> bool" where
  "solo n \<longleftrightarrow> solo_engine (nd_engine n) \<and> \<not> nd_sync_mode n \<and> (\<forall>tx\<in>set (nd_mempool n). pooled tx)"

definition fair_tick :: "tick \<Rightarrow> bool" where
  "fair_tick t \<longleftrightarrow> (\<forall>k. set (tk_sched t k) = {..<k})"

lemma solo_tick:
  assumes "dalek_laws e" "solo n" "fair_tick t"
  shows "\<exists>n' b. node_tick e R ls t n = Some n' \<and> solo n' \<and> nd_mempool n' = [] \<and>
    nd_mined n' = nd_mined n + 1 \<and> tl (transactions b) = nd_mempool n \<and> tx_type (hd (transactions b)) = Coinbase \<and>
    block_ok e (nd_chain n) b \<and> nd_chain n' = with_store e R b (extend_chain e b (nd_chain n))"
proof -
  let ?c = "nd_chain n"
  have solo: "solo_engine (nd_engine n)" "\<not> nd_sync_mode n" "\<forall>tx\<in>set (nd_mempool n). pooled tx"
    using assms(2) by (auto simp: solo_def)
  obtain b cb where b: "build_block e t (ch_height ?c + 1) (tip_hash ?c) (nd_reward n) (nd_mempool n) = Some b"
    "transactions b = cb # nd_mempool n" "tx_type cb = Coinbase" "block_ok e ?c b"
    using build_block_ok [OF assms(1) solo(3)] by blast
  obtain g' where g: "drive_solo_consensus e ls (tk_clock t) (nd_engine n) b = (Some b, g')"
    "solo_engine (snd (start_height (tk_clock t 3) g' (ch_height ?c + 1 + 1)))"
    using drive_solo [OF solo(1)] by blast
  let ?n' = "n\<lparr>nd_chain := with_store e R b (extend_chain e b ?c), nd_mempool := [], nd_mined := nd_mined n + 1,
      nd_engine := snd (start_height (tk_clock t 3) g' (ch_height ?c + 1 + 1))\<rparr>"
  have sched: "schedule_for (transactions b) (tk_sched t (tx_count b))"
    using assms(3) by (simp add: fair_tick_def schedule_for_def tx_count_def)
  have "append_block e R (tk_sched t (tx_count b)) ?c b = (Inr (), with_store e R b (extend_chain e b ?c))"
    using append_block_accepts(1) [OF sched, of e R ?c] b(4) by simp
  then have "node_tick e R ls t n = Some ?n'"
    using solo b g(1) by (simp add: tick_defs solo_proposer Let_def)
  then show ?thesis
    using solo b g(2) by (intro exI [of _ ?n'] exI [of _ b]) (simp add: solo_def)
qed

text \<open>
  The transactions submitted between ticks: one batch for each tick, and those since the last one.
\<close>

fun batches :: "('p, 's) crates \<Rightarrow> transaction list \<Rightarrow> node_event list \<Rightarrow> transaction list list \<times> transaction list" where
  "batches e pool [] = ([], pool)"
| "batches e pool (EvTick t # evs) = (case batches e [] evs of (bss, rest) \<Rightarrow> (pool # bss, rest))"
| "batches e pool (EvRpc now ks peers rq # evs) = batches e (pool @ submitted e rq) evs"
| "batches e pool (ev # evs) = batches e pool evs"

fun client_event :: "node_event \<Rightarrow> bool" where
  "client_event (EvTick t) = fair_tick t"
| "client_event (EvRpc now ks peers rq) = True"
| "client_event ev = False"

lemma solo_run:
  assumes "dalek_laws e" "solo n" "\<forall>ev\<in>set evs. client_event ev"
  shows "\<exists>n' bs. run (node_step e R ls) (Some n) evs = Some n' \<and> solo n' \<and>
    map (\<lambda>b. tl (transactions b)) bs = fst (batches e (nd_mempool n) evs) \<and>
    nd_mempool n' = snd (batches e (nd_mempool n) evs) \<and>
    (\<forall>b\<in>set bs. tx_type (hd (transactions b)) = Coinbase) \<and>
    valid_blocks e (in_memory (nd_chain n)) bs \<and>
    in_memory (nd_chain n') = fold (extend_chain e) bs (in_memory (nd_chain n))"
  using assms(2,3)
proof (induction evs arbitrary: n)
  case Nil
  then show ?case by (intro exI [of _ n] exI [of _ "[]"]) simp
next
  case (Cons ev evs)
  show ?case
  proof (cases ev)
    case (EvTick t)
    then obtain n' b where n': "node_tick e R ls t n = Some n'" "solo n'" "nd_mempool n' = []"
      and b: "tl (transactions b) = nd_mempool n" "tx_type (hd (transactions b)) = Coinbase"
        "block_ok e (nd_chain n) b" "nd_chain n' = with_store e R b (extend_chain e b (nd_chain n))"
      using solo_tick [OF assms(1) Cons.prems(1)] Cons.prems(2) by fastforce
    have c': "in_memory (nd_chain n') = extend_chain e b (in_memory (nd_chain n))"
      by (simp add: b(4) in_memory_extend)
    obtain n'' bs where rest: "run (node_step e R ls) (Some n') evs = Some n''" "solo n''"
      "map (\<lambda>b. tl (transactions b)) bs = fst (batches e [] evs)" "nd_mempool n'' = snd (batches e [] evs)"
      "\<forall>b\<in>set bs. tx_type (hd (transactions b)) = Coinbase" "valid_blocks e (in_memory (nd_chain n')) bs"
      "in_memory (nd_chain n'') = fold (extend_chain e) bs (in_memory (nd_chain n'))"
      using Cons.IH [OF n'(2)] Cons.prems(2) n'(3) by auto
    show ?thesis
      using rest b n'(1) c'
      by (intro exI [of _ n''] exI [of _ "b # bs"]) (simp add: EvTick node_step_Some split: prod.split)
  next
    case (EvRpc now ks peers rq)
    let ?n = "n\<lparr>nd_mempool := nd_mempool n @ submitted e rq\<rparr>"
    have "solo ?n" using Cons.prems(1) submitted_pooled by (auto simp: solo_def)
    from Cons.IH [OF this] Cons.prems(2) show ?thesis by (simp add: EvRpc node_step_Some serve_rpc_pool)
  qed (use Cons.prems in auto)
qed

lemma solo_node_start: "solo (node_start t t' c addr False)"
  by (auto simp: solo_def node_start_def engine_new_def intro!: solo_start)

lemma node_start_fields [simp]:
  "nd_mempool (node_start t t' c addr m) = []" "nd_chain (node_start t t' c addr m) = c"
  "nd_sync_mode (node_start t t' c addr m) = m"
  by (simp_all add: node_start_def)

fun is_tick :: "node_event \<Rightarrow> bool" where
  "is_tick (EvTick t) = True"
| "is_tick ev = False"

lemma length_batches:
  "\<forall>ev\<in>set evs. client_event ev \<Longrightarrow> length (fst (batches e pool evs)) = length (filter is_tick evs)"
proof (induction evs arbitrary: pool)
  case (Cons ev evs)
  then show ?case by (cases ev) (auto split: prod.split simp: prod_eq_iff)
qed simp

text \<open>
  C3. A validator node lives: started on any chain, with any reward address, under every sequence of
  RPC requests and ticks, the node never panics, every tick finalizes one block and appends it, so
  that the height grows by the number of ticks; the block of a tick is a coinbase followed by exactly
  the transactions submitted since the previous tick, in their order, so that each accepted
  submission is on the chain after the next tick, and what is pending is what came after the last
  one.
\<close>

theorem validator_node_live:
  fixes R :: "'d rocks"
  assumes "dalek_laws e" "\<forall>ev\<in>set evs. client_event ev"
  shows "\<exists>n bs. run (node_step e R ls) (Some (node_start t t' c addr False)) evs = Some n \<and>
    length bs = length (filter is_tick evs) \<and>
    ch_height (nd_chain n) = ch_height c + of_nat (length (filter is_tick evs)) \<and>
    valid_blocks e (in_memory c) bs \<and>
    in_memory (nd_chain n) = fold (extend_chain e) bs (in_memory c) \<and>
    (\<forall>b\<in>set bs. tx_type (hd (transactions b)) = Coinbase) \<and>
    (map (\<lambda>b. tl (transactions b)) bs, nd_mempool n) = batches e [] evs"
proof -
  obtain n bs where r: "run (node_step e R ls) (Some (node_start t t' c addr False)) evs = Some n"
    and bs: "map (\<lambda>b. tl (transactions b)) bs = fst (batches e [] evs)" "nd_mempool n = snd (batches e [] evs)"
      "\<forall>b\<in>set bs. tx_type (hd (transactions b)) = Coinbase" "valid_blocks e (in_memory c) bs"
      "in_memory (nd_chain n) = fold (extend_chain e) bs (in_memory c)"
    using solo_run [OF assms(1) solo_node_start assms(2)] by fastforce
  have len: "length bs = length (filter is_tick evs)"
    using length_batches [OF assms(2)] by (metis bs(1) length_map)
  have "ch_height (nd_chain n) = ch_height c + of_nat (length bs)"
    using fold_extend_height [OF bs(4)] by (metis bs(5) in_memory_fields(1))
  with r bs len show ?thesis by (intro exI [of _ n] exI [of _ bs]) (simp add: prod_eq_iff)
qed

definition demo_tick :: tick where
  "demo_tick =
     \<lparr> tk_now = 5, tk_clock = (\<lambda>i. i), tk_draw_out = [1], tk_draw_blind = [2], tk_rng = (\<lambda>i. [of_nat i]),
       tk_sched = (\<lambda>k. [0..<k]) \<rparr>"

lemma demo_tick_fair: "fair_tick demo_tick"
  by (auto simp: fair_tick_def demo_tick_def)

theorem validator_node_live_witness:
  "\<exists>n. run (node_step demo mem_rocks (\<lambda>m. [])) (Some (node_start 0 0 (chain_new demo 3) None False))
      [EvTick demo_tick, EvRpc 0 [] 1 \<lparr> rq_id = JNull, rq_method = ''cipherx_blockNumber'', rq_params = [] \<rparr>,
       EvTick demo_tick] = Some n \<and> ch_height (nd_chain n) = 2 \<and> nd_mempool n = []"
proof -
  let ?evs = "[EvTick demo_tick, EvRpc 0 [] 1 \<lparr> rq_id = JNull, rq_method = ''cipherx_blockNumber'', rq_params = [] \<rparr>,
       EvTick demo_tick]"
  have "\<forall>ev\<in>set ?evs. client_event ev" by (simp add: demo_tick_fair)
  from validator_node_live [OF demo_dalek this, of mem_rocks "\<lambda>m. []" 0 0 "chain_new demo 3" None]
  show ?thesis by (auto simp: chain_new_def submitted_def Let_def)
qed

section \<open>Every node refines the chain\<close>

fun fair_event :: "node_event \<Rightarrow> bool" where
  "fair_event (EvTick t) = fair_tick t"
| "fair_event (EvSyncBlock sched b) = schedule_for (transactions b) sched"
| "fair_event ev = True"

fun seed_arrivals :: "node_event list \<Rightarrow> arrival list" where
  "seed_arrivals [] = []"
| "seed_arrivals (EvSyncBlock sched b # evs) = (sched, b) # seed_arrivals evs"
| "seed_arrivals (ev # evs) = seed_arrivals evs"

text \<open>One step of the node is at most one append to its chain.\<close>

lemma node_sync_block_chain:
  "nd_chain (node_sync_block e R sched b n) = chain_step e R (nd_chain n) (sched, b)"
  "nd_sync_mode (node_sync_block e R sched b n) = nd_sync_mode n"
  by (auto simp: node_sync_block_def chain_step_def split: prod.splits sum.splits)

lemma node_tick_chain:
  assumes "node_tick e R ls t n = Some n'" "fair_tick t"
  shows "\<exists>arr. fair_arrivals arr \<and> nd_chain n' = run (chain_step e R) (nd_chain n) arr \<and>
    (nd_sync_mode n \<longrightarrow> arr = []) \<and> nd_sync_mode n' = nd_sync_mode n"
proof (cases "nd_sync_mode n \<or> \<not> is_proposer (nd_engine n)")
  case True
  then show ?thesis using assms(1) by (intro exI [of _ "[]"]) (auto simp: tick_defs fair_arrivals_def)
next
  case False
  then obtain b where b: "build_block e t (ch_height (nd_chain n) + 1) (tip_hash (nd_chain n)) (nd_reward n)
      (nd_mempool n) = Some b"
    using assms(1) by (auto simp: tick_defs Let_def split: option.splits)
  obtain fin g where d: "drive_solo_consensus e ls (tk_clock t) (nd_engine n) b = (fin, g)" by fastforce
  show ?thesis
  proof (cases fin)
    case None
    then show ?thesis
      using assms(1) False b d by (intro exI [of _ "[]"]) (auto simp: tick_defs Let_def fair_arrivals_def)
  next
    case (Some f)
    let ?ev = "(tk_sched t (tx_count f), f)"
    have "fair_arrivals [?ev]"
      using assms(2) by (simp add: fair_arrivals_def fair_tick_def schedule_for_def tx_count_def)
    moreover have "nd_chain n' = chain_step e R (nd_chain n) ?ev" "nd_sync_mode n' = nd_sync_mode n"
      using assms(1) False b d Some
      by (auto simp: tick_defs Let_def chain_step_def split: prod.splits sum.splits)
    ultimately show ?thesis using False by (intro exI [of _ "[?ev]"]) simp
  qed
qed

lemma node_network_chain:
  "nd_chain (node_network e ls now ev n) = nd_chain n" "nd_sync_mode (node_network e ls now ev n) = nd_sync_mode n"
  by (cases ev; simp)+

lemma node_run_None: "run (node_step e R ls) None evs = None"
  by (induction evs) (auto simp: node_step_def)

lemma fair_arrivals_append: "fair_arrivals (xs @ ys) \<longleftrightarrow> fair_arrivals xs \<and> fair_arrivals ys"
  by (auto simp: fair_arrivals_def)

text \<open>
  C14. The node refines the chain: whatever happens to a node (blocks of a seed, votes and other network
  events, ticks, RPC requests), its chain is at every moment one that the chain machine reaches by a
  sequence of appends, so that all invariants of that machine hold of it; and a node that follows a
  seed appends exactly what the seed sends, in that order, and nothing of its own.
\<close>

theorem node_refines_chain:
  fixes R :: "'d rocks"
  assumes "\<forall>ev\<in>set evs. fair_event ev" "run (node_step e R ls) (Some n) evs = Some n'"
  shows "\<exists>arr. fair_arrivals arr \<and> nd_chain n' = run (chain_step e R) (nd_chain n) arr \<and>
    (nd_sync_mode n \<longrightarrow> arr = seed_arrivals evs)"
  using assms
proof (induction evs arbitrary: n)
  case (Cons ev evs)
  obtain n1 where n1: "node_react e R ls ev n = Some n1"
    using Cons.prems(2) node_run_None [of e R ls evs]
    by (cases "node_react e R ls ev n") (auto simp: node_step_Some)
  have step: "\<exists>arr. fair_arrivals arr \<and> nd_chain n1 = run (chain_step e R) (nd_chain n) arr \<and>
      (nd_sync_mode n \<longrightarrow> arr = seed_arrivals [ev]) \<and> nd_sync_mode n1 = nd_sync_mode n"
  proof (cases ev)
    case (EvTick t)
    then show ?thesis using node_tick_chain [of e R ls t n n1] n1 Cons.prems(1) by simp
  next
    case (EvSyncBlock sched b)
    then show ?thesis
      using n1 Cons.prems(1)
      by (intro exI [of _ "[(sched, b)]"]) (auto simp: node_sync_block_chain fair_arrivals_def)
  next
    case (EvNetwork now x)
    then show ?thesis
      using n1 by (intro exI [of _ "[]"]) (auto simp: node_network_chain fair_arrivals_def)
  next
    case (EvRpc now ks peers rq)
    then show ?thesis using n1 by (intro exI [of _ "[]"]) (auto simp: fair_arrivals_def)
  qed
  have "run (node_step e R ls) (Some n1) evs = Some n'" using Cons.prems(2) n1 by (simp add: node_step_Some)
  with Cons.IH [of n1] Cons.prems(1) obtain arr' where arr': "fair_arrivals arr'"
    "nd_chain n' = run (chain_step e R) (nd_chain n1) arr'" "nd_sync_mode n1 \<longrightarrow> arr' = seed_arrivals evs"
    by auto
  from step obtain arr where arr: "fair_arrivals arr" "nd_chain n1 = run (chain_step e R) (nd_chain n) arr"
    "nd_sync_mode n \<longrightarrow> arr = seed_arrivals [ev]" "nd_sync_mode n1 = nd_sync_mode n" by blast
  have seeds: "seed_arrivals (ev # evs) = seed_arrivals [ev] @ seed_arrivals evs" by (cases ev) auto
  show ?case
    using arr arr' by (intro exI [of _ "arr @ arr'"]) (simp add: run_append fair_arrivals_append seeds)
qed (auto simp: fair_arrivals_def intro!: exI [of _ "[]"])

theorem node_refines_chain_witness:
  "let b = next_block (chain_new demo 3 :: unit chain) demo_tx in
    \<exists>n. run (node_step demo mem_rocks (\<lambda>m. [])) (Some (node_start 0 0 (chain_new demo 3) None True))
        [EvNetwork 0 (PeerDisconnected [2]), EvSyncBlock [0] b, EvTick demo_tick] = Some n \<and>
      nd_chain n = run (chain_step demo mem_rocks) (chain_new demo 3) [([0], b)]"
proof -
  let ?b = "next_block (chain_new demo 3 :: unit chain) demo_tx"
  let ?evs = "[EvNetwork 0 (PeerDisconnected [2]), EvSyncBlock [0] ?b, EvTick demo_tick]"
  let ?n = "node_start 0 0 (chain_new demo 3) None True"
  have fair: "\<forall>ev\<in>set ?evs. fair_event ev"
    by (auto simp: demo_tick_fair schedule_for_def next_block_def)
  obtain n where n: "run (node_step demo mem_rocks (\<lambda>m. [])) (Some ?n) ?evs = Some n"
    by (simp add: node_step_Some tick_defs node_sync_block_chain(2))
  from node_refines_chain [OF fair n] n show ?thesis unfolding Let_def by fastforce
qed

section \<open>The validator is paid\<close>

text \<open>The coinbase for the address of known keys.\<close>

lemma coinbase_output:
  assumes "dalek_laws e" "\<forall>bs. length (sha3_256 e bs) = 32"
    and "build_coinbase e d d' rng (address_of e b a) v h = Some cb"
  shows "\<exists>out. outputs cb = [out] \<and> verify_range e (amount_commitment out) (range_proof out) \<and>
    one_time_pubkey out =
      compress e (smul e (one_time_secret e (from_bytes_mod_order_wide e d) a 0 + b) (basepoint e)) \<and>
    tx_pubkey out = compress e (smul e (from_bytes_mod_order_wide e d) (basepoint e)) \<and>
    encrypted_amount out = encrypt_amount e v (one_time_secret e (from_bytes_mod_order_wide e d) a 0)"
proof -
  obtain pf where pf: "prove_range e rng v (scalar_to_bytes e (from_bytes_mod_order_wide e d')) = Some pf"
    "verify_range e (compress e (pedersen e (amount_scalar v) (from_bytes_mod_order_wide e d'))) pf"
    using range_proof_for_scalar [OF assms(1,2)] by blast
  show ?thesis
    using assms(3) pf
    by (auto simp: build_coinbase_def generate_output_address [OF assms(1)] commit_random_total [OF assms(1)] Let_def)
qed

lemma reward_address_of_wallet:
  assumes "dalek_laws e" "bs58_laws e" "\<forall>bs. length (sha3_256 e bs) = 32" "owns e d b a"
  shows "load_reward_address e (Some (wd_address d)) content = Some (address_of e b a)"
proof -
  have "length (public_spend (address_of e b a)) = 32" "length (public_view (address_of e b a)) = 32"
    by (simp_all add: address_of_def length_compress [OF assms(1)])
  from parse_address_text [OF assms(2,3) this] show ?thesis
    using assms(4) by (simp add: load_reward_address_def owns_def)
qed

text \<open>
  C22. The reward reaches the wallet it is configured for: a validator whose reward address is the text
  that a wallet prints builds, on every tick and whatever its draws, a block whose coinbase has one
  output, with a valid range proof on its commitment; once the coinbase is applied, that output is in
  the output set, the wallet recognises it and counts exactly the scheduled reward of the height.
\<close>

theorem reward_reaches_wallet:
  assumes "dalek_laws e" "aead_laws e" "hex_laws e" "bs58_laws e" "\<forall>bs. length (sha3_256 e bs) = 32"
  shows "let me = derive_keys e phrase; addr = load_reward_address e (Some (wd_address me)) content in
    \<exists>b cb out. build_block e t h prev addr pending = Some b \<and> transactions b = cb # pending \<and>
      tx_type cb = Coinbase \<and> outputs cb = [out] \<and> verify_range e (amount_commitment out) (range_proof out) \<and>
      (\<forall>c :: 'd chain. \<exists>u. utxo_set (apply_tx e h cb c) (tx_ident e cb, 0) = Some u \<and> ut_block_height u = h \<and>
         recognised e me u \<and> wallet_total e me [detected_of e u] = block_reward h)"
proof -
  obtain b a where owns: "owns e (derive_keys e phrase) b a" using derive_keys_owns by blast
  note addr = reward_address_of_wallet [OF assms(1,4,5) owns, of content]
  obtain cb where cb: "build_coinbase e (tk_draw_out t) (tk_draw_blind t) (tk_rng t) (address_of e b a)
      (block_reward h) h = Some cb"
    using build_coinbase_total [OF assms(1)] by blast
  obtain out where out: "outputs cb = [out]" "verify_range e (amount_commitment out) (range_proof out)"
    "one_time_pubkey out = compress e
       (smul e (one_time_secret e (from_bytes_mod_order_wide e (tk_draw_out t)) a 0 + b) (basepoint e))"
    "tx_pubkey out = compress e (smul e (from_bytes_mod_order_wide e (tk_draw_out t)) (basepoint e))"
    "encrypted_amount out =
       encrypt_amount e (block_reward h) (one_time_secret e (from_bytes_mod_order_wide e (tk_draw_out t)) a 0)"
    using coinbase_output [OF assms(1,5) cb] by blast
  have "\<exists>u. utxo_set (apply_tx e h cb c) (tx_ident e cb, 0) = Some u \<and> ut_block_height u = h \<and>
      recognised e (derive_keys e phrase) u \<and> wallet_total e (derive_keys e phrase) [detected_of e u] = block_reward h"
    for c :: "'d chain"
  proof -
    let ?u = "\<lparr> ut_output = out, ut_block_height = h, ut_tx_id = tx_ident e cb, ut_output_index = 0 \<rparr>"
    have "utxo_set (apply_tx e h cb c) (tx_ident e cb, 0) = Some ?u"
      by (simp add: apply_tx_def add_output_def out(1) Let_def)
    with payment_scanned [OF assms(1-3) owns, of ?u] out(3-5) show ?thesis by simp
  qed
  moreover have "tx_type cb = Coinbase" using build_coinbase_type [OF cb] by blast
  ultimately show ?thesis
    using cb out(1,2) by (simp add: Let_def addr build_block_def)
qed

theorem reward_reaches_wallet_witness:
  "let me = derive_keys demo ''abandon ability''; addr = load_reward_address demo (Some (wd_address me)) None in
    \<exists>b cb out. build_block demo demo_tick 7 (zeros 32) addr [] = Some b \<and> transactions b = [cb] \<and>
      outputs cb = [out] \<and> verify_range demo (amount_commitment out) (range_proof out) \<and>
      (\<exists>u. utxo_set (apply_tx demo 7 cb (chain_new demo 3 :: unit chain)) (tx_ident demo cb, 0) = Some u \<and>
         wallet_total demo me [detected_of demo u] = block_reward 7)"
proof -
  have sha: "\<forall>bs. length (sha3_256 demo bs) = 32" by simp
  from reward_reaches_wallet [OF demo_dalek demo_aead demo_hex demo_bs58 sha, where ?'d = unit,
      of "''abandon ability''" None demo_tick 7 "zeros 32" "[]"]
  show ?thesis unfolding Let_def by blast
qed

end
