(* ===== verification/Tasks.thy ===== *)
theory Tasks
  imports Node
begin

text \<open>
  The tasks of \<open>src/src/main.rs\<close> at the grain of their locks. A tick of the main task first reads the
  height and the tip under the read lock of the chain, then drains the pending transactions under
  theirs, then builds, finalizes and appends; the RPC tasks run between any two of these steps. The
  event loop of \<open>Node\<close>, in which a tick is one event, simulates every interleaving.
\<close>

datatype phase =
    Idle
  | HeightRead tick u64 block_hash
  | Drained tick u64 block_hash "transaction list"

type_synonym 'd config = "'d node \<times> phase"

text \<open>
  A step is labelled by the event that takes place in it: a request when it is answered, a tick when it
  is over at once or when the pending transactions are drained.
\<close>

inductive task_step ::
  "('p::ab_group_add, 's::field) crates \<Rightarrow> 'd rocks \<Rightarrow> ((bytes \<Rightarrow> vote option) \<Rightarrow> vote list) \<Rightarrow>
   'd config \<Rightarrow> node_event option \<Rightarrow> 'd config \<Rightarrow> bool"
  for e R ls where
  rpc: "task_step e R ls (n, p) (Some (EvRpc now ks peers rq))
     (n\<lparr>nd_mempool := snd (serve_rpc e now ks peers (nd_chain n) (nd_mempool n) rq)\<rparr>, p)"
| other: "fair_event ev \<Longrightarrow> \<not> is_tick ev \<Longrightarrow> node_react e R ls ev n = Some n' \<Longrightarrow>
     task_step e R ls (n, Idle) (Some ev) (n', Idle)"
| pass: "fair_tick t \<Longrightarrow> nd_sync_mode n \<or> \<not> is_proposer (nd_engine n) \<Longrightarrow>
     task_step e R ls (n, Idle) (Some (EvTick t)) (n, Idle)"
| read: "fair_tick t \<Longrightarrow> \<not> nd_sync_mode n \<Longrightarrow> is_proposer (nd_engine n) \<Longrightarrow>
     task_step e R ls (n, Idle) None (n, HeightRead t (ch_height (nd_chain n) + 1) (tip_hash (nd_chain n)))"
| drain: "task_step e R ls (n, HeightRead t h prev) (Some (EvTick t))
     (n\<lparr>nd_mempool := []\<rparr>, Drained t h prev (nd_mempool n))"
| finish: "finish_tick e R ls t h prev pending n = Some n' \<Longrightarrow>
     task_step e R ls (n, Drained t h prev pending) None (n', Idle)"

inductive_cases task_internal: "task_step e R ls c None c'"
inductive_cases task_event: "task_step e R ls c (Some ev) c'"

text \<open>
  The event that stands for a tick takes place when the pending transactions are drained: from then
  on the event loop is ahead by the outcome of the tick.
\<close>

fun task_sim ::
  "('p::ab_group_add, 's::field) crates \<Rightarrow> 'd rocks \<Rightarrow> ((bytes \<Rightarrow> vote option) \<Rightarrow> vote list) \<Rightarrow>
   'd config \<Rightarrow> 'd node option \<Rightarrow> bool" where
  "task_sim e R ls (n, Idle) s = (s = Some n)"
| "task_sim e R ls (n, HeightRead t h prev) s =
     (s = Some n \<and> fair_tick t \<and> \<not> nd_sync_mode n \<and> is_proposer (nd_engine n) \<and>
      h = ch_height (nd_chain n) + 1 \<and> prev = tip_hash (nd_chain n))"
| "task_sim e R ls (n, Drained t h prev pending) s = (s = finish_tick e R ls t h prev pending n)"

text \<open>The end of a tick neither reads nor writes the pending transactions.\<close>

lemma finish_tick_mempool:
  "finish_tick e R ls t h prev pending (n\<lparr>nd_mempool := m\<rparr>) =
     map_option (\<lambda>n'. n'\<lparr>nd_mempool := m\<rparr>) (finish_tick e R ls t h prev pending n)"
  by (simp add: finish_tick_def split: option.split prod.split sum.split)

lemma finish_tick_keeps:
  "finish_tick e R ls t h prev pending n = Some n' \<Longrightarrow> nd_mempool n' = nd_mempool n"
  by (auto simp: finish_tick_def split: option.splits prod.splits sum.splits)

lemma rpc_sim:
  assumes "task_sim e R ls (n, p) s"
  shows "task_sim e R ls (n\<lparr>nd_mempool := snd (serve_rpc e now ks peers (nd_chain n) (nd_mempool n) rq)\<rparr>, p)
    (node_step e R ls s (EvRpc now ks peers rq))"
proof (cases p)
  case Idle
  then show ?thesis using assms by (simp add: node_step_def)
next
  case (HeightRead t h prev)
  then show ?thesis using assms by (simp add: node_step_def)
next
  case (Drained t h prev pending)
  then show ?thesis
    using assms finish_tick_keeps [of e R ls t h prev pending n]
    by (cases "finish_tick e R ls t h prev pending n")
      (simp_all add: node_step_def finish_tick_mempool serve_rpc_pool)
qed

lemma task_sim_internal: "task_step e R ls c None c' \<Longrightarrow> task_sim e R ls c s \<Longrightarrow> task_sim e R ls c' s"
  by (auto elim!: task_internal)

lemma task_sim_event:
  assumes "task_step e R ls c (Some ev) c'" "task_sim e R ls c s"
  shows "fair_event ev \<and> task_sim e R ls c' (node_step e R ls s ev)"
  using assms by (auto elim!: task_event simp: node_step_Some node_tick_def rpc_sim)

interpretation tasks: simulation "task_step e R ls" "node_step e R ls" fair_event "task_sim e R ls"
  for e :: "('p::ab_group_add, 's::field) crates" and R :: "'d rocks" and ls
  by unfold_locales (fact task_sim_internal, fact task_sim_event)

text \<open>What a request submits is in a block or pending, once.\<close>

fun event_txs :: "('p, 's) crates \<Rightarrow> node_event \<Rightarrow> transaction list" where
  "event_txs e (EvRpc now ks peers rq) = submitted e rq"
| "event_txs e ev = []"

lemma concat_batches:
  "concat (fst (batches e pool evs)) @ snd (batches e pool evs) = pool @ concat (map (event_txs e) evs)"
  by (induction e pool evs rule: batches.induct) (auto split: prod.splits)

lemma solo_exactly_once:
  assumes "dalek_laws e" "solo n" "\<forall>ev\<in>set evs. client_event ev" "run (node_step e R ls) (Some n) evs = Some n'"
  shows "\<exists>bs. length bs = length (filter is_tick evs) \<and> valid_blocks e (in_memory (nd_chain n)) bs \<and>
    in_memory (nd_chain n') = fold (extend_chain e) bs (in_memory (nd_chain n)) \<and>
    concat (map (\<lambda>b. tl (transactions b)) bs) @ nd_mempool n' = nd_mempool n @ concat (map (event_txs e) evs)"
proof -
  obtain bs where bs: "map (\<lambda>b. tl (transactions b)) bs = fst (batches e (nd_mempool n) evs)"
    "nd_mempool n' = snd (batches e (nd_mempool n) evs)" "valid_blocks e (in_memory (nd_chain n)) bs"
    "in_memory (nd_chain n') = fold (extend_chain e) bs (in_memory (nd_chain n))"
    using solo_run [OF assms(1-3), of R ls] assms(4) by auto
  moreover have "length bs = length (filter is_tick evs)"
    using length_batches [OF assms(3)] by (metis bs(1) length_map)
  ultimately show ?thesis using concat_batches [of e "nd_mempool n" evs] by (intro exI [of _ bs]) simp
qed

text \<open>
  C15. Ticks are atomic: every interleaving of the main task with the RPC tasks, at the grain of the locks,
  that ends between two ticks ends in the state that the event loop reaches on exactly the events of
  that interleaving, in their order: each request where it was answered, each tick where the pending
  transactions were drained, or where it was over at once. For a node that validates alone, is at the
  start of a height, has only lite transactions without inputs pending, as the interface leaves them, and
  whose events are requests and ticks, no submission is lost or included twice, whichever side of
  the drain it falls on: the chain grows by one valid block for each tick, and the transactions of
  these blocks after their coinbases, followed by what is pending at the end, are what was pending
  at the beginning followed by the submissions, in the order of the requests.
\<close>

theorem tasks_linearize:
  assumes "labelled_path (task_step e R ls) (n, Idle) labs (n', Idle)"
  shows "(\<forall>ev\<in>set (events labs). fair_event ev) \<and> run (node_step e R ls) (Some n) (events labs) = Some n' \<and>
    (dalek_laws e \<and> solo n \<and> (\<forall>ev\<in>set (events labs). client_event ev) \<longrightarrow>
      (\<exists>bs. length bs = length (filter is_tick (events labs)) \<and> valid_blocks e (in_memory (nd_chain n)) bs \<and>
        in_memory (nd_chain n') = fold (extend_chain e) bs (in_memory (nd_chain n)) \<and>
        concat (map (\<lambda>b. tl (transactions b)) bs) @ nd_mempool n' =
          nd_mempool n @ concat (map (event_txs e) (events labs))))"
proof -
  have "(\<forall>ev\<in>set (events labs). fair_event ev) \<and> run (node_step e R ls) (Some n) (events labs) = Some n'"
    using tasks.sim_path [OF assms, of "Some n"] by simp
  then show ?thesis using solo_exactly_once by blast
qed

text \<open>A tick into which a request falls after the drain is one of the interleavings.\<close>

lemma tick_rpc_path:
  assumes "\<not> nd_sync_mode n" "is_proposer (nd_engine n)" "node_tick e R ls t n = Some n1" "fair_tick t"
  shows "labelled_path (task_step e R ls) (n, Idle) [None, Some (EvTick t), Some (EvRpc now ks peers rq), None]
    (n1\<lparr>nd_mempool := submitted e rq\<rparr>, Idle)"
proof -
  let ?h = "ch_height (nd_chain n) + 1" and ?prev = "tip_hash (nd_chain n)" and ?n0 = "n\<lparr>nd_mempool := []\<rparr>"
  have "task_step e R ls (n, Idle) None (n, HeightRead t ?h ?prev)" using assms(1,2,4) by (auto intro: read)
  moreover have "task_step e R ls (n, HeightRead t ?h ?prev) (Some (EvTick t)) (?n0, Drained t ?h ?prev (nd_mempool n))"
    by (rule drain)
  moreover have "task_step e R ls (?n0, Drained t ?h ?prev (nd_mempool n)) (Some (EvRpc now ks peers rq))
      (n\<lparr>nd_mempool := submitted e rq\<rparr>, Drained t ?h ?prev (nd_mempool n))"
    using rpc [of e R ls ?n0 _ now ks peers rq] by (simp add: serve_rpc_pool)
  moreover have "task_step e R ls (n\<lparr>nd_mempool := submitted e rq\<rparr>, Drained t ?h ?prev (nd_mempool n)) None
      (n1\<lparr>nd_mempool := submitted e rq\<rparr>, Idle)"
    using assms(1-3) finish_tick_mempool [of e R ls t ?h ?prev "nd_mempool n" "submitted e rq" ?n0]
    by (intro finish) (simp add: node_tick_def)
  ultimately show ?thesis by (meson go here)
qed

text \<open>The witness submits a payment between the drain and the end of the first tick: it stays pending.\<close>

definition demo_paid :: stealth_output where
  "demo_paid = paid_output demo_json Z1 Z1 Z1 77"

definition demo_paid_json :: string where
  "demo_paid_json = demo_lite_json (paid_raw demo_json demo_paid 77)"

definition demo_submit :: rpc_request where
  "demo_submit = \<lparr> rq_id = JUint 1, rq_method = ''cipherx_sendRawTransaction'',
     rq_params = [JString (hex_encode demo_json (str_bytes demo_paid_json))] \<rparr>"

lemma demo_submitted: "submitted demo_json demo_submit = [paid_tx demo_paid demo_paid_json]"
proof -
  have json: "demo_paid_json = wc_lite_json (demo_wallet_crates (derive_keys demo_json [])) (paid_raw demo_json demo_paid 77)"
    by (simp add: demo_paid_json_def demo_wallet_crates_def)
  have "snd (serve_rpc demo_json 0 [] 0 (chain_new demo_json 3 :: unit chain) [] demo_submit) =
      [paid_tx demo_paid demo_paid_json]"
    unfolding demo_submit_def json
    by (subst node_accepts_payment [OF demo_json_laws(1,3,5)]) (simp_all add: demo_paid_def)
  then show ?thesis by (simp only: serve_rpc_pool append_Nil)
qed

theorem tasks_linearize_witness:
  "\<exists>n' labs. events labs = [EvTick demo_tick, EvRpc 0 [] 1 demo_submit] \<and>
     labelled_path (task_step demo_json mem_rocks (\<lambda>m. [])) (node_start 0 0 (chain_new demo_json 3) None False, Idle) labs (n', Idle) \<and>
     run (node_step demo_json mem_rocks (\<lambda>m. [])) (Some (node_start 0 0 (chain_new demo_json 3) None False))
       [EvTick demo_tick, EvRpc 0 [] 1 demo_submit] = Some n' \<and>
     ch_height (nd_chain n') = 1 \<and> nd_mempool n' = [paid_tx demo_paid demo_paid_json]"
proof -
  define n where "n = (node_start 0 0 (chain_new demo_json 3) None False :: (cf \<times> bytes \<Rightarrow> bytes option) node)"
  have solo: "solo n" unfolding n_def by (rule solo_node_start)
  have zero: "ch_height (nd_chain n) = 0" by (simp add: n_def chain_new_def Let_def)
  obtain n1 b where tick: "node_tick demo_json mem_rocks (\<lambda>m. []) demo_tick n = Some n1"
    "block_ok demo_json (nd_chain n) b" "nd_chain n1 = with_store demo_json mem_rocks b (extend_chain demo_json b (nd_chain n))"
    using solo_tick [OF demo_json_laws(1) solo demo_tick_fair] by blast
  have run_on: "\<not> nd_sync_mode n" "is_proposer (nd_engine n)" using solo solo_proposer by (auto simp: solo_def)
  let ?n' = "n1\<lparr>nd_mempool := [paid_tx demo_paid demo_paid_json]\<rparr>"
  let ?labs = "[None, Some (EvTick demo_tick), Some (EvRpc 0 [] 1 demo_submit), None]"
  have path: "labelled_path (task_step demo_json mem_rocks (\<lambda>m. [])) (n, Idle) ?labs (?n', Idle)"
    using tick_rpc_path [OF run_on tick(1) demo_tick_fair, of 0 "[]" 1 demo_submit] by (simp add: demo_submitted)
  have "ch_height (nd_chain ?n') = 1" using tick(2,3) zero by (simp add: with_store_def block_ok_def)
  with path tasks_linearize [OF path] show ?thesis
    unfolding n_def by (intro exI [of _ ?n'] exI [of _ ?labs]) simp
qed

end
