(* ===== verification/Spec2Isabelle.thy ===== *)
theory Spec2Isabelle
  imports State ChainRestore ChainUtxo Pool TendermintGaps TendermintLocks TendermintRounds TxSound Precompile PrivState Session Http WalletCliProps Tasks
begin

text \<open>
  CipherX Lite is a proof-of-stake node with private payments, written in Rust, and its wallet. This
  development models its own logic; the paths below are under \<open>src/src/\<close>.

  \<^bold>\<open>The program and how its parts interact.\<close> The node (\<open>main.rs\<close>) keeps one chain (\<open>core/chain.rs\<close>), a
  vector of pending transactions, a consensus engine (\<open>consensus/tendermint.rs\<close>) and the progress of
  a synchronisation (\<open>network/sync.rs\<close>). Its event loop appends the blocks of a seed, or, when it
  validates, builds a block on every tick, lets the engine finalize it and appends it. Tasks beside the
  loop answer JSON-RPC (\<open>network/rpc.rs\<close>) and serve blocks to peers in frames
  (\<open>network/sync_protocol.rs\<close>). An append writes to the store (\<open>storage/db.rs\<close>), from which
  \<open>Chain::open\<close> replays. Transactions (\<open>core/transaction.rs\<close>) are checked by the balance and range proofs
  of \<open>crypto/ringct.rs\<close> and the ring signatures of \<open>crypto/ring_sig.rs\<close>, and pay to the one-time keys of
  \<open>crypto/stealth.rs\<close>. The wallet (\<open>bin/wallet.rs\<close>) derives keys from a mnemonic, scans the
  outputs that the node serves and submits payments. The contract executor with its precompiles, private
  state, ABI and gas (\<open>evm/\<close>), the mempool of \<open>core/mempool.rs\<close>, the fee market of \<open>core/state.rs\<close> and the
  slashing rules are libraries that the node's loop does not call.

  \<^bold>\<open>The theories.\<close>
  \<^item> \<open>Prelude\<close>: machine words, byte codecs, runs of a machine and the interfaces of the library:
    \<open>fixed_codec\<close> (encodings of fixed width), \<open>inv_machine\<close> and \<open>mono_machine\<close> (invariants and monotone
    observations of runs), \<open>simulation\<close> (a labelled transition relation and a machine that runs on its labels); \<open>Data\<close> adds
    \<open>spent_set\<close>. Each is interpreted where a component provides it. \<open>F64\<close> is binary64 arithmetic.
  \<^item> \<open>Data\<close>, \<open>Keys\<close>, \<open>Tx\<close>, \<open>Merkle\<close>: the data types and operations of transactions, keys and blocks.
    \<open>Crates\<close> holds the third-party crates as the fields of one record, with the laws the program relies
    on as predicates; \<open>Instance\<close> is a concrete value of that record on which all these laws hold.
  \<^item> \<open>Ringct\<close>, \<open>RangeProof\<close>, \<open>RingSig\<close>, \<open>Stealth\<close>: the cryptography, as functions over an abstract group
    and field. Completeness of proofs and signatures, linkability of key images, recognition of payments.
    \<open>RingSound\<close> and \<open>RangeSound\<close> compute the key of a signer and the opening of a range proof's commitment
    from two answers of a prover, as the random-oracle argument does, and \<open>TxSound\<close> concludes that an accepted
    transfer conserves value, or that its openings give the discrete logarithm between the generators.
  \<^item> \<open>Params\<close>, \<open>Db\<close>, \<open>Chain\<close>: parameters, store and chain state with \<open>append_block\<close> and \<open>chain_open\<close>.
    \<open>ChainProps\<close> has the exact acceptance condition and shows that a run of appends is a fold of accepted
    blocks; on it rest \<open>ChainHistory\<close> (links, lookups, supply), \<open>ChainUtxo\<close> (contents of the output
    set), \<open>ChainRestore\<close> (a restart restores the chain) and \<open>ChainGaps\<close> (what the acceptance lets pass).
  \<^item> \<open>Tendermint\<close>, \<open>TendermintProps\<close>, \<open>TendermintLive\<close>, \<open>TendermintRounds\<close>, \<open>TendermintNet\<close>,
    \<open>TendermintLocks\<close>, \<open>TendermintGaps\<close>, \<open>Slashing\<close>: the engine, its lock and quorums, the outcome of an
    undisturbed round and of one whose proposer is silent, agreement in a network of engines with
    Byzantine members (the interface \<open>quorum_system\<close>), how a locked third decides a height, the two ways in which its checks fail, and the penalties.
    The network theorems assume channels that authenticate votes (\<open>deliverable\<close>): a delivered vote has a
    power of one and comes from the validator that it names. The code checks neither; \<open>TendermintGaps\<close>
    has the forged vote that finalizes a block.
  \<^item> \<open>Pool\<close>, \<open>Gas\<close>, \<open>FeeState\<close>, \<open>State\<close>, \<open>Abi\<close>, \<open>Evm\<close>, \<open>PrivState\<close>, \<open>Precompile\<close>: mempool, fees, the
    coordinator of a store and a fee market, contracts.
  \<^item> \<open>Sync\<close>, \<open>Net\<close>, \<open>Session\<close>: frames, catching up with a peer, gossip with deduplication, and the two ends
    of a connection: the serving loop down to the bytes of its reads, the follower over their results.
    That a session answers and that a follower catches up is shown for messages within the frame limit
    of 10 MiB while no block is produced; what a produced block does is shown as well.
  \<^item> \<open>Rpc\<close>, \<open>Http\<close>, \<open>Mnemonic\<close>, \<open>Address\<close>, \<open>Wallet\<close>, \<open>WalletProps\<close>, \<open>Payment\<close>: the handlers, the HTTP server
    in front of them, the wallet, and a payment followed from one wallet through the node to the balance of another.
  \<^item> \<open>CipText\<close>, \<open>WalletCli\<close>, \<open>WalletCliProps\<close>: the text of amounts, and the commands of the wallet over files, typed lines, messages and
    requests; which files and methods each one touches, the recovery from the words, and the scan cache
    that all wallets share.
  \<^item> \<open>Startup\<close>, \<open>Node\<close>, \<open>Tasks\<close>: configuration, the Tor client, block production and the event loop; liveness of a
    validator, the refinement of the chain machine by the node, and the atomicity of ticks among the
    tasks that share its locks, with every submission in a block or pending exactly once.

  \<^bold>\<open>Conventions.\<close> A Rust struct is a record, an enum a datatype, an integer a word of its width, with the
  wrap-around of release builds; a result is a sum, its error on the left; a hash map is a partial map.
  Where the program iterates over a hash map or in parallel, the order is an argument and the theorems
  hold for every order. Clocks, random bytes and files are arguments of the operations that read them.
  A panic of the node's loop is the state \<^const>\<open>None\<close>; the wallet program has an exit status.

  \<^bold>\<open>Bounds and fuel.\<close> The signing loop of a ring signature runs for as many steps as the ring has members,
  which is what the source's \<open>while\<close> does; the catch-up loop is a partial function that is proved to
  return on every serving peer. Chain theorems that read heights as numbers assume histories shorter
  than \<open>2^64\<close> blocks.

  \<^bold>\<open>Not modelled.\<close> Sockets, the text form of JSON, the fixed wording and the layout of the console, modes
  of files, logging, zeroing of memory and RocksDB's tuning are input and output. \<open>bincode\<close>, \<open>serde_json\<close>, the hashes, curves and ciphers are parameters.

  \<^bold>\<open>Plan.\<close> The probability that a prover can be rewound and the byte formats of \<open>bincode\<close> for blocks and
  votes remain to be done.
\<close>

end
